(* ===== verification/Lab_Prelude.thy ===== *)
theory Lab_Prelude
  imports Main "HOL-Library.Word"
begin

text \<open>
  Shared vocabulary of the development: Go's fixed-width integers, Go map reads with
  their zero value, saturating time arithmetic, log records, the transition-system
  interface whose reachability and invariant lemmas the state machines of the later
  theories reuse, and the collections of simplification rules.
\<close>

section \<open>Collections\<close>

named_theorems trace_simps \<open>effects of the modelled operations on the recorded traces\<close>
named_theorems json_simps \<open>evaluation rules for JSON decoding\<close>

section \<open>Machine integers\<close>

type_synonym int32 = "32 word"
type_synonym int64 = "64 word"

definition lt32 :: "int32 \<Rightarrow> int32 \<Rightarrow> bool" where
  "lt32 a b \<longleftrightarrow> sint a < sint b"

definition le32 :: "int32 \<Rightarrow> int32 \<Rightarrow> bool" where
  "le32 a b \<longleftrightarrow> sint a \<le> sint b"

lemma le32_iff [simp]: "\<not> lt32 a b \<longleftrightarrow> le32 b a"
  by (auto simp: lt32_def le32_def)

lemma sint32_range: "- (2 ^ 31) \<le> sint (a :: int32)" "sint (a :: int32) < 2 ^ 31"
  using sint_range_size [of a] by (simp_all add: word_size)

lemma sint32_add_wrap:
  "sint (a + b :: int32) =
     (if sint a + sint b < - (2 ^ 31) then sint a + sint b + 2 ^ 32
      else if 2 ^ 31 \<le> sint a + sint b then sint a + sint b - 2 ^ 32
      else sint a + sint b)"
proof -
  define x where "x = sint a + sint b"
  have r: "- (2 ^ 32) \<le> x" "x < 2 ^ 32"
    using sint32_range [of a] sint32_range [of b] by (simp_all add: x_def)
  have "sint (a + b) = signed_take_bit 31 x"
    by (simp add: sint_word_ariths x_def)
  also have "\<dots> = (x + 2 ^ 31) mod 2 ^ 32 - 2 ^ 31"
    by (simp add: signed_take_bit_eq_take_bit_shift take_bit_eq_mod)
  also have "(x + 2 ^ 31) mod 2 ^ 32 =
      (if x < - (2 ^ 31) then x + 2 ^ 31 + 2 ^ 32
       else if 2 ^ 31 \<le> x then x + 2 ^ 31 - 2 ^ 32 else x + 2 ^ 31)"
  proof -
    have "(x + 2 ^ 31) mod 2 ^ 32 = (x + 2 ^ 31 + 2 ^ 32) mod 2 ^ 32"
      by (simp only: mod_add_self2)
    moreover have "(x + 2 ^ 31) mod 2 ^ 32 = (x + 2 ^ 31 - 2 ^ 32) mod 2 ^ 32"
      by (simp only: minus_mod_self2)
    ultimately show ?thesis
      using r mod_pos_pos_trivial [of "x + 2 ^ 31" "2 ^ 32"]
        mod_pos_pos_trivial [of "x + 2 ^ 31 + 2 ^ 32" "2 ^ 32"]
        mod_pos_pos_trivial [of "x + 2 ^ 31 - 2 ^ 32" "2 ^ 32"]
      by auto
  qed
  finally show ?thesis by (simp add: x_def)
qed

section \<open>Instants and durations\<close>

text \<open>
  An instant is a number of nanoseconds on the process's monotonic clock, a
  \<open>time.Duration\<close> a signed 64-bit number of nanoseconds. \<open>Time.Sub\<close> saturates at the
  ends of the \<open>Duration\<close> range.
\<close>

type_synonym instant = int
type_synonym duration = int

definition min_duration :: duration where
  "min_duration = - (2 ^ 63)"

definition max_duration :: duration where
  "max_duration = 2 ^ 63 - 1"

definition time_sub :: "instant \<Rightarrow> instant \<Rightarrow> duration" where
  "time_sub t u = max min_duration (min max_duration (t - u))"

abbreviation nanosecond :: duration where "nanosecond \<equiv> 1"
abbreviation millisecond :: duration where "millisecond \<equiv> 1000000"
abbreviation second :: duration where "second \<equiv> 1000000000"
abbreviation minute :: duration where "minute \<equiv> 60000000000"

lemma time_sub_less_iff:
  assumes "min_duration < d" "d \<le> max_duration"
  shows "time_sub t u < d \<longleftrightarrow> t - u < d"
  using assms by (auto simp: time_sub_def)

lemma time_sub_self [simp]: "time_sub t t = 0"
  by (simp add: time_sub_def min_duration_def max_duration_def)

section \<open>Go maps\<close>

text \<open>Reading a missing key of a \<open>map[string]string\<close> yields the zero value.\<close>

definition go_get :: "(string \<rightharpoonup> string) \<Rightarrow> string \<Rightarrow> string" where
  "go_get m k = (case m k of None \<Rightarrow> '''' | Some v \<Rightarrow> v)"

text \<open>A nil map reads like an empty one.\<close>

definition go_get_nil :: "(string \<rightharpoonup> string) option \<Rightarrow> string \<Rightarrow> string" where
  "go_get_nil m k = (case m of None \<Rightarrow> '''' | Some m' \<Rightarrow> go_get m' k)"

lemma go_get_upd [simp]: "go_get (m(k \<mapsto> v)) k' = (if k' = k then v else go_get m k')"
  by (simp add: go_get_def)

lemma go_get_empty [simp]: "go_get (\<lambda>_. None) k = ''''"
  by (simp add: go_get_def)

lemma go_get_eqD: "go_get m k = v \<Longrightarrow> v \<noteq> '''' \<Longrightarrow> m k = Some v"
  by (auto simp: go_get_def split: option.splits)

section \<open>Log records\<close>

text \<open>
  A log record keeps its level and message; the structured key-value pairs are not
  modelled, since no part of the program reads them back.
\<close>

datatype log_level = LevelDebug | LevelInfo | LevelError

text \<open>Levels are ordered by severity, as the handlers of \<open>slog\<close> compare them.\<close>

definition level_rank :: "log_level \<Rightarrow> nat" where
  "level_rank l = (case l of LevelDebug \<Rightarrow> 0 | LevelInfo \<Rightarrow> 1 | LevelError \<Rightarrow> 2)"

instantiation log_level :: linorder
begin

definition less_eq_log_level :: "log_level \<Rightarrow> log_level \<Rightarrow> bool" where
  "less_eq_log_level a b \<longleftrightarrow> level_rank a \<le> level_rank b"

definition less_log_level :: "log_level \<Rightarrow> log_level \<Rightarrow> bool" where
  "less_log_level a b \<longleftrightarrow> level_rank a < level_rank b"

instance
  by standard (auto simp: less_eq_log_level_def less_log_level_def level_rank_def
      split: log_level.splits)

end

type_synonym log_record = "log_level \<times> string"

section \<open>Lists\<close>

lemma count_list_distinct: "distinct xs \<Longrightarrow> count_list xs x = (if x \<in> set xs then 1 else 0)"
  by (induction xs) auto

section \<open>Transition systems\<close>

text \<open>
  A state machine as initial states and labelled steps; runs are lists of labels.
\<close>

locale machine =
  fixes initial :: "'s \<Rightarrow> bool"
    and step :: "'s \<Rightarrow> 'a \<Rightarrow> 's \<Rightarrow> bool"
begin

inductive run :: "'s \<Rightarrow> 'a list \<Rightarrow> 's \<Rightarrow> bool" where
  run_nil: "run s [] s"
| run_snoc: "run s as t \<Longrightarrow> step t a u \<Longrightarrow> run s (as @ [a]) u"

definition reachable :: "'s \<Rightarrow> bool" where
  "reachable t \<longleftrightarrow> (\<exists>s as. initial s \<and> run s as t)"

lemma reachable_init: "initial s \<Longrightarrow> reachable s"
  unfolding reachable_def using run.run_nil by blast

lemma reachable_step: "reachable s \<Longrightarrow> step s a t \<Longrightarrow> reachable t"
  unfolding reachable_def using run.run_snoc by blast

lemma run_invariant:
  assumes "run s as t" "I s" "\<And>s a t. step s a t \<Longrightarrow> I s \<Longrightarrow> I t"
  shows "I t"
  using assms by (induction rule: run.induct) auto

lemma reachable_invariant:
  assumes "reachable t" "\<And>s. initial s \<Longrightarrow> I s" "\<And>s a t. step s a t \<Longrightarrow> I s \<Longrightarrow> I t"
  shows "I t"
  using assms run_invariant unfolding reachable_def by metis

lemma run_Nil_iff [simp]: "run s [] t \<longleftrightarrow> t = s"
  by (auto elim: run.cases intro: run_nil)

lemma run_snoc_iff [simp]: "run s (as @ [a]) u \<longleftrightarrow> (\<exists>t. run s as t \<and> step t a u)"
  by (auto elim: run.cases intro: run_snoc)

lemma run_append: "run s (as @ bs) u \<longleftrightarrow> (\<exists>t. run s as t \<and> run t bs u)"
proof (induction bs arbitrary: u rule: rev_induct)
  case Nil
  then show ?case by simp
next
  case (snoc b bs)
  then show ?case
    by (simp flip: append_assoc) blast
qed

lemma run_Cons_iff: "run s (a # as) u \<longleftrightarrow> (\<exists>t. step s a t \<and> run t as u)"
  using run_append [of s "[a]" as u] run_snoc_iff [of s "[]" a] by simp

end

text \<open>
  A machine whose active states only lead to active states of smaller rank: its runs are no
  longer than the rank of the state they start in, and every run can be continued to a state
  in which nothing more can happen.
\<close>

locale bounded_machine = machine initial step
  for initial :: "'s \<Rightarrow> bool" and step :: "'s \<Rightarrow> 'a \<Rightarrow> 's \<Rightarrow> bool" +
  fixes active :: "'s \<Rightarrow> bool"
    and rank :: "'s \<Rightarrow> nat"
  assumes active_step: "active s \<Longrightarrow> step s a t \<Longrightarrow> active t"
    and rank_step: "active s \<Longrightarrow> step s a t \<Longrightarrow> rank t < rank s"
begin

definition stuck :: "'s \<Rightarrow> bool" where
  "stuck s \<longleftrightarrow> (\<nexists>a t. step s a t)"

lemma run_active: "run s as t \<Longrightarrow> active s \<Longrightarrow> active t"
  by (rule run_invariant [of s as t active]) (auto intro: active_step)

lemma run_bounded: "run s as t \<Longrightarrow> active s \<Longrightarrow> length as + rank t \<le> rank s"
proof (induction rule: run.induct)
  case (run_snoc s as t a u)
  then show ?case using rank_step [OF run_active [OF run_snoc(1,4)] run_snoc(2)] by simp
qed simp

lemma run_to_end: "active s \<Longrightarrow> \<exists>as t. run s as t \<and> stuck t"
proof (induction "rank s" arbitrary: s rule: less_induct)
  case less
  show ?case
  proof (cases "stuck s")
    case True
    then show ?thesis using run.run_nil by blast
  next
    case False
    then obtain a t where st: "step s a t" by (auto simp: stuck_def)
    from less.hyps [OF rank_step [OF less.prems st] active_step [OF less.prems st]]
    obtain as u where "run t as u" "stuck u" by blast
    with st have "run s (a # as) u" by (auto simp: run_Cons_iff)
    with \<open>stuck u\<close> show ?thesis by blast
  qed
qed

end

end
