(* ===== verification/Dedupe.thy ===== *)
theory Dedupe
  imports Lab_Prelude
begin

text \<open>
  Fingerprint deduplication (\<open>operator/internal/server/dedupe.go\<close>). The map of last action
  times, the acquire operation and the garbage collection it runs. The locale \<open>alert_gate\<close> is
  what the webhook server relies on from it. The lemmas show that two grants of a fingerprint
  lie a cooldown apart, even when the calls of concurrent requests arrive slightly out of
  clock order, that a grant is given once the cooldown has passed, and that the map keeps no
  expired entry past a grant.
\<close>

section \<open>Model\<close>

record Dedupe =
  cooldown :: duration
  seen :: "string \<rightharpoonup> instant"

definition NewDedupe :: "duration \<Rightarrow> Dedupe" where
  "NewDedupe c = \<lparr>cooldown = c, seen = (\<lambda>_. None)\<rparr>"

definition gcLocked :: "instant \<Rightarrow> Dedupe \<Rightarrow> Dedupe" where
  "gcLocked now d = d\<lparr>seen := (\<lambda>fp. case seen d fp of
     None \<Rightarrow> None
   | Some t \<Rightarrow> if cooldown d \<le> time_sub now t then None else Some t)\<rparr>"

text \<open>The same loop in some iteration order \<open>fps\<close> of the map's keys, deleting as it goes.\<close>

fun gc_range :: "instant \<Rightarrow> duration \<Rightarrow> string list \<Rightarrow> (string \<rightharpoonup> instant) \<Rightarrow> (string \<rightharpoonup> instant)" where
  "gc_range now c [] m = m"
| "gc_range now c (fp # fps) m = gc_range now c fps
     (case m fp of
        None \<Rightarrow> m
      | Some t \<Rightarrow> if c \<le> time_sub now t then m(fp := None) else m)"

definition Acquire :: "string \<Rightarrow> instant \<Rightarrow> Dedupe \<Rightarrow> bool \<times> Dedupe" where
  "Acquire fingerprint now d =
    (if fingerprint = '''' then (True, d)
     else if (case seen d fingerprint of
                Some t \<Rightarrow> time_sub now t < cooldown d
              | None \<Rightarrow> False) then (False, d)
     else (True, gcLocked now (d\<lparr>seen := (seen d)(fingerprint \<mapsto> now)\<rparr>)))"

text \<open>A sequence of calls, with the answer each got.\<close>

fun acquire_log :: "(string \<times> instant) list \<Rightarrow> Dedupe \<Rightarrow> (string \<times> instant \<times> bool) list \<times> Dedupe"
  where
  "acquire_log [] d = ([], d)"
| "acquire_log ((fp, now) # rs) d =
    (let (ok, d1) = Acquire fp now d; (es, d2) = acquire_log rs d1 in ((fp, now, ok) # es, d2))"

text \<open>A usable cooldown, as \<open>server.New\<close> guarantees: positive and within \<open>time.Duration\<close>.\<close>

definition cooldown_ok :: "Dedupe \<Rightarrow> bool" where
  "cooldown_ok d \<longleftrightarrow> 0 < cooldown d \<and> cooldown d \<le> max_duration"

section \<open>Lemmas\<close>

lemma cooldown_gcLocked [simp]: "cooldown (gcLocked now d) = cooldown d"
  by (simp add: gcLocked_def)

lemma cooldown_Acquire: "Acquire fp now d = (ok, d') \<Longrightarrow> cooldown d' = cooldown d"
  by (auto simp: Acquire_def split: if_splits)

lemma cooldown_ok_Acquire: "Acquire fp now d = (ok, d') \<Longrightarrow> cooldown_ok d \<Longrightarrow> cooldown_ok d'"
  by (simp add: cooldown_ok_def cooldown_Acquire)

lemma elapsed_iff: "cooldown_ok d \<Longrightarrow> time_sub now t < cooldown d \<longleftrightarrow> now - t < cooldown d"
  by (rule time_sub_less_iff) (auto simp: cooldown_ok_def min_duration_def)

lemma seen_gcLocked:
  "cooldown_ok d \<Longrightarrow> seen (gcLocked now d) fp = Some t \<longleftrightarrow>
     seen d fp = Some t \<and> now - t < cooldown d"
  using elapsed_iff [of d now t]
  by (auto simp: gcLocked_def not_le split: option.splits if_splits)

lemma Acquire_refused: "Acquire fp now d = (False, d') \<Longrightarrow> d' = d"
  by (auto simp: Acquire_def split: if_splits)

lemma Acquire_iff:
  assumes "cooldown_ok d" "fp \<noteq> ''''"
  shows "fst (Acquire fp now d) \<longleftrightarrow> \<not> (\<exists>t. seen d fp = Some t \<and> now - t < cooldown d)"
  using assms by (auto simp: Acquire_def elapsed_iff split: option.splits)

lemma seen_Acquire_granted:
  assumes "cooldown_ok d" "fp \<noteq> ''''" "Acquire fp now d = (True, d')"
  shows "seen d' fp' = Some t \<longleftrightarrow>
    (if fp' = fp then t = now else seen d fp' = Some t \<and> now - t < cooldown d)"
proof -
  have "d' = gcLocked now (d\<lparr>seen := (seen d)(fp \<mapsto> now)\<rparr>)"
    using assms(2,3) by (auto simp: Acquire_def split: if_splits)
  moreover have "cooldown_ok (d\<lparr>seen := (seen d)(fp \<mapsto> now)\<rparr>)"
    using assms(1) by (simp add: cooldown_ok_def)
  ultimately show ?thesis
    using assms(1) by (auto simp: seen_gcLocked cooldown_ok_def)
qed

lemma gc_range_other: "fp \<notin> set fps \<Longrightarrow> gc_range now c fps m fp = m fp"
  by (induction fps arbitrary: m) (auto split: option.splits)

lemma gc_range_in:
  "fp \<in> set fps \<Longrightarrow> gc_range now c fps m fp =
     (case m fp of None \<Rightarrow> None | Some t \<Rightarrow> if c \<le> time_sub now t then None else Some t)"
proof (induction fps arbitrary: m)
  case (Cons g fps)
  define m1 where "m1 = (case m g of None \<Rightarrow> m
      | Some t \<Rightarrow> if c \<le> time_sub now t then m(g := None) else m)"
  have m1: "m1 fp = m fp" if "fp \<noteq> g"
    using that by (auto simp: m1_def split: option.splits)
  have g: "m1 g = (case m g of None \<Rightarrow> None | Some t \<Rightarrow> if c \<le> time_sub now t then None else Some t)"
    by (auto simp: m1_def split: option.splits)
  have step: "gc_range now c (g # fps) m = gc_range now c fps m1"
    by (simp add: m1_def)
  show ?case
  proof (cases "fp \<in> set fps")
    case True
    with Cons.IH [of m1] m1 g show ?thesis
      unfolding step by (cases "fp = g") (simp_all split: option.splits)
  next
    case False
    with Cons.prems have "fp = g" by simp
    with False g show ?thesis unfolding step by (simp add: gc_range_other)
  qed
qed simp

section \<open>The gate the server relies on\<close>

locale alert_gate =
  fixes acquire :: "string \<Rightarrow> instant \<Rightarrow> 'g \<Rightarrow> bool \<times> 'g"
    and stamp :: "'g \<Rightarrow> string \<Rightarrow> instant option"
    and window :: "'g \<Rightarrow> duration"
    and ok :: "'g \<Rightarrow> bool"
  assumes unnamed: "acquire '''' now g = (True, g)"
    and decides: "ok g \<Longrightarrow> fp \<noteq> '''' \<Longrightarrow>
      fst (acquire fp now g) \<longleftrightarrow> \<not> (\<exists>t. stamp g fp = Some t \<and> now - t < window g)"
    and refused: "acquire fp now g = (False, g') \<Longrightarrow> g' = g"
    and granted: "ok g \<Longrightarrow> fp \<noteq> '''' \<Longrightarrow> acquire fp now g = (True, g') \<Longrightarrow>
      stamp g' fp' = Some t \<longleftrightarrow>
        (if fp' = fp then t = now else stamp g fp' = Some t \<and> now - t < window g)"
    and window_kept: "acquire fp now g = (b, g') \<Longrightarrow> window g' = window g"
    and ok_kept: "acquire fp now g = (b, g') \<Longrightarrow> ok g \<Longrightarrow> ok g'"
    and window_pos: "ok g \<Longrightarrow> 0 < window g"
begin

text \<open>A fingerprint granted at some instant is refused at every instant less than a window
  later, and whatever else is acquired at such an instant does not make it forgotten.\<close>

lemma refused_in_window:
  "ok g \<Longrightarrow> fp \<noteq> '''' \<Longrightarrow> stamp g fp = Some t \<Longrightarrow> now - t < window g \<Longrightarrow> \<not> fst (acquire fp now g)"
  using decides by blast

lemma stamp_survives:
  assumes "ok g" "stamp g fp = Some t" "now - t < window g" "acquire fp' now g = (b, g')"
  shows "\<exists>t'. stamp g' fp = Some t' \<and> (t' = t \<or> t' = now)"
proof (cases "b \<and> fp' \<noteq> ''''")
  case True
  then show ?thesis
    using granted [of g fp' now g' fp] assms by (cases "fp = fp'") auto
next
  case False
  then have "g' = g"
    using refused unnamed assms(4) by (cases b) fastforce+
  then show ?thesis using assms(2) by blast
qed

lemma granted_now:
  "ok g \<Longrightarrow> fp \<noteq> '''' \<Longrightarrow> acquire fp now g = (True, g') \<Longrightarrow> stamp g' fp = Some now"
  using granted [of g fp now g' fp now] by simp

end

interpretation dedupe_gate: alert_gate Acquire seen cooldown cooldown_ok
proof unfold_locales
  show "Acquire '''' now g = (True, g)" for now g
    by (simp add: Acquire_def)
qed (use Acquire_iff Acquire_refused seen_Acquire_granted cooldown_Acquire cooldown_ok_Acquire
     in \<open>auto simp: cooldown_ok_def\<close>)

section \<open>Sequences of calls\<close>

lemma acquire_log_append:
  "acquire_log (rs @ rs') d =
    (let (es, d1) = acquire_log rs d; (es', d2) = acquire_log rs' d1 in (es @ es', d2))"
  by (induction rs d rule: acquire_log.induct) (auto split: prod.splits)

lemma acquire_log_requests: "map (\<lambda>(fp, t, ok). (fp, t)) (fst (acquire_log rs d)) = rs"
  by (induction rs d rule: acquire_log.induct) (auto split: prod.splits)

lemma acquire_log_times: "(fp, t, ok) \<in> set (fst (acquire_log rs d)) \<Longrightarrow> (fp, t) \<in> set rs"
proof -
  assume "(fp, t, ok) \<in> set (fst (acquire_log rs d))"
  then have "(fp, t) \<in> set (map (\<lambda>(fp, t, ok). (fp, t)) (fst (acquire_log rs d)))"
    by force
  then show ?thesis by (simp add: acquire_log_requests)
qed

lemma acquire_log_cooldown:
  "acquire_log rs d = (es, d') \<Longrightarrow> cooldown d' = cooldown d \<and> (cooldown_ok d \<longrightarrow> cooldown_ok d')"
proof (induction rs d arbitrary: es rule: acquire_log.induct)
  case (2 g now rs d)
  obtain ok d1 where a: "Acquire g now d = (ok, d1)" by (cases "Acquire g now d")
  with "2.prems" have "acquire_log rs d1 = (tl es, d')" by (auto split: prod.splits)
  with "2.IH" [OF a [symmetric] refl] show ?case
    using cooldown_Acquire [OF a] cooldown_ok_Acquire [OF a] by simp
qed simp

lemma acquire_log_split:
  "acquire_log rs d = (es1 @ (fp, t, ok) # es2, d') \<Longrightarrow>
   \<exists>rs1 rs2 dm d1. rs = rs1 @ (fp, t) # rs2 \<and> acquire_log rs1 d = (es1, dm)
     \<and> Acquire fp t dm = (ok, d1) \<and> acquire_log rs2 d1 = (es2, d')"
proof (induction rs d arbitrary: es1 rule: acquire_log.induct)
  case (2 g u rs d)
  obtain b d1 where a: "Acquire g u d = (b, d1)" by (cases "Acquire g u d")
  obtain es d2 where l: "acquire_log rs d1 = (es, d2)" by (cases "acquire_log rs d1")
  show ?case
  proof (cases es1)
    case Nil
    with "2.prems" a l have "(g, u) # rs = [] @ (fp, t) # rs \<and> acquire_log [] d = (es1, d)
        \<and> Acquire fp t d = (ok, d1) \<and> acquire_log rs d1 = (es2, d')" by auto
    then show ?thesis by blast
  next
    case (Cons e es1')
    with "2.prems" a l have "acquire_log rs d1 = (es1' @ (fp, t, ok) # es2, d')"
      and e: "e = (g, u, b)" by auto
    from "2.IH" [OF a [symmetric] refl this(1)] obtain rs1 rs2 dm d3 where
      "rs = rs1 @ (fp, t) # rs2 \<and> acquire_log rs1 d1 = (es1', dm)
        \<and> Acquire fp t dm = (ok, d3) \<and> acquire_log rs2 d3 = (es2, d')" by blast
    with a e Cons have "(g, u) # rs = ((g, u) # rs1) @ (fp, t) # rs2
        \<and> acquire_log ((g, u) # rs1) d = (es1, dm)
        \<and> Acquire fp t dm = (ok, d3) \<and> acquire_log rs2 d3 = (es2, d')" by simp
    then show ?thesis by blast
  qed
qed simp

text \<open>Calls arrive in clock order up to a skew of \<open>\<delta>\<close>: each request reads the clock once,
  before it waits for the mutex.\<close>

definition skew_bounded :: "duration \<Rightarrow> (string \<times> instant) list \<Rightarrow> bool" where
  "skew_bounded \<delta> rs \<longleftrightarrow> sorted_wrt (\<lambda>r r'. snd r \<le> snd r' + \<delta>) rs"

lemma later_grant:
  assumes "cooldown_ok d" "fp \<noteq> ''''" "0 \<le> \<delta>" "\<delta> \<le> cooldown d" "skew_bounded \<delta> rs"
    and "seen d fp = Some t \<or> (\<forall>r \<in> set rs. t + cooldown d - \<delta> \<le> snd r)"
    and "(fp, u, True) \<in> set (fst (acquire_log rs d))"
  shows "t + cooldown d - \<delta> \<le> u"
  using assms
proof (induction rs d arbitrary: t rule: acquire_log.induct)
  case (2 g now rs d)
  obtain ok d1 where a: "Acquire g now d = (ok, d1)" by (cases "Acquire g now d")
  have cd: "cooldown d1 = cooldown d" "cooldown_ok d1"
    using a "2.prems"(1) cooldown_Acquire cooldown_ok_Acquire by auto
  have sk: "skew_bounded \<delta> rs" "\<And>r. r \<in> set rs \<Longrightarrow> now \<le> snd r + \<delta>"
    using "2.prems"(5) by (auto simp: skew_bounded_def)
  note IH = "2.IH" [OF a [symmetric] refl cd(2) "2.prems"(2,3) _ sk(1), unfolded cd(1)]
  have mem: "(fp, u) \<in> set ((g, now) # rs)"
    using acquire_log_times [OF "2.prems"(7)] .
  consider "\<forall>r \<in> set ((g, now) # rs). t + cooldown d - \<delta> \<le> snd r"
    | "seen d fp = Some t" "ok" "g = fp" | "seen d fp = Some t" "ok" "g \<noteq> fp" "g \<noteq> ''''"
    | "seen d fp = Some t" "\<not> ok \<or> g = ''''"
    using "2.prems"(6) by auto
  then show ?case
  proof cases
    case 1
    with mem show ?thesis by fastforce
  next
    case 2
    then have now: "t + cooldown d \<le> now"
      using Acquire_iff [OF "2.prems"(1,2), of now] a by auto
    have s1: "seen d1 fp = Some now"
      using seen_Acquire_granted [OF "2.prems"(1,2)] a 2 by simp
    show ?thesis
    proof (cases "(fp, u, True) \<in> set (fst (acquire_log rs d1))")
      case True
      with IH [of now] s1 "2.prems"(4) have "now + cooldown d - \<delta> \<le> u" by simp
      then show ?thesis using now "2.prems"(1,3) by (simp add: cooldown_ok_def)
    next
      case False
      with "2.prems"(7) a 2 have "u = now" by (auto split: prod.splits)
      then show ?thesis using now "2.prems"(3) by simp
    qed
  next
    case 3
    then have "seen d1 fp = Some t \<or> t + cooldown d \<le> now"
      using seen_Acquire_granted [OF "2.prems"(1) 3(4), of now d1 fp t] a by auto
    then have "seen d1 fp = Some t \<or> (\<forall>r \<in> set rs. t + cooldown d - \<delta> \<le> snd r)"
      using sk(2) by force
    with IH [of t] "2.prems"(4,7) a 3 show ?thesis by (auto split: prod.splits)
  next
    case 4
    then have "d1 = d" "\<not> (ok \<and> g = fp)"
      using a "2.prems"(2) by (auto simp: Acquire_def split: if_splits)
    with IH [of t] "2.prems"(4,7) a 4 show ?thesis by (auto split: prod.splits)
  qed
qed simp

lemma seen_logged:
  assumes "cooldown_ok d" "\<And>fp. seen d fp = None" "acquire_log rs d = (es, d')"
    "seen d' fp = Some t"
  shows "(fp, t, True) \<in> set es \<and> fp \<noteq> ''''"
proof -
  have "acquire_log rs d = (es, d') \<Longrightarrow> seen d' fp = Some t \<Longrightarrow> (fp, t, True) \<in> set es \<and> fp \<noteq> ''''"
    for d' es
  proof (induction rs arbitrary: d' es rule: rev_induct)
    case Nil
    then show ?case using assms(2) by simp
  next
    case (snoc r rs)
    obtain g now where r: "r = (g, now)" by (cases r)
    obtain es1 d1 where l: "acquire_log rs d = (es1, d1)" by (cases "acquire_log rs d")
    obtain ok d2 where a: "Acquire g now d1 = (ok, d2)" by (cases "Acquire g now d1")
    have d': "d' = d2" "es = es1 @ [(g, now, ok)]"
      using snoc.prems(1) l a by (auto simp: acquire_log_append r)
    have ok1: "cooldown_ok d1" using acquire_log_cooldown [OF l] assms(1) by simp
    show ?case
    proof (cases "ok \<and> g \<noteq> ''''")
      case True
      then show ?thesis
        using seen_Acquire_granted [OF ok1, of g now d2 fp t] a snoc.prems(2) snoc.IH [OF l] d'
        by (auto split: if_splits)
    next
      case False
      then have "d2 = d1"
        using a by (auto simp: Acquire_def split: if_splits)
      then show ?thesis using snoc.IH [OF l] snoc.prems(2) d' by auto
    qed
  qed
  then show ?thesis using assms(3,4) .
qed

lemma seen_NewDedupe [simp]: "seen (NewDedupe c) fp = None" "cooldown (NewDedupe c) = c"
  by (simp_all add: NewDedupe_def)

lemma granted_apart:
  assumes "cooldown_ok d" "fp \<noteq> ''''" "0 \<le> \<delta>" "\<delta> \<le> cooldown d" "skew_bounded \<delta> rs"
    and "fst (acquire_log rs d) = es1 @ (fp, t, True) # es2"
    and "(fp, u, True) \<in> set es2"
  shows "cooldown d - \<delta> \<le> u - t"
proof -
  from assms(6) obtain d' where "acquire_log rs d = (es1 @ (fp, t, True) # es2, d')"
    by (metis prod.collapse)
  from acquire_log_split [OF this] obtain rs1 rs2 dm d1 where
    rs: "rs = rs1 @ (fp, t) # rs2" and l1: "acquire_log rs1 d = (es1, dm)"
    and a: "Acquire fp t dm = (True, d1)" and l2: "acquire_log rs2 d1 = (es2, d')"
    by blast
  have dm: "cooldown dm = cooldown d" "cooldown_ok dm"
    using acquire_log_cooldown [OF l1] assms(1) by simp_all
  then have d1: "cooldown d1 = cooldown d" "cooldown_ok d1" "seen d1 fp = Some t"
    using cooldown_Acquire [OF a] cooldown_ok_Acquire [OF a] dedupe_gate.granted_now [OF _ assms(2) a]
    by simp_all
  have "skew_bounded \<delta> rs2"
    using assms(5) by (simp add: rs skew_bounded_def sorted_wrt_append)
  from later_grant [OF d1(2) assms(2,3) _ this, of t u] d1 l2 assms(4,7)
  show ?thesis by simp
qed

section \<open>Properties\<close>

text \<open>
  C3: two grants of the same fingerprint are a cooldown apart. From any state of the gate
  with a usable cooldown, in any sequence of calls whose clock readings are in order up to a
  skew \<open>\<delta>\<close> (requests read the clock before they wait for the mutex), if one call for a
  fingerprint is granted at \<open>t\<close> and a later one at \<open>u\<close>, then \<open>u - t\<close> is at least the cooldown
  less the skew.
\<close>

theorem Acquire_spacing:
  assumes "cooldown_ok d" "fp \<noteq> ''''" "0 \<le> \<delta>" "\<delta> \<le> cooldown d" "skew_bounded \<delta> rs"
    and "fst (acquire_log rs d) = es1 @ (fp, t, True) # es2"
    and "(fp, u, True) \<in> set es2"
  shows "cooldown d - \<delta> \<le> u - t"
  using assms by (rule granted_apart)

theorem Acquire_spacing_witness:
  "(10::int) - 0 \<le> 20 - 5 \<and>
   fst (acquire_log [(''fp'', 5), (''fp'', 9), (''fp'', 20)] (NewDedupe 10)) =
     [(''fp'', 5, True), (''fp'', 9, False), (''fp'', 20, True)]"
proof -
  have log: "fst (acquire_log [(''fp'', 5), (''fp'', 9), (''fp'', 20)] (NewDedupe 10)) =
      [] @ (''fp'', 5, True) # [(''fp'', 9, False), (''fp'', 20, True)]"
    by (simp add: Acquire_def gcLocked_def NewDedupe_def time_sub_def min_duration_def
        max_duration_def)
  have "cooldown (NewDedupe 10) - 0 \<le> (20::int) - 5"
    by (rule Acquire_spacing [OF _ _ _ _ _ log])
      (simp_all add: cooldown_ok_def max_duration_def skew_bounded_def)
  with log show ?thesis by simp
qed

text \<open>
  The gate answers from the record of grants alone. After any sequence of calls on a
  fresh gate, a named fingerprint is refused exactly when the state still holds a stamp of it
  younger than the cooldown, such a stamp is always a grant of the sequence, and so a
  fingerprint whose grants all lie a cooldown back is granted again.
\<close>

theorem Acquire_regrants:
  assumes "cooldown_ok (NewDedupe c)" "fp \<noteq> ''''"
    and "acquire_log rs (NewDedupe c) = (es, d)"
    and "\<And>t. (fp, t, True) \<in> set es \<Longrightarrow> c \<le> now - t"
  shows "\<exists>d'. Acquire fp now d = (True, d') \<and> seen d' fp = Some now"
proof -
  have d: "cooldown_ok d" "cooldown d = c"
    using acquire_log_cooldown [OF assms(3)] assms(1) by simp_all
  have "\<not> (\<exists>t. seen d fp = Some t \<and> now - t < c)"
    using seen_logged [OF assms(1) _ assms(3)] assms(4) by fastforce
  then have "fst (Acquire fp now d)"
    using Acquire_iff [OF d(1) assms(2)] d(2) by simp
  then obtain d' where "Acquire fp now d = (True, d')"
    by (metis prod.collapse)
  then show ?thesis
    using dedupe_gate.granted_now [OF d(1) assms(2)] by blast
qed

theorem Acquire_regrants_witness:
  "\<exists>d'. Acquire ''fp'' 15 (snd (acquire_log [(''fp'', 5), (''fq'', 9)] (NewDedupe 10))) = (True, d')
      \<and> seen d' ''fp'' = Some 15"
proof -
  have log: "acquire_log [(''fp'', 5), (''fq'', 9)] (NewDedupe 10) =
      ([(''fp'', 5, True), (''fq'', 9, True)],
       snd (acquire_log [(''fp'', 5), (''fq'', 9)] (NewDedupe 10)))"
    by (simp add: Acquire_def gcLocked_def NewDedupe_def time_sub_def min_duration_def
        max_duration_def)
  show ?thesis
    by (rule Acquire_regrants [OF _ _ log]) (auto simp: cooldown_ok_def max_duration_def)
qed

text \<open>
  C36: the stamp map does not grow without bound. Right after a named fingerprint is granted,
  every stamp the gate holds is a grant less than a cooldown old, so there are at most as many
  stamps as grants within the last cooldown.
\<close>

theorem Acquire_collects:
  assumes "cooldown_ok (NewDedupe c)" "acquire_log rs (NewDedupe c) = (es, d)"
    and "fp \<noteq> ''''" "Acquire fp now d = (True, d')"
  shows "dom (seen d') \<subseteq> insert fp {g. \<exists>t. (g, t, True) \<in> set es \<and> now - t < c}
    \<and> card (dom (seen d')) \<le> Suc (length (filter (\<lambda>(g, t, ok). ok \<and> now - t < c) es))"
proof -
  have d: "cooldown_ok d" "cooldown d = c"
    using acquire_log_cooldown [OF assms(2)] assms(1) by simp_all
  have sub: "dom (seen d') \<subseteq> insert fp {g. \<exists>t. (g, t, True) \<in> set es \<and> now - t < c}"
  proof
    fix g
    assume "g \<in> dom (seen d')"
    then obtain t where "seen d' g = Some t" by blast
    then have "g = fp \<or> seen d g = Some t \<and> now - t < c"
      using seen_Acquire_granted [OF d(1) assms(3,4), of g t] d(2) by (auto split: if_splits)
    then show "g \<in> insert fp {g. \<exists>t. (g, t, True) \<in> set es \<and> now - t < c}"
      using seen_logged [OF assms(1) _ assms(2), of g t] by auto
  qed
  also have "\<dots> = insert fp (fst ` set (filter (\<lambda>(g, t, ok). ok \<and> now - t < c) es))"
    by (auto simp: image_iff intro!: bexI)
  finally have "card (dom (seen d')) \<le>
      card (insert fp (fst ` set (filter (\<lambda>(g, t, ok). ok \<and> now - t < c) es)))"
    by (intro card_mono) auto
  also have "\<dots> \<le> Suc (card (fst ` set (filter (\<lambda>(g, t, ok). ok \<and> now - t < c) es)))"
    by (simp add: card_insert_if)
  also have "card (fst ` set (filter (\<lambda>(g, t, ok). ok \<and> now - t < c) es)) \<le>
      length (filter (\<lambda>(g, t, ok). ok \<and> now - t < c) es)"
    using card_image_le card_length le_trans by blast
  finally show ?thesis using sub by simp
qed

theorem Acquire_collects_witness:
  "card (dom (seen (snd (Acquire ''fr'' 16
      (snd (acquire_log [(''fp'', 5), (''fq'', 9)] (NewDedupe 10))))))) \<le> 2"
proof -
  let ?d = "snd (acquire_log [(''fp'', 5), (''fq'', 9)] (NewDedupe 10))"
  have log: "acquire_log [(''fp'', 5), (''fq'', 9)] (NewDedupe 10) =
      ([(''fp'', 5, True), (''fq'', 9, True)], ?d)"
    and acq: "Acquire ''fr'' 16 ?d = (True, snd (Acquire ''fr'' 16 ?d))"
    by (simp_all add: Acquire_def gcLocked_def NewDedupe_def time_sub_def min_duration_def
        max_duration_def)
  from Acquire_collects [OF _ log _ acq] show ?thesis
    by (simp add: cooldown_ok_def max_duration_def)
qed

text \<open>
  The garbage collection does not depend on the order in which Go's runtime iterates
  over the map: looping over the keys in any order, deleting on the way, leaves exactly the
  stamps younger than the cooldown.
\<close>

theorem gcLocked_any_order:
  assumes "set fps = dom (seen d)"
  shows "gc_range now (cooldown d) fps (seen d) = seen (gcLocked now d)"
proof
  fix fp
  show "gc_range now (cooldown d) fps (seen d) fp = seen (gcLocked now d) fp"
    using assms by (cases "fp \<in> set fps")
      (auto simp: gc_range_in gc_range_other gcLocked_def split: option.splits)
qed

theorem gcLocked_any_order_witness:
  "gc_range 20 10 [''b'', ''a''] [''a'' \<mapsto> 5, ''b'' \<mapsto> 15] =
     seen (gcLocked 20 \<lparr>cooldown = 10, seen = [''a'' \<mapsto> 5, ''b'' \<mapsto> 15]\<rparr>)"
  using gcLocked_any_order [of "[''b'', ''a'']"
      "\<lparr>cooldown = 10, seen = [''a'' \<mapsto> 5, ''b'' \<mapsto> 15]\<rparr>" 20]
  by auto

end
