(* ===== verification/Dedupe_Reference.thy ===== *)
theory Dedupe_Reference
  imports Dedupe
begin

text \<open>
  A reference gate for \<open>operator/internal/server/dedupe.go\<close>: it keeps every call it ever
  answered and never collects anything, and grants a fingerprint when no earlier grant of it is
  younger than the cooldown. The gate of the code keeps one stamp per fingerprint and deletes
  expired stamps on the way. The lemmas relate the two states call by call, and show that the
  answers are the same as long as the clock readings do not go back.
\<close>

section \<open>The reference gate\<close>

definition ref_grants :: "duration \<Rightarrow> (string \<times> instant \<times> bool) list \<Rightarrow> string \<Rightarrow> instant \<Rightarrow> bool" where
  "ref_grants c history fp now \<longleftrightarrow>
    fp = '''' \<or> list_all (\<lambda>(g, t, ok). g = fp \<and> ok \<longrightarrow> c \<le> now - t) history"

fun ref_log :: "duration \<Rightarrow> (string \<times> instant \<times> bool) list \<Rightarrow> (string \<times> instant) list \<Rightarrow>
    (string \<times> instant \<times> bool) list" where
  "ref_log c history [] = []"
| "ref_log c history ((fp, now) # rs) =
    (let e = (fp, now, ref_grants c history fp now) in e # ref_log c (e # history) rs)"

lemma ref_grants_iff:
  "fp \<noteq> '''' \<Longrightarrow> ref_grants c history fp now \<longleftrightarrow> (\<forall>t. (fp, t, True) \<in> set history \<longrightarrow> c \<le> now - t)"
  by (auto simp: ref_grants_def list_all_iff)

section \<open>The relation between the two states\<close>

text \<open>
  Every stamp is a grant of the history; a grant of the history is either covered by a stamp at
  least as recent, or expired at the last clock reading \<open>low\<close>.
\<close>

definition collected :: "instant \<Rightarrow> (string \<times> instant \<times> bool) list \<Rightarrow> Dedupe \<Rightarrow> bool" where
  "collected low history d \<longleftrightarrow>
    (\<forall>fp t. seen d fp = Some t \<longrightarrow> (fp, t, True) \<in> set history)
    \<and> (\<forall>fp t. fp \<noteq> '''' \<and> (fp, t, True) \<in> set history \<longrightarrow>
         t + cooldown d \<le> low \<or> (\<exists>t' \<ge> t. seen d fp = Some t'))"

lemma collectedD:
  assumes "collected low history d"
  shows "seen d fp = Some t \<Longrightarrow> (fp, t, True) \<in> set history"
    and "fp \<noteq> '''' \<Longrightarrow> (fp, t, True) \<in> set history \<Longrightarrow>
      t + cooldown d \<le> low \<or> (\<exists>t' \<ge> t. seen d fp = Some t')"
  using assms by (auto simp: collected_def)

lemma collected_answer:
  assumes "cooldown_ok d" "collected low history d" "low \<le> now"
  shows "fst (Acquire fp now d) = ref_grants (cooldown d) history fp now"
proof (cases "fp = ''''")
  case True
  then show ?thesis by (simp add: dedupe_gate.unnamed ref_grants_def)
next
  case False
  have "(\<exists>t. seen d fp = Some t \<and> now - t < cooldown d) \<longleftrightarrow>
      (\<exists>t. (fp, t, True) \<in> set history \<and> now - t < cooldown d)" (is "?S \<longleftrightarrow> ?H")
  proof
    show "?S \<Longrightarrow> ?H" using collectedD(1) [OF assms(2)] by blast
  next
    assume ?H
    then obtain t where t: "(fp, t, True) \<in> set history" "now - t < cooldown d" by blast
    then obtain t' where "t' \<ge> t" "seen d fp = Some t'"
      using collectedD(2) [OF assms(2) False t(1)] assms(3) by auto
    then show ?S using t(2) by auto
  qed
  then show ?thesis
    using False by (auto simp: Acquire_iff [OF assms(1)] ref_grants_iff not_less)
qed

lemma collected_granted:
  assumes "cooldown_ok d" "collected low history d" "low \<le> now" "fp \<noteq> ''''"
    and "Acquire fp now d = (True, d')"
  shows "collected now ((fp, now, True) # history) d'"
proof -
  have c: "cooldown d' = cooldown d" using cooldown_Acquire [OF assms(5)] .
  note s = seen_Acquire_granted [OF assms(1,4,5)]
  have old: "t + cooldown d \<le> now" if "(fp, t, True) \<in> set history" for t
    using collected_answer [OF assms(1,2,3), of fp] assms(5) that
    by (auto simp: ref_grants_iff [OF assms(4)])
  have other: "t + cooldown d \<le> now \<or> (\<exists>t' \<ge> t. seen d' g = Some t')"
    if "g \<noteq> fp" "g \<noteq> ''''" "(g, t, True) \<in> set history" for g t
    using collectedD(2) [OF assms(2) that(2,3)] assms(3) s [of g] that(1) by fastforce
  have "t + cooldown d \<le> now \<or> (\<exists>t' \<ge> t. seen d' g = Some t')"
    if "g \<noteq> ''''" "(g, t, True) \<in> set ((fp, now, True) # history)" for g t
  proof (cases "g = fp")
    case True
    then show ?thesis using that(2) old s [of fp now] by auto
  next
    case False
    then show ?thesis using that other by auto
  qed
  moreover have "(g, t, True) \<in> set ((fp, now, True) # history)" if "seen d' g = Some t" for g t
    using that s [of g t] collectedD(1) [OF assms(2), of g t] by (auto split: if_splits)
  ultimately show ?thesis unfolding collected_def c by blast
qed

lemma collected_kept:
  assumes "collected low history d" "low \<le> now" "\<not> ok \<or> fp = ''''"
  shows "collected now ((fp, now, ok) # history) d"
proof -
  have "t + cooldown d \<le> now \<or> (\<exists>t' \<ge> t. seen d g = Some t')"
    if "g \<noteq> ''''" "(g, t, True) \<in> set ((fp, now, ok) # history)" for g t
  proof -
    from that assms(3) have "(g, t, True) \<in> set history" by auto
    from collectedD(2) [OF assms(1) that(1) this] assms(2) show ?thesis by auto
  qed
  moreover have "(g, t, True) \<in> set ((fp, now, ok) # history)" if "seen d g = Some t" for g t
    using collectedD(1) [OF assms(1) that] by simp
  ultimately show ?thesis unfolding collected_def by blast
qed

lemma collected_Acquire:
  assumes "cooldown_ok d" "collected low history d" "low \<le> now" "Acquire fp now d = (ok, d')"
  shows "collected now ((fp, now, ok) # history) d'"
proof (cases "ok \<and> fp \<noteq> ''''")
  case True
  then show ?thesis using collected_granted [OF assms(1,2,3)] assms(4) by simp
next
  case False
  then have "d' = d"
    using assms(4) Acquire_refused [of fp now d d'] dedupe_gate.unnamed by (cases ok) auto
  then show ?thesis using collected_kept [OF assms(2,3)] False by blast
qed

lemma acquire_log_reference:
  assumes "cooldown_ok d" "collected low history d" "sorted (low # map snd rs)"
  shows "fst (acquire_log rs d) = ref_log (cooldown d) history rs"
  using assms
proof (induction rs arbitrary: d low history)
  case (Cons r rs)
  obtain fp now where r: "r = (fp, now)" by (cases r)
  obtain ok d1 where a: "Acquire fp now d = (ok, d1)" by (cases "Acquire fp now d")
  have low: "low \<le> now" "sorted (now # map snd rs)" using Cons.prems(3) r by auto
  have "ok = ref_grants (cooldown d) history fp now"
    using collected_answer [OF Cons.prems(1,2) low(1), of fp] a by simp
  then show ?case
    using Cons.IH [OF cooldown_ok_Acquire [OF a Cons.prems(1)]
        collected_Acquire [OF Cons.prems(1,2) low(1) a] low(2)] cooldown_Acquire [OF a] a
    by (simp add: r Let_def case_prod_unfold)
qed simp

section \<open>Properties\<close>

text \<open>
  C26: collecting expired stamps is invisible. On a new gate with a usable cooldown, a
  sequence of calls whose clock readings never go back gets exactly the answers of the reference
  gate, which keeps every grant for ever: a call is granted when its fingerprint is empty or
  every earlier grant of it lies at least a cooldown back.
\<close>

theorem Acquire_reference:
  assumes "cooldown_ok (NewDedupe c)" "sorted (map snd rs)"
  shows "fst (acquire_log rs (NewDedupe c)) = ref_log c [] rs"
proof (cases rs)
  case (Cons r rs')
  have "collected (snd r) [] (NewDedupe c)" by (simp add: collected_def)
  from acquire_log_reference [OF assms(1) this, of rs] assms(2) Cons show ?thesis by simp
qed simp

theorem Acquire_reference_witness:
  "fst (acquire_log [(''fp'', 5), (''fq'', 9), (''fp'', 14), (''fq'', 30), (''fp'', 30)] (NewDedupe 10)) =
     [(''fp'', 5, True), (''fq'', 9, True), (''fp'', 14, False), (''fq'', 30, True), (''fp'', 30, True)]"
  by (subst Acquire_reference)
    (simp_all add: cooldown_ok_def max_duration_def ref_grants_def)

text \<open>
  With clock readings that do go back it is visible. A request that read the clock
  earlier than another but reached the gate later can be granted a fingerprint inside its
  cooldown, because the other's grant collected the stamp.
\<close>

theorem Acquire_reference_skew:
  "fst (acquire_log [(''fp'', 5), (''fq'', 15), (''fp'', 14)] (NewDedupe 10)) =
     [(''fp'', 5, True), (''fq'', 15, True), (''fp'', 14, True)]
   \<and> ref_log 10 [] [(''fp'', 5), (''fq'', 15), (''fp'', 14)] =
     [(''fp'', 5, True), (''fq'', 15, True), (''fp'', 14, False)]"
  by (simp add: Acquire_def gcLocked_def NewDedupe_def time_sub_def min_duration_def
      max_duration_def ref_grants_def)

end
