(* ===== verification/Go_Strings.thy ===== *)
theory Go_Strings
  imports Lab_Prelude
begin

text \<open>
  The parts of Go's \<open>strings\<close>, \<open>strconv\<close>, \<open>unicode/utf8\<close> and \<open>fmt\<close> packages the program
  uses. A Go string is a sequence of bytes, modelled as a \<^typ>\<open>string\<close> whose characters
  are bytes. The only part of the Unicode tables that matters, which code points beyond
  U+00FF are printable, is an argument (\<open>wide\<close>) of the functions that need it.
\<close>

section \<open>UTF-8\<close>

abbreviation byte :: "char \<Rightarrow> nat" where "byte c \<equiv> of_char c"

definition RuneError :: nat where
  "RuneError = 0xFFFD"

definition cont_byte :: "char \<Rightarrow> bool" where
  "cont_byte c \<longleftrightarrow> 0x80 \<le> byte c \<and> byte c \<le> 0xBF"

text \<open>Range of the second byte of a multi-byte sequence, given the first.\<close>

definition second_ok :: "nat \<Rightarrow> char \<Rightarrow> bool" where
  "second_ok b c \<longleftrightarrow>
     (if b = 0xE0 then 0xA0 \<le> byte c \<and> byte c \<le> 0xBF
      else if b = 0xED then 0x80 \<le> byte c \<and> byte c \<le> 0x9F
      else if b = 0xF0 then 0x90 \<le> byte c \<and> byte c \<le> 0xBF
      else if b = 0xF4 then 0x80 \<le> byte c \<and> byte c \<le> 0x8F
      else cont_byte c)"

text \<open>\<open>utf8.DecodeRune\<close>: the first code point and its width; an invalid sequence is
  \<open>RuneError\<close> with width 1, the empty string \<open>RuneError\<close> with width 0.\<close>

definition DecodeRune :: "string \<Rightarrow> nat \<times> nat" where
  "DecodeRune s = (case s of
     [] \<Rightarrow> (RuneError, 0)
   | c0 # t \<Rightarrow>
      (let b = byte c0 in
       if b < 0x80 then (b, 1)
       else if 0xC2 \<le> b \<and> b \<le> 0xDF then
         (case t of
            c1 # _ \<Rightarrow> if cont_byte c1 then ((b - 0xC0) * 64 + (byte c1 - 0x80), 2)
                      else (RuneError, 1)
          | _ \<Rightarrow> (RuneError, 1))
       else if 0xE0 \<le> b \<and> b \<le> 0xEF then
         (case t of
            c1 # c2 # _ \<Rightarrow>
              if second_ok b c1 \<and> cont_byte c2
              then ((b - 0xE0) * 4096 + (byte c1 - 0x80) * 64 + (byte c2 - 0x80), 3)
              else (RuneError, 1)
          | _ \<Rightarrow> (RuneError, 1))
       else if 0xF0 \<le> b \<and> b \<le> 0xF4 then
         (case t of
            c1 # c2 # c3 # _ \<Rightarrow>
              if second_ok b c1 \<and> cont_byte c2 \<and> cont_byte c3
              then ((b - 0xF0) * 262144 + (byte c1 - 0x80) * 4096
                    + (byte c2 - 0x80) * 64 + (byte c3 - 0x80), 4)
              else (RuneError, 1)
          | _ \<Rightarrow> (RuneError, 1))
       else (RuneError, 1)))"

text \<open>\<open>utf8.AppendRune\<close> on the empty slice: surrogates and out-of-range values encode
  \<open>RuneError\<close>.\<close>

definition EncodeRune :: "nat \<Rightarrow> string" where
  "EncodeRune r =
    (if r < 0x80 then [char_of r]
     else if r < 0x800 then [char_of (0xC0 + r div 64), char_of (0x80 + r mod 64)]
     else if 0x110000 \<le> r \<or> 0xD800 \<le> r \<and> r \<le> 0xDFFF
       then [char_of (0xEF::nat), char_of (0xBF::nat), char_of (0xBD::nat)]
     else if r < 0x10000
       then [char_of (0xE0 + r div 4096), char_of (0x80 + r div 64 mod 64),
             char_of (0x80 + r mod 64)]
     else [char_of (0xF0 + r div 262144), char_of (0x80 + r div 4096 mod 64),
           char_of (0x80 + r div 64 mod 64), char_of (0x80 + r mod 64)])"

lemma DecodeRune_width: "s \<noteq> [] \<Longrightarrow> 1 \<le> snd (DecodeRune s) \<and> snd (DecodeRune s) \<le> length s"
  by (auto simp: DecodeRune_def Let_def split: list.splits)

section \<open>Quoting: the verb \<open>%q\<close>\<close>

definition hex_digit :: "nat \<Rightarrow> char" where
  "hex_digit n = (if n < 10 then char_of (48 + n) else char_of (87 + n))"

fun hex_pad :: "nat \<Rightarrow> nat \<Rightarrow> string" where
  "hex_pad 0 n = []"
| "hex_pad (Suc w) n = hex_pad w (n div 16) @ [hex_digit (n mod 16)]"

text \<open>\<open>strconv.IsPrint\<close>.\<close>

definition IsPrint :: "(nat \<Rightarrow> bool) \<Rightarrow> nat \<Rightarrow> bool" where
  "IsPrint wide r =
    (if r \<le> 0xFF then 0x20 \<le> r \<and> r < 0x7F \<or> 0xA1 \<le> r \<and> r \<noteq> 0xAD else wide r)"

definition escape_rune :: "(nat \<Rightarrow> bool) \<Rightarrow> nat \<Rightarrow> string" where
  "escape_rune wide r =
    (if r = 0x22 \<or> r = 0x5C then [CHR 0x5C, char_of r]
     else if IsPrint wide r then EncodeRune r
     else if r = 7 then CHR 0x5C # ''a''
     else if r = 8 then CHR 0x5C # ''b''
     else if r = 12 then CHR 0x5C # ''f''
     else if r = 10 then CHR 0x5C # ''n''
     else if r = 13 then CHR 0x5C # ''r''
     else if r = 9 then CHR 0x5C # ''t''
     else if r = 11 then CHR 0x5C # ''v''
     else if r < 0x20 \<or> r = 0x7F then CHR 0x5C # CHR ''x'' # hex_pad 2 r
     else if r < 0x10000 then CHR 0x5C # CHR ''u'' # hex_pad 4 r
     else CHR 0x5C # CHR ''U'' # hex_pad 8 r)"

function quote_body :: "(nat \<Rightarrow> bool) \<Rightarrow> string \<Rightarrow> string" where
  "quote_body wide [] = []"
| "quote_body wide (c # cs) =
    (let (r, w) = DecodeRune (c # cs) in
     if w \<le> 1 \<and> r = RuneError
     then CHR 0x5C # CHR ''x'' # hex_pad 2 (byte c) @ quote_body wide cs
     else escape_rune wide r @ quote_body wide (drop (w - 1) cs))"
  by pat_completeness auto
termination
  by (relation "measure (\<lambda>(wide, s). length s)") auto

definition quote :: "(nat \<Rightarrow> bool) \<Rightarrow> string \<Rightarrow> string" where
  "quote wide s = CHR 0x22 # quote_body wide s @ [CHR 0x22]"

text \<open>A string of plain ASCII, the case of every label the repository's alert rules set,
  is quoted as itself.\<close>

definition plain_char :: "char \<Rightarrow> bool" where
  "plain_char c \<longleftrightarrow> 0x20 \<le> byte c \<and> byte c < 0x7F \<and> byte c \<noteq> 0x22 \<and> byte c \<noteq> 0x5C"

lemma DecodeRune_ascii [simp]: "byte c < 0x80 \<Longrightarrow> DecodeRune (c # cs) = (byte c, 1)"
  by (simp add: DecodeRune_def)

lemma quote_plain:
  assumes "\<forall>c \<in> set s. plain_char c"
  shows "quote wide s = CHR 0x22 # s @ [CHR 0x22]"
proof -
  have "quote_body wide s = s"
    using assms
  proof (induction s)
    case (Cons c s)
    then have c: "plain_char c" and IH: "quote_body wide s = s" by auto
    from c have "escape_rune wide (byte c) = [c]"
      by (simp add: plain_char_def escape_rune_def IsPrint_def EncodeRune_def)
    moreover from c have "DecodeRune (c # s) = (byte c, 1)" "byte c \<noteq> RuneError"
      by (simp_all add: plain_char_def RuneError_def)
    ultimately show ?case
      using IH by simp
  qed simp
  then show ?thesis by (simp add: quote_def)
qed

section \<open>Trimming and case folding\<close>

text \<open>The UTF-8 encodings of the white-space code points (\<open>unicode.IsSpace\<close>).\<close>

definition space_seqs :: "nat list list" where
  "space_seqs =
    [[9], [10], [11], [12], [13], [32], [0xC2, 0x85], [0xC2, 0xA0], [0xE1, 0x9A, 0x80],
     [0xE2, 0x80, 0x80], [0xE2, 0x80, 0x81], [0xE2, 0x80, 0x82], [0xE2, 0x80, 0x83],
     [0xE2, 0x80, 0x84], [0xE2, 0x80, 0x85], [0xE2, 0x80, 0x86], [0xE2, 0x80, 0x87],
     [0xE2, 0x80, 0x88], [0xE2, 0x80, 0x89], [0xE2, 0x80, 0x8A], [0xE2, 0x80, 0xA8],
     [0xE2, 0x80, 0xA9], [0xE2, 0x80, 0xAF], [0xE2, 0x81, 0x9F], [0xE3, 0x80, 0x80]]"

definition strip_one :: "nat list list \<Rightarrow> string \<Rightarrow> string option" where
  "strip_one seqs s =
    (case filter (\<lambda>q. take (length q) (map byte s) = q) seqs of
       [] \<Rightarrow> None
     | q # _ \<Rightarrow> Some (drop (length q) s))"

function trim_left :: "nat list list \<Rightarrow> string \<Rightarrow> string" where
  "trim_left seqs s =
    (case strip_one seqs s of
       None \<Rightarrow> s
     | Some t \<Rightarrow> if length t < length s then trim_left seqs t else s)"
  by pat_completeness auto
termination
  by (relation "measure (\<lambda>(seqs, s). length s)") auto

declare trim_left.simps [simp del]

definition TrimSpace :: "string \<Rightarrow> string" where
  "TrimSpace s = rev (trim_left (map rev space_seqs) (rev (trim_left space_seqs s)))"

definition ascii_lower :: "char \<Rightarrow> char" where
  "ascii_lower c = (if 65 \<le> byte c \<and> byte c \<le> 90 then char_of (byte c + 32) else c)"

text \<open>
  \<open>strings.EqualFold\<close> against an ASCII string without the letters \<open>k\<close> and \<open>s\<close>, the only ASCII
  letters that non-ASCII code points fold to: there it is ASCII case folding.
\<close>

definition EqualFold :: "string \<Rightarrow> string \<Rightarrow> bool" where
  "EqualFold s t \<longleftrightarrow> map ascii_lower s = map ascii_lower t"

section \<open>Decimal numbers\<close>

fun nat_digits :: "nat \<Rightarrow> string" where
  "nat_digits n =
    (if n < 10 then [char_of (48 + n)] else nat_digits (n div 10) @ [char_of (48 + n mod 10)])"

declare nat_digits.simps [simp del]

definition Itoa :: "int \<Rightarrow> string" where
  "Itoa i = (if i < 0 then CHR ''-'' # nat_digits (nat (- i)) else nat_digits (nat i))"

definition is_digit :: "char \<Rightarrow> bool" where
  "is_digit c \<longleftrightarrow> 48 \<le> byte c \<and> byte c \<le> 57"

definition digits_value :: "string \<Rightarrow> nat" where
  "digits_value s = foldl (\<lambda>v c. 10 * v + (byte c - 48)) 0 s"

lemma digits_value_snoc [simp]: "digits_value (s @ [c]) = 10 * digits_value s + (byte c - 48)"
  by (simp add: digits_value_def)

lemma digits_value_nat_digits [simp]: "digits_value (nat_digits n) = n"
proof (induction n rule: nat_digits.induct)
  case (1 n)
  show ?case
  proof (cases "n < 10")
    case True
    then show ?thesis by (simp add: nat_digits.simps [of n] digits_value_def)
  next
    case False
    have "48 + n mod 10 < 256" by simp
    then have "byte (char_of (48 + n mod 10)) = 48 + n mod 10" by simp
    with False "1.IH" show ?thesis
      by (simp add: nat_digits.simps [of n])
  qed
qed

lemma nat_digits_digit: "c \<in> set (nat_digits n) \<Longrightarrow> is_digit c"
proof (induction n rule: nat_digits.induct)
  case (1 n)
  have "is_digit (char_of (48 + n mod 10))" by (simp add: is_digit_def)
  with 1 show ?case
    by (cases "n < 10") (auto simp: nat_digits.simps [of n] is_digit_def)
qed

lemma nat_digits_not_Nil [simp]: "nat_digits n \<noteq> []"
  by (simp add: nat_digits.simps [of n])

lemma Itoa_inj: "Itoa i = Itoa j \<Longrightarrow> i = j"
proof -
  have "CHR ''-'' \<notin> set (nat_digits n)" for n
    using nat_digits_digit [of "CHR ''-''" n] by (auto simp: is_digit_def)
  then have minus: "CHR ''-'' # s \<noteq> nat_digits n" for s n
    by (metis list.set_intros(1))
  have inj: "nat_digits m = nat_digits n \<Longrightarrow> m = n" for m n
    by (metis digits_value_nat_digits)
  assume "Itoa i = Itoa j"
  then show "i = j"
    by (auto simp: Itoa_def minus minus [symmetric] dest!: inj split: if_splits)
qed

end
