(* ===== verification/Classifier.thy ===== *)
theory Classifier
  imports Go_Strings
begin

text \<open>
  The alert classifier (\<open>operator/internal/classifier/classifier.go\<close>): the remedy kinds, the
  decision record and the function from an alert's labels to a decision, together with the
  label sets of the alert rules in \<open>k8s/prometheus/rules\<close>. The lemmas give the decision table
  the runbooks describe: who is paged, which remedy is picked and on which object it acts.
\<close>

section \<open>Kinds and decisions\<close>

datatype Kind = NoRemedy | Rollback | ScaleUp | CircuitBreak

definition Kind_String :: "Kind \<Rightarrow> string" where
  "Kind_String k = (case k of
     Rollback \<Rightarrow> ''rollback''
   | ScaleUp \<Rightarrow> ''scale-up''
   | CircuitBreak \<Rightarrow> ''circuit-break''
   | _ \<Rightarrow> ''no-remedy'')"

record Decision =
  Kind :: Kind
  Target :: string
  Reason :: string

type_synonym labels = "string \<rightharpoonup> string"

section \<open>Classification\<close>

definition Classify :: "(nat \<Rightarrow> bool) \<Rightarrow> labels \<Rightarrow> Decision" where
  "Classify wide labels =
    (let severity = go_get labels ''severity'';
         service = go_get labels ''service'';
         slo = go_get labels ''slo'';
         burn = go_get labels ''burn_speed''
     in
     if severity \<noteq> ''page'' then
       \<lparr>Kind = NoRemedy, Target = '''',
        Reason = ''severity='' @ quote wide severity @ '', only page is auto-actioned''\<rparr>
     else if service = ''email-worker'' then
       \<lparr>Kind = CircuitBreak, Target = ''orders-svc-flags'',
        Reason = ''email-worker SLO '' @ quote wide slo
                 @ '' burning; pause orders-svc publish to drain backlog''\<rparr>
     else if service = ''orders'' \<and> (burn = ''fast'' \<or> slo = ''orders_latency'') then
       \<lparr>Kind = Rollback, Target = ''orders-svc'',
        Reason = ''orders SLO '' @ quote wide slo
                 @ '' burning fast; rollback to previous stable''\<rparr>
     else if service = ''payments'' \<and> burn = ''fast'' then
       \<lparr>Kind = ScaleUp, Target = ''payments-svc'',
        Reason = ''payments SLO '' @ quote wide slo
                 @ '' burning fast; scale up to absorb load''\<rparr>
     else if service = ''inventory'' \<and> burn = ''fast'' then
       \<lparr>Kind = ScaleUp, Target = ''inventory-svc'',
        Reason = ''inventory SLO '' @ quote wide slo @ '' burning fast; scale up''\<rparr>
     else \<lparr>Kind = NoRemedy, Target = '''', Reason = ''no rule matched alert labels''\<rparr>)"

section \<open>The alert rules of the repository\<close>

text \<open>The labels each rule under \<open>k8s/prometheus/rules\<close> attaches to its alert; Prometheus adds
  the alert's name as the label \<open>alertname\<close>.\<close>

definition rule_labels :: "string \<Rightarrow> (string \<times> string) list \<Rightarrow> labels" where
  "rule_labels name ls = map_of ((''alertname'', name) # ls)"

definition OrdersSLOFastBurn :: labels where
  "OrdersSLOFastBurn = rule_labels ''OrdersSLOFastBurn''
     [(''severity'', ''page''), (''slo'', ''orders_availability''),
      (''service'', ''orders''), (''burn_speed'', ''fast'')]"

definition OrdersSLOSlowBurn :: labels where
  "OrdersSLOSlowBurn = rule_labels ''OrdersSLOSlowBurn''
     [(''severity'', ''ticket''), (''slo'', ''orders_availability''),
      (''service'', ''orders''), (''burn_speed'', ''slow'')]"

definition OrdersLatencyHigh :: labels where
  "OrdersLatencyHigh = rule_labels ''OrdersLatencyHigh''
     [(''severity'', ''page''), (''slo'', ''orders_latency''), (''service'', ''orders'')]"

definition PaymentsSLOFastBurn :: labels where
  "PaymentsSLOFastBurn = rule_labels ''PaymentsSLOFastBurn''
     [(''severity'', ''page''), (''slo'', ''payments_availability''),
      (''service'', ''payments''), (''burn_speed'', ''fast'')]"

definition PaymentsSLOSlowBurn :: labels where
  "PaymentsSLOSlowBurn = rule_labels ''PaymentsSLOSlowBurn''
     [(''severity'', ''ticket''), (''slo'', ''payments_availability''),
      (''service'', ''payments''), (''burn_speed'', ''slow'')]"

definition InventorySLOFastBurn :: labels where
  "InventorySLOFastBurn = rule_labels ''InventorySLOFastBurn''
     [(''severity'', ''page''), (''slo'', ''inventory_availability''),
      (''service'', ''inventory''), (''burn_speed'', ''fast'')]"

definition EmailWorkerBacklogGrowing :: labels where
  "EmailWorkerBacklogGrowing = rule_labels ''EmailWorkerBacklogGrowing''
     [(''severity'', ''page''), (''slo'', ''email_delivery_within_60s''),
      (''service'', ''email-worker'')]"

definition EmailWorkerOOMRestart :: labels where
  "EmailWorkerOOMRestart = rule_labels ''EmailWorkerOOMRestart''
     [(''severity'', ''page''), (''slo'', ''email_delivery_within_60s''),
      (''service'', ''email-worker'')]"

lemmas alert_rule_defs =
  OrdersSLOFastBurn_def OrdersSLOSlowBurn_def OrdersLatencyHigh_def
  PaymentsSLOFastBurn_def PaymentsSLOSlowBurn_def InventorySLOFastBurn_def
  EmailWorkerBacklogGrowing_def EmailWorkerOOMRestart_def

section \<open>Lemmas shared with the server\<close>

lemma Classify_page:
  "Kind (Classify wide ls) \<noteq> NoRemedy \<Longrightarrow> go_get ls ''severity'' = ''page''"
  by (auto simp: Classify_def Let_def split: if_splits)

lemma Classify_not_page [simp]:
  "go_get ls ''severity'' \<noteq> ''page'' \<Longrightarrow> Kind (Classify wide ls) = NoRemedy"
  by (simp add: Classify_def)

lemma Classify_email_worker:
  "go_get ls ''severity'' = ''page'' \<Longrightarrow> go_get ls ''service'' = ''email-worker'' \<Longrightarrow>
   Kind (Classify wide ls) = CircuitBreak \<and> Target (Classify wide ls) = ''orders-svc-flags''"
  by (simp add: Classify_def)

lemma Classify_wide_irrelevant:
  "Kind (Classify wide ls) = Kind (Classify wide' ls)"
  "Target (Classify wide ls) = Target (Classify wide' ls)"
  unfolding Classify_def Let_def by (simp_all only: if_distrib [where f = Kind]
    if_distrib [where f = Target] Decision.select_convs)

section \<open>Properties\<close>

text \<open>
  The classifier's decision table. A remedy is taken only for page-severity alerts, and
  the kind and the target are exactly those of the rule the labels match: email-worker pages
  break the circuit on the flags ConfigMap, fast orders burns and the orders latency SLO roll
  the orders rollout back, fast payments and inventory burns scale their own autoscaler.
\<close>

lemma Classify_table:
  "Kind (Classify wide ls) =
     (if go_get ls ''severity'' \<noteq> ''page'' then NoRemedy
      else if go_get ls ''service'' = ''email-worker'' then CircuitBreak
      else if go_get ls ''service'' = ''orders'' then
        (if go_get ls ''burn_speed'' = ''fast'' \<or> go_get ls ''slo'' = ''orders_latency''
         then Rollback else NoRemedy)
      else if go_get ls ''service'' \<in> {''payments'', ''inventory''}
              \<and> go_get ls ''burn_speed'' = ''fast'' then ScaleUp
      else NoRemedy)
   \<and> Target (Classify wide ls) =
     (case Kind (Classify wide ls) of
        NoRemedy \<Rightarrow> ''''
      | Rollback \<Rightarrow> ''orders-svc''
      | ScaleUp \<Rightarrow> go_get ls ''service'' @ ''-svc''
      | CircuitBreak \<Rightarrow> ''orders-svc-flags'')"
  by (auto simp: Classify_def Let_def)

text \<open>
  Every alert rule the repository installs is classified as its runbook says: the two
  orders pages roll back, the payments and inventory fast burns scale up their own service,
  the two email-worker pages engage the circuit breaker, and the slow burns are left to
  humans.
\<close>

theorem Classify_alert_rules:
  "map (\<lambda>ls. (Kind (Classify wide ls), Target (Classify wide ls)))
     [OrdersSLOFastBurn, OrdersLatencyHigh, OrdersSLOSlowBurn,
      PaymentsSLOFastBurn, PaymentsSLOSlowBurn, InventorySLOFastBurn,
      EmailWorkerBacklogGrowing, EmailWorkerOOMRestart] =
     [(Rollback, ''orders-svc''), (Rollback, ''orders-svc''), (NoRemedy, ''''),
      (ScaleUp, ''payments-svc''), (NoRemedy, ''''), (ScaleUp, ''inventory-svc''),
      (CircuitBreak, ''orders-svc-flags''), (CircuitBreak, ''orders-svc-flags'')]"
  by (simp add: Classify_def alert_rule_defs rule_labels_def go_get_def)

end
