(* ===== verification/Kube_Client.thy ===== *)
theory Kube_Client
  imports Lab_Prelude
begin

text \<open>
  The Kubernetes API as the operator sees it. controller-runtime's \<open>client.Client\<close> is
  third-party code: it is the argument \<open>'c client\<close> of every definition that uses it, a
  record of functions on an abstract cluster state \<open>'c\<close>, so that calls may fail and the
  cluster may change in any way. The world of the operator is the cluster, the calls the
  operator issued so far and the records it logged.

  \<open>kube_cache\<close> states the documented behaviour of the client that the manager hands to the
  remedies (\<open>mgr.GetClient()\<close>, \<open>operator/cmd/manager/main.go\<close>): a read returns what the
  informer cache holds, which may be behind the API server, and fails at any time; a write goes to
  the API server, a successful one has its effect, and one that returns an error (a request that
  timed out, say) has had either its whole effect or none. A merge patch changes exactly the
  fields in which the patched object differs from its base. \<open>kube_api\<close> is the case in which the
  cache has caught up with the API server, the freshness hypothesis of the theorems that need it.
  \<open>mem_client\<close> is a store with that behaviour, which the witnesses evaluate.
\<close>

section \<open>Objects\<close>

type_synonym nsname = "string \<times> string"

record hpa =
  hpa_key :: nsname
  MinReplicas :: "int32 option"
  MaxReplicas :: int32

record config_map =
  cm_key :: nsname
  Data :: "(string \<rightharpoonup> string) option"

text \<open>The kind an untyped object is addressed by, and the one under which Argo Rollouts installs its
  custom resource.\<close>

record gvk =
  gvk_Group :: string
  gvk_Version :: string
  gvk_Kind :: string

definition argo_rollouts :: gvk where
  "argo_rollouts = \<lparr>gvk_Group = ''argoproj.io'', gvk_Version = ''v1alpha1'', gvk_Kind = ''Rollout''\<rparr>"

datatype api_error = NotFound | AlreadyExists | Conflict | OtherAPIError string

definition IsNotFound :: "api_error \<Rightarrow> bool" where
  "IsNotFound e \<longleftrightarrow> e = NotFound"

section \<open>The client and the world\<close>

record 'c client =
  get_hpa :: "nsname \<Rightarrow> 'c \<Rightarrow> (api_error + hpa) \<times> 'c"
  patch_hpa :: "hpa \<Rightarrow> hpa \<Rightarrow> 'c \<Rightarrow> api_error option \<times> 'c"
  get_cm :: "nsname \<Rightarrow> 'c \<Rightarrow> (api_error + config_map) \<times> 'c"
  create_cm :: "config_map \<Rightarrow> 'c \<Rightarrow> api_error option \<times> 'c"
  patch_cm :: "config_map \<Rightarrow> config_map \<Rightarrow> 'c \<Rightarrow> api_error option \<times> 'c"
  patch_status :: "gvk \<Rightarrow> nsname \<Rightarrow> string \<Rightarrow> 'c \<Rightarrow> api_error option \<times> 'c"

datatype api_call =
  GetHPA nsname
| PatchHPA hpa hpa
| GetConfigMap nsname
| CreateConfigMap config_map
| PatchConfigMap config_map config_map
| PatchStatus gvk nsname string

record 'c world =
  cluster :: 'c
  calls :: "api_call list"
  logs :: "log_record list"

definition log :: "log_level \<Rightarrow> string \<Rightarrow> 'c world \<Rightarrow> 'c world" where
  "log l msg w = w\<lparr>logs := logs w @ [(l, msg)]\<rparr>"

definition issue :: "api_call \<Rightarrow> ('c \<Rightarrow> 'r \<times> 'c) \<Rightarrow> 'c world \<Rightarrow> 'r \<times> 'c world" where
  "issue call f w =
    (let (r, c) = f (cluster w) in (r, w\<lparr>cluster := c, calls := calls w @ [call]\<rparr>))"

definition do_get_hpa where
  "do_get_hpa cl k = issue (GetHPA k) (get_hpa cl k)"

definition do_patch_hpa where
  "do_patch_hpa cl base h = issue (PatchHPA base h) (patch_hpa cl base h)"

definition do_get_cm where
  "do_get_cm cl k = issue (GetConfigMap k) (get_cm cl k)"

definition do_create_cm where
  "do_create_cm cl cm = issue (CreateConfigMap cm) (create_cm cl cm)"

definition do_patch_cm where
  "do_patch_cm cl base cm = issue (PatchConfigMap base cm) (patch_cm cl base cm)"

definition do_patch_status where
  "do_patch_status cl g k p = issue (PatchStatus g k p) (patch_status cl g k p)"

lemmas do_defs = do_get_hpa_def do_patch_hpa_def do_get_cm_def do_create_cm_def
  do_patch_cm_def do_patch_status_def

lemma log_sel [simp]:
  "cluster (log l m w) = cluster w" "calls (log l m w) = calls w"
  "logs (log l m w) = logs w @ [(l, m)]"
  by (simp_all add: log_def)

lemma calls_issue [trace_simps]: "calls (snd (issue call f w)) = calls w @ [call]"
  by (simp add: issue_def split: prod.splits)

lemma issueD:
  "issue call f w = (r, w') \<Longrightarrow>
   f (cluster w) = (r, cluster w') \<and> calls w' = calls w @ [call] \<and> logs w' = logs w"
  by (auto simp: issue_def split: prod.splits)

lemma issueE:
  assumes "issue call f w = (r, w')"
  obtains "f (cluster w) = (r, cluster w')" "calls w' = calls w @ [call]" "logs w' = logs w"
  using issueD [OF assms] by blast

section \<open>Documented behaviour of the API server\<close>

record kube_view =
  v_hpas :: "nsname \<rightharpoonup> hpa"
  v_cms :: "nsname \<rightharpoonup> config_map"
  v_aborts :: "nsname \<rightharpoonup> bool"

text \<open>Fields of an object that a merge patch from \<open>base\<close> to \<open>new\<close> changes.\<close>

definition merge_hpa :: "hpa \<Rightarrow> hpa \<Rightarrow> hpa \<Rightarrow> hpa" where
  "merge_hpa base new cur = cur\<lparr>
     MinReplicas := (if MinReplicas base = MinReplicas new then MinReplicas cur
                     else MinReplicas new),
     MaxReplicas := (if MaxReplicas base = MaxReplicas new then MaxReplicas cur
                     else MaxReplicas new)\<rparr>"

definition data_of :: "config_map \<Rightarrow> string \<rightharpoonup> string" where
  "data_of cm = (case Data cm of None \<Rightarrow> (\<lambda>_. None) | Some m \<Rightarrow> m)"

definition merge_cm :: "config_map \<Rightarrow> config_map \<Rightarrow> config_map \<Rightarrow> config_map" where
  "merge_cm base new cur = cur\<lparr>Data := Some (\<lambda>k.
     if data_of base k = data_of new k then data_of cur k else data_of new k)\<rparr>"

definition abort_patch :: string where
  \<open>abort_patch = ''{"status":{"abort":true}}''\<close>

text \<open>The effect of a successful write on the stored objects; \<open>None\<close> where the server
  refuses it.\<close>

definition view_patch_hpa :: "hpa \<Rightarrow> hpa \<Rightarrow> kube_view \<Rightarrow> kube_view option" where
  "view_patch_hpa b h v = (case v_hpas v (hpa_key h) of
     None \<Rightarrow> None
   | Some cur \<Rightarrow> Some (v\<lparr>v_hpas := (v_hpas v)(hpa_key h \<mapsto> merge_hpa b h cur)\<rparr>))"

definition view_create_cm :: "config_map \<Rightarrow> kube_view \<Rightarrow> kube_view option" where
  "view_create_cm m v = (case v_cms v (cm_key m) of
     None \<Rightarrow> Some (v\<lparr>v_cms := (v_cms v)(cm_key m \<mapsto> m)\<rparr>)
   | Some _ \<Rightarrow> None)"

definition view_patch_cm :: "config_map \<Rightarrow> config_map \<Rightarrow> kube_view \<Rightarrow> kube_view option" where
  "view_patch_cm b m v = (case v_cms v (cm_key m) of
     None \<Rightarrow> None
   | Some cur \<Rightarrow> Some (v\<lparr>v_cms := (v_cms v)(cm_key m \<mapsto> merge_cm b m cur)\<rparr>))"

definition view_abort :: "nsname \<Rightarrow> kube_view \<Rightarrow> kube_view option" where
  "view_abort k v = (case v_aborts v k of
     None \<Rightarrow> None
   | Some _ \<Rightarrow> Some (v\<lparr>v_aborts := (v_aborts v)(k \<mapsto> True)\<rparr>))"

text \<open>A read shows what the cache holds and changes no stored object; it may fail with any
  error, and reports \<open>NotFound\<close> only if the cache does not hold the object. A write has its effect
  when it returns nil; when it returns an error it may have had it.\<close>

definition read_ok :: "('c \<Rightarrow> kube_view) \<Rightarrow> ('c \<Rightarrow> kube_view) \<Rightarrow> (kube_view \<Rightarrow> 'o option) \<Rightarrow>
    ('c \<Rightarrow> (api_error + 'o) \<times> 'c) \<Rightarrow> bool" where
  "read_ok view cached stored op \<longleftrightarrow> (\<forall>c. view (snd (op c)) = view c \<and>
     (case fst (op c) of Inr x \<Rightarrow> stored (cached c) = Some x
              | Inl e \<Rightarrow> e = NotFound \<longrightarrow> stored (cached c) = None))"

definition write_ok :: "('c \<Rightarrow> kube_view) \<Rightarrow> (kube_view \<Rightarrow> kube_view option) \<Rightarrow>
    ('c \<Rightarrow> api_error option \<times> 'c) \<Rightarrow> bool" where
  "write_ok view effect op \<longleftrightarrow> (\<forall>c. effect (view c) = Some (view (snd (op c))) \<or>
     fst (op c) \<noteq> None \<and> view (snd (op c)) = view c)"

definition kube_cache :: "'c client \<Rightarrow> ('c \<Rightarrow> kube_view) \<Rightarrow> ('c \<Rightarrow> kube_view) \<Rightarrow> bool" where
  "kube_cache cl view cached \<longleftrightarrow>
    (\<forall>k. read_ok view cached (\<lambda>v. v_hpas v k) (get_hpa cl k)) \<and>
    (\<forall>k. read_ok view cached (\<lambda>v. v_cms v k) (get_cm cl k)) \<and>
    (\<forall>b h. write_ok view (view_patch_hpa b h) (patch_hpa cl b h)) \<and>
    (\<forall>m. write_ok view (view_create_cm m) (create_cm cl m)) \<and>
    (\<forall>b m. write_ok view (view_patch_cm b m) (patch_cm cl b m)) \<and>
    (\<forall>k. write_ok view (view_abort k) (patch_status cl argo_rollouts k abort_patch))"

text \<open>The cache has caught up: what it holds is what the API server stores.\<close>

definition kube_api :: "'c client \<Rightarrow> ('c \<Rightarrow> kube_view) \<Rightarrow> bool" where
  "kube_api cl view \<longleftrightarrow> kube_cache cl view view"

text \<open>Objects are stored under their own name.\<close>

definition view_keys :: "kube_view \<Rightarrow> bool" where
  "view_keys v \<longleftrightarrow> (\<forall>k h. v_hpas v k = Some h \<longrightarrow> hpa_key h = k) \<and>
                  (\<forall>k m. v_cms v k = Some m \<longrightarrow> cm_key m = k)"

lemma view_keysD:
  "view_keys v \<Longrightarrow> v_hpas v k = Some h \<Longrightarrow> hpa_key h = k"
  "view_keys v \<Longrightarrow> v_cms v k = Some m \<Longrightarrow> cm_key m = k"
  unfolding view_keys_def by blast+

lemma view_keysI:
  "(\<And>k h. v_hpas v k = Some h \<Longrightarrow> hpa_key h = k) \<Longrightarrow>
   (\<And>k m. v_cms v k = Some m \<Longrightarrow> cm_key m = k) \<Longrightarrow> view_keys v"
  unfolding view_keys_def by blast

lemma read_okD:
  assumes "read_ok view cached stored op" "op c = (r, c')"
  shows "view c' = view c"
    and "r = Inr x \<Longrightarrow> stored (cached c) = Some x"
    and "r = Inl NotFound \<Longrightarrow> stored (cached c) = None"
  using assms(1) [unfolded read_ok_def, rule_format, of c] assms(2) by auto

lemma write_okD:
  assumes "write_ok view effect op" "op c = (r, c')"
  shows "r = None \<Longrightarrow> effect (view c) = Some (view c')"
    and "r = Some e \<Longrightarrow> view c' = view c \<or> effect (view c) = Some (view c')"
  using assms(1) [unfolded write_ok_def, rule_format, of c] assms(2) by auto

lemma kube_cacheD:
  assumes "kube_cache cl view cached"
  shows "read_ok view cached (\<lambda>v. v_hpas v k) (get_hpa cl k)"
    and "read_ok view cached (\<lambda>v. v_cms v k) (get_cm cl k)"
    and "write_ok view (view_patch_hpa b h) (patch_hpa cl b h)"
    and "write_ok view (view_create_cm m) (create_cm cl m)"
    and "write_ok view (view_patch_cm c m) (patch_cm cl c m)"
    and "write_ok view (view_abort k) (patch_status cl argo_rollouts k abort_patch)"
  using assms unfolding kube_cache_def by blast+

lemmas kube_apiD = kube_cacheD [OF kube_api_def [THEN iffD1]]

text \<open>The same facts for the calls as the operator issues them.\<close>

lemma issue_read:
  assumes "issue call op w = (r, w')" "read_ok view cached stored op"
  shows "view (cluster w') = view (cluster w)"
    and "r = Inr x \<Longrightarrow> stored (cached (cluster w)) = Some x"
    and "r = Inl NotFound \<Longrightarrow> stored (cached (cluster w)) = None"
  using read_okD [OF assms(2)] issueD [OF assms(1)] by blast+

lemma issue_write:
  assumes "issue call op w = (r, w')" "write_ok view effect op"
  shows "r = None \<Longrightarrow> effect (view (cluster w)) = Some (view (cluster w'))"
    and "r = Some e \<Longrightarrow>
      view (cluster w') = view (cluster w) \<or> effect (view (cluster w)) = Some (view (cluster w'))"
  using write_okD [OF assms(2)] issueD [OF assms(1)] by blast+

section \<open>A store with the documented behaviour\<close>

definition mem_read :: "(kube_view \<Rightarrow> 'o option) \<Rightarrow> kube_view \<Rightarrow> (api_error + 'o) \<times> kube_view"
  where "mem_read stored c = (case stored c of None \<Rightarrow> Inl NotFound | Some x \<Rightarrow> Inr x, c)"

definition mem_write ::
    "api_error \<Rightarrow> (kube_view \<Rightarrow> kube_view option) \<Rightarrow> kube_view \<Rightarrow> api_error option \<times> kube_view"
  where "mem_write e effect c = (case effect c of None \<Rightarrow> (Some e, c) | Some c' \<Rightarrow> (None, c'))"

definition mem_client :: "kube_view client" where
  "mem_client = \<lparr>
     get_hpa = (\<lambda>k. mem_read (\<lambda>v. v_hpas v k)),
     patch_hpa = (\<lambda>b h. mem_write NotFound (view_patch_hpa b h)),
     get_cm = (\<lambda>k. mem_read (\<lambda>v. v_cms v k)),
     create_cm = (\<lambda>m. mem_write AlreadyExists (view_create_cm m)),
     patch_cm = (\<lambda>b m. mem_write NotFound (view_patch_cm b m)),
     patch_status = (\<lambda>g k p. mem_write NotFound (if g = argo_rollouts then view_abort k else (\<lambda>_. None)))\<rparr>"

lemma read_ok_mem: "read_ok id id stored (mem_read stored)"
  by (auto simp: read_ok_def mem_read_def split: option.splits)

lemma write_ok_mem: "write_ok id effect (mem_write e effect)"
  by (auto simp: write_ok_def mem_write_def split: option.splits)

lemma kube_api_mem_client: "kube_api mem_client id"
  by (simp add: kube_api_def kube_cache_def mem_client_def read_ok_mem write_ok_mem)

definition empty_view :: kube_view where
  "empty_view = \<lparr>v_hpas = (\<lambda>_. None), v_cms = (\<lambda>_. None), v_aborts = (\<lambda>_. None)\<rparr>"

definition mem_world :: "kube_view \<Rightarrow> kube_view world" where
  "mem_world v = \<lparr>cluster = v, calls = [], logs = []\<rparr>"

lemma view_keys_empty [simp]: "view_keys empty_view"
  by (simp add: view_keys_def empty_view_def)

lemma cluster_mem_world [simp]: "cluster (mem_world v) = v"
  by (simp add: mem_world_def)

lemmas view_defs = view_patch_hpa_def view_create_cm_def view_patch_cm_def view_abort_def
  merge_hpa_def merge_cm_def data_of_def

lemmas mem_defs = mem_client_def mem_read_def mem_write_def

end
