(* ===== verification/Remedy.thy ===== *)
theory Remedy
  imports Classifier Kube_Client
begin

text \<open>
  The remedy interface and the registry (\<open>operator/internal/remedy/remedy.go\<close>). A remedy is
  an operation on the operator's world that returns an error or nil; \<open>Registry\<close> maps kinds to
  remedies. The locale \<open>remedy_effect\<close> is what the operator relies on from a remedy when its
  cached reads are fresh: a successful application has a fixed effect on the cluster objects, and a
  failed one has had either that whole effect (its write was applied and the answer lost) or none;
  \<open>idempotent_remedy\<close> adds the contract of the interface's comment, that applying twice
  converges to the state of applying once.
\<close>

section \<open>Inputs and errors\<close>

record 'c Input =
  Client :: "'c client"
  Namespace :: string
  InDecision :: Decision

text \<open>The errors \<open>Apply\<close> returns: the registry's own and the wrapped API errors of the
  remedies.\<close>

datatype remedy_error =
  NoRemedyRegistered Kind
| PatchRolloutError nsname api_error
| GetHPAError nsname api_error
| PatchHPAError nsname api_error
| CreateFlagsError nsname api_error
| GetFlagsError nsname api_error
| PatchFlagsError nsname api_error

type_synonym 'c remedy = "'c Input \<Rightarrow> 'c world \<Rightarrow> remedy_error option \<times> 'c world"

abbreviation in_key :: "'c Input \<Rightarrow> nsname" where
  "in_key i \<equiv> (Namespace i, Target (InDecision i))"

section \<open>The registry\<close>

type_synonym 'c Registry = "Kind \<rightharpoonup> 'c remedy"

definition NewRegistry :: "'c Registry" where
  "NewRegistry = (\<lambda>_. None)"

definition Register :: "Kind \<Rightarrow> 'c remedy \<Rightarrow> 'c Registry \<Rightarrow> 'c Registry" where
  "Register k rem r = r(k \<mapsto> rem)"

definition Lookup :: "'c Registry \<Rightarrow> Kind \<Rightarrow> 'c remedy option" where
  "Lookup r k = r k"

definition Registry_Apply :: "'c Registry \<Rightarrow> 'c remedy" where
  "Registry_Apply r inp w = (case Lookup r (Kind (InDecision inp)) of
     None \<Rightarrow> (Some (NoRemedyRegistered (Kind (InDecision inp))), w)
   | Some rem \<Rightarrow> rem inp w)"

lemma Lookup_Register [simp]:
  "Lookup (Register k rem r) k' = (if k' = k then Some rem else Lookup r k')"
  by (simp add: Lookup_def Register_def)

lemma Lookup_NewRegistry [simp]: "Lookup NewRegistry k = None"
  by (simp add: Lookup_def NewRegistry_def)

lemma Registry_Apply_registered:
  "Lookup r (Kind (InDecision inp)) = Some rem \<Longrightarrow> Registry_Apply r inp w = rem inp w"
  by (simp add: Registry_Apply_def)

lemma Registry_Apply_unregistered:
  "Lookup r (Kind (InDecision inp)) = None \<Longrightarrow>
   Registry_Apply r inp w = (Some (NoRemedyRegistered (Kind (InDecision inp))), w)"
  by (simp add: Registry_Apply_def)

section \<open>What a remedy promises\<close>

text \<open>\<open>n\<close> applications in a row, with the errors they returned.\<close>

fun apply_times :: "nat \<Rightarrow> 'c remedy \<Rightarrow> 'c Input \<Rightarrow> 'c world \<Rightarrow> remedy_error option list \<times> 'c world"
  where
  "apply_times 0 rem inp w = ([], w)"
| "apply_times (Suc n) rem inp w =
    (let (e, w1) = rem inp w; (es, w2) = apply_times n rem inp w1 in (e # es, w2))"

lemma length_apply_times: "apply_times n rem inp w = (es, w') \<Longrightarrow> length es = n"
  by (induction n arbitrary: w es) (auto split: prod.splits)

locale remedy_effect =
  fixes rem :: "'c remedy"
    and upd :: "'c Input \<Rightarrow> kube_view \<Rightarrow> kube_view"
  assumes success:
      "kube_api (Client inp) view \<Longrightarrow> view_keys (view (cluster w)) \<Longrightarrow>
       rem inp w = (None, w') \<Longrightarrow> view (cluster w') = upd inp (view (cluster w))"
    and failure:
      "kube_api (Client inp) view \<Longrightarrow> view_keys (view (cluster w)) \<Longrightarrow>
       rem inp w = (Some e, w') \<Longrightarrow>
       view (cluster w') = view (cluster w) \<or> view (cluster w') = upd inp (view (cluster w))"
    and keeps_keys: "view_keys v \<Longrightarrow> view_keys (upd inp v)"
begin

text \<open>A sequence of applications has the effect of at least as many as succeeded and at most as
  many as were made.\<close>

lemma apply_times_effect:
  assumes "kube_api (Client inp) view" "view_keys (view (cluster w))"
    "apply_times n rem inp w = (es, w')"
  shows "\<exists>k. length (filter (\<lambda>e. e = None) es) \<le> k \<and> k \<le> n \<and>
    view (cluster w') = (upd inp ^^ k) (view (cluster w)) \<and> view_keys (view (cluster w'))"
  using assms
proof (induction n arbitrary: w es)
  case 0
  then show ?case by simp
next
  case (Suc n)
  obtain e w1 where 1: "rem inp w = (e, w1)" by (cases "rem inp w")
  with Suc.prems obtain es1 where 2: "apply_times n rem inp w1 = (es1, w')" "es = e # es1"
    by (auto split: prod.splits)
  obtain j where j: "view (cluster w1) = (upd inp ^^ j) (view (cluster w))" "j \<le> 1" "e = None \<Longrightarrow> j = 1"
  proof (cases e)
    case None
    then show ?thesis using success [OF Suc.prems(1,2)] 1 that [of 1] by simp
  next
    case (Some err)
    then show ?thesis using failure [OF Suc.prems(1,2)] 1 that [of 0] that [of 1] by auto
  qed
  then have "view_keys (view (cluster w1))"
    using keeps_keys Suc.prems(2) by (cases j) auto
  from Suc.IH [OF Suc.prems(1) this 2(1)] obtain k where
    k: "length (filter (\<lambda>e. e = None) es1) \<le> k" "k \<le> n"
      "view (cluster w') = (upd inp ^^ k) (view (cluster w1))" "view_keys (view (cluster w'))" by blast
  have "length (filter (\<lambda>e. e = None) es) \<le> k + j" using k(1) j(3) 2(2) by (cases e) auto
  moreover have "view (cluster w') = (upd inp ^^ (k + j)) (view (cluster w))"
    using k(3) j(1) by (simp add: funpow_add)
  ultimately show ?case using k(2,4) j(2) by (intro exI [of _ "k + j"]) auto
qed

end

locale idempotent_remedy = remedy_effect +
  assumes upd_idem: "upd inp (upd inp v) = upd inp v"
begin

lemma funpow_upd: "0 < n \<Longrightarrow> (upd inp ^^ n) v = upd inp v"
proof (induction n)
  case (Suc n)
  then show ?case by (cases n) (simp_all add: upd_idem)
qed simp

text \<open>Any number of applications converges to the effect of one, as soon as one of them
  succeeds; if none does, they have had the effect of one or none.\<close>

lemma apply_times_converges:
  assumes "kube_api (Client inp) view" "view_keys (view (cluster w))"
    "apply_times n rem inp w = (es, w')"
  shows "view (cluster w') = upd inp (view (cluster w))
    \<or> None \<notin> set es \<and> view (cluster w') = view (cluster w)"
proof -
  obtain k where k: "length (filter (\<lambda>e. e = None) es) \<le> k"
    "view (cluster w') = (upd inp ^^ k) (view (cluster w))"
    using apply_times_effect [OF assms] by blast
  show ?thesis
  proof (cases k)
    case 0
    then have "None \<notin> set es" using k(1) by (auto simp: filter_empty_conv)
    with 0 k(2) show ?thesis by simp
  next
    case (Suc m)
    then show ?thesis using k(2) funpow_upd [of k] by simp
  qed
qed

end

end
