(* ===== verification/Remedy_Rollback.thy ===== *)
theory Remedy_Rollback
  imports Remedy
begin

text \<open>
  The rollback remedy (\<open>operator/internal/remedy/rollback.go\<close>): one merge patch
  \<open>{"status":{"abort":true}}\<close> on the status subresource of the target Argo Rollout. The lemmas
  give its single API call, its effect under the documented API behaviour and its idempotence.
\<close>

section \<open>Model\<close>

definition rolloutGVR :: gvk where
  "rolloutGVR = \<lparr>gvk_Group = ''argoproj.io'', gvk_Version = ''v1alpha1'', gvk_Kind = ''Rollout''\<rparr>"

definition Rollback_Apply :: "'c remedy" where
  "Rollback_Apply inp w =
    (let key = in_key inp;
         (e, w1) = do_patch_status (Client inp) rolloutGVR key abort_patch w
     in case e of
          Some err \<Rightarrow> (Some (PatchRolloutError key err), w1)
        | None \<Rightarrow> (None, log LevelInfo ''rollback aborted in-flight rollout'' w1))"

definition abort_upd :: "'c Input \<Rightarrow> kube_view \<Rightarrow> kube_view" where
  "abort_upd inp v = v\<lparr>v_aborts := (v_aborts v)(in_key inp \<mapsto> True)\<rparr>"

section \<open>Lemmas\<close>

text \<open>The remedy addresses the resource that Argo Rollouts installs.\<close>

lemma rolloutGVR_argo [simp]: "rolloutGVR = argo_rollouts"
  by (simp add: rolloutGVR_def argo_rollouts_def)

lemma Rollback_success:
  assumes api: "kube_api (Client inp) view" and run: "Rollback_Apply inp w = (None, w')"
  shows "view (cluster w') = abort_upd inp (view (cluster w))
    \<and> in_key inp \<in> dom (v_aborts (view (cluster w)))"
proof -
  from run obtain w1 where
    p: "do_patch_status (Client inp) argo_rollouts (in_key inp) abort_patch w = (None, w1)"
    and "cluster w' = cluster w1"
    by (auto simp: Rollback_Apply_def Let_def split: prod.splits option.splits)
  then show ?thesis
    using issue_write(1) [OF p [unfolded do_patch_status_def] kube_apiD(6) [OF api]]
    by (auto simp: view_abort_def abort_upd_def split: option.splits)
qed

lemma Rollback_failure:
  assumes api: "kube_api (Client inp) view" and run: "Rollback_Apply inp w = (Some e, w')"
  shows "view (cluster w') = view (cluster w) \<or>
    view (cluster w') = abort_upd inp (view (cluster w)) \<and> in_key inp \<in> dom (v_aborts (view (cluster w)))"
proof -
  from run obtain err where
    "do_patch_status (Client inp) argo_rollouts (in_key inp) abort_patch w = (Some err, w')"
    by (auto simp: Rollback_Apply_def Let_def split: prod.splits option.splits)
  then show ?thesis
    using issue_write(2) [OF _ kube_apiD(6) [OF api]]
    by (fastforce simp: do_patch_status_def view_abort_def abort_upd_def split: option.splits)
qed

interpretation rb: idempotent_remedy Rollback_Apply abort_upd
proof unfold_locales
  fix inp :: "'a Input" and v :: kube_view
  show "abort_upd inp (abort_upd inp v) = abort_upd inp v"
    by (simp add: abort_upd_def)
  show "view_keys v \<Longrightarrow> view_keys (abort_upd inp v)"
    by (simp add: abort_upd_def view_keys_def)
qed (use Rollback_success Rollback_failure in blast)+

text \<open>An input and a world for the witnesses: the orders rollout, in progress.\<close>

definition rollout_input :: "kube_view Input" where
  "rollout_input = \<lparr>Client = mem_client, Namespace = ''reliability-lab'',
     InDecision = \<lparr>Kind = Rollback, Target = ''orders-svc'', Reason = ''''\<rparr>\<rparr>"

definition rollout_world :: "kube_view world" where
  "rollout_world = mem_world
     (empty_view\<lparr>v_aborts := [(''reliability-lab'', ''orders-svc'') \<mapsto> False]\<rparr>)"

lemma rollout_input_api: "kube_api (Client rollout_input) id"
  by (simp add: rollout_input_def kube_api_mem_client)

lemma rollout_world_keys: "view_keys (id (cluster rollout_world))"
  by (simp add: rollout_world_def view_keys_def empty_view_def)

lemma rollout_run:
  "fst (Rollback_Apply rollout_input rollout_world) = None"
  by (simp add: rollout_input_def rollout_world_def Rollback_Apply_def do_defs issue_def
      mem_defs mem_world_def view_defs Let_def)

lemma Rollback_times_dom:
  assumes "kube_api (Client inp) view" "apply_times n Rollback_Apply inp w = (es, w')"
  shows "dom (v_aborts (view (cluster w'))) = dom (v_aborts (view (cluster w)))"
  using assms(2)
proof (induction n arbitrary: w es)
  case (Suc n)
  obtain e w1 where 1: "Rollback_Apply inp w = (e, w1)" by (cases "Rollback_Apply inp w")
  have "dom (v_aborts (view (cluster w1))) = dom (v_aborts (view (cluster w)))"
  proof -
    have "view (cluster w1) = view (cluster w) \<or>
        view (cluster w1) = abort_upd inp (view (cluster w)) \<and> in_key inp \<in> dom (v_aborts (view (cluster w)))"
      using Rollback_success [OF assms(1)] Rollback_failure [OF assms(1)] 1 by (cases e) blast+
    then show ?thesis by (auto simp: abort_upd_def split: if_splits)
  qed
  with Suc 1 show ?case by (auto split: prod.splits)
qed simp

section \<open>Properties\<close>

text \<open>
  The rollback remedy issues exactly one API call, the patch \<open>{"status":{"abort":true}}\<close> on
  the status of the target rollout in the configured namespace, for every client and cluster,
  and it returns nil exactly when that call succeeds, the call's error otherwise.
\<close>

theorem Rollback_single_patch:
  "calls (snd (Rollback_Apply inp w)) =
     calls w @ [PatchStatus argo_rollouts (in_key inp) abort_patch]
   \<and> cluster (snd (Rollback_Apply inp w)) =
     snd (patch_status (Client inp) argo_rollouts (in_key inp) abort_patch (cluster w))
   \<and> fst (Rollback_Apply inp w) =
     map_option (PatchRolloutError (in_key inp))
       (fst (patch_status (Client inp) argo_rollouts (in_key inp) abort_patch (cluster w)))"
  by (auto simp: Rollback_Apply_def Let_def do_patch_status_def issue_def
      split: prod.splits option.splits)

text \<open>
  The rollback remedy is idempotent under the documented API behaviour: however often it
  is applied, with or without failures in between, the only change is that the target
  rollout's \<open>status.abort\<close> is true, which it is once one application succeeded, and no rollout
  comes into being: success is only reported for one that exists.
\<close>

theorem Rollback_idempotent:
  assumes "kube_api (Client inp) view" "view_keys (view (cluster w))"
    "apply_times n Rollback_Apply inp w = (es, w')"
  shows "(view (cluster w') = abort_upd inp (view (cluster w))
     \<or> None \<notin> set es \<and> view (cluster w') = view (cluster w))
   \<and> dom (v_aborts (view (cluster w'))) = dom (v_aborts (view (cluster w)))"
  using rb.apply_times_converges [OF assms] Rollback_times_dom [OF assms(1,3)] by blast

theorem Rollback_idempotent_witness:
  "\<exists>es w'. apply_times 3 Rollback_Apply rollout_input rollout_world = (es, w')
     \<and> v_aborts (cluster w') (''reliability-lab'', ''orders-svc'') = Some True"
proof -
  obtain es w' where run: "apply_times 3 Rollback_Apply rollout_input rollout_world = (es, w')"
    by fastforce
  then have "None \<in> set es"
    using rollout_run by (auto simp: numeral_3_eq_3 split: prod.splits)
  with run Rollback_idempotent [OF rollout_input_api rollout_world_keys run] show ?thesis
    by (auto simp: abort_upd_def rollout_input_def)
qed

end
