(* ===== verification/Remedy_Scale.thy ===== *)
theory Remedy_Scale
  imports Remedy
begin

text \<open>
  The scale-up remedy (\<open>operator/internal/remedy/scale.go\<close>): it raises an autoscaler's
  \<open>minReplicas\<close> by a step, capped at \<open>maxReplicas\<close>, and does nothing when that would not raise
  it. The arithmetic is on signed 32-bit integers, as in the source. The lemmas bound every
  patch it can issue, give the effect of repeated applications, and show that it is not
  idempotent.
\<close>

section \<open>Model\<close>

definition scale_step :: "int32 \<Rightarrow> int32" where
  "scale_step Step = (if le32 Step 0 then 2 else Step)"

definition scale_current :: "hpa \<Rightarrow> int32" where
  "scale_current hpa = (case MinReplicas hpa of None \<Rightarrow> 0 | Some m \<Rightarrow> m)"

definition scale_target :: "int32 \<Rightarrow> hpa \<Rightarrow> int32" where
  "scale_target Step hpa =
    (let target = scale_current hpa + scale_step Step
     in if lt32 (MaxReplicas hpa) target then MaxReplicas hpa else target)"

definition ScaleUp_Apply :: "int32 \<Rightarrow> 'c remedy" where
  "ScaleUp_Apply Step inp w =
    (let key = in_key inp;
         (r, w1) = do_get_hpa (Client inp) key w
     in case r of
       Inl e \<Rightarrow> (Some (GetHPAError key e), w1)
     | Inr hpa \<Rightarrow>
         (let target = scale_target Step hpa
          in if le32 target (scale_current hpa) then
               (None, log LevelInfo ''scale-up no-op (already at or above target)'' w1)
             else
               (let (e, w2) = do_patch_hpa (Client inp) hpa (hpa\<lparr>MinReplicas := Some target\<rparr>) w1
                in case e of
                     Some err \<Rightarrow> (Some (PatchHPAError key err), w2)
                   | None \<Rightarrow> (None, log LevelInfo ''scale-up bumped HPA minReplicas'' w2))))"

text \<open>The abstract effect of one application on the autoscaler.\<close>

definition scale_hpa :: "int32 \<Rightarrow> hpa \<Rightarrow> hpa" where
  "scale_hpa Step h =
    (if le32 (scale_target Step h) (scale_current h) then h
     else h\<lparr>MinReplicas := Some (scale_target Step h)\<rparr>)"

definition scale_upd :: "int32 \<Rightarrow> 'c Input \<Rightarrow> kube_view \<Rightarrow> kube_view" where
  "scale_upd Step inp v = v\<lparr>v_hpas := (v_hpas v)(in_key inp :=
     map_option (scale_hpa Step) (v_hpas v (in_key inp)))\<rparr>"

section \<open>Arithmetic\<close>

lemma scale_step_pos: "0 < sint (scale_step Step)"
  by (auto simp: scale_step_def le32_def)

lemma scale_target_bounds:
  assumes "\<not> le32 (scale_target Step h) (scale_current h)"
  shows "sint (scale_current h) < sint (scale_target Step h)"
    and "sint (scale_target Step h) \<le> sint (MaxReplicas h)"
  using assms by (auto simp: scale_target_def le32_def lt32_def Let_def split: if_splits)

lemma scale_target_exact:
  assumes "sint (MaxReplicas h) + sint (scale_step Step) < 2 ^ 31"
    and "sint (scale_current h) \<le> sint (MaxReplicas h)"
  shows "sint (scale_target Step h) =
    min (sint (MaxReplicas h)) (sint (scale_current h) + sint (scale_step Step))"
proof -
  have "sint (scale_current h + scale_step Step) = sint (scale_current h) + sint (scale_step Step)"
    using assms scale_step_pos [of Step] sint32_range(1) [of "scale_current h"]
    by (simp add: sint32_add_wrap)
  then show ?thesis
    by (simp add: scale_target_def lt32_def Let_def)
qed

text \<open>A target above the current value has not wrapped around.\<close>

lemma scale_target_raises:
  assumes "\<not> le32 (scale_target Step h) (scale_current h)"
  shows "sint (scale_target Step h) = min (sint (MaxReplicas h))
    (sint (scale_current h) + (if sint Step \<le> 0 then 2 else sint Step))"
proof -
  have step: "sint (scale_step Step) = (if sint Step \<le> 0 then 2 else sint Step)"
    by (simp add: scale_step_def le32_def)
  show ?thesis
    using assms scale_step_pos [of Step] sint32_range [of "scale_current h"] sint32_range [of "scale_step Step"]
      sint32_range [of "MaxReplicas h"] sint32_add_wrap [of "scale_current h" "scale_step Step"]
    unfolding step [symmetric]
    by (auto simp: scale_target_def le32_def lt32_def Let_def split: if_splits)
qed

lemma scale_hpa_fields [simp]:
  "MaxReplicas (scale_hpa Step h) = MaxReplicas h" "hpa_key (scale_hpa Step h) = hpa_key h"
  by (simp_all add: scale_hpa_def)

lemma scale_hpa_current:
  assumes "sint (MaxReplicas h) + sint (scale_step Step) < 2 ^ 31"
    and "sint (scale_current h) \<le> sint (MaxReplicas h)"
  shows "sint (scale_current (scale_hpa Step h)) =
    min (sint (MaxReplicas h)) (sint (scale_current h) + sint (scale_step Step))"
proof (cases "le32 (scale_target Step h) (scale_current h)")
  case True
  then show ?thesis
    using scale_target_exact [OF assms] scale_step_pos [of Step] assms(2)
    by (auto simp: scale_hpa_def le32_def)
next
  case False
  then have "scale_current (scale_hpa Step h) = scale_target Step h"
    by (simp add: scale_hpa_def scale_current_def)
  then show ?thesis
    using scale_target_exact [OF assms] by simp
qed

lemma scale_hpa_times:
  assumes "sint (MaxReplicas h) + sint (scale_step Step) < 2 ^ 31"
    and "sint (scale_current h) \<le> sint (MaxReplicas h)"
  shows "MaxReplicas ((scale_hpa Step ^^ n) h) = MaxReplicas h \<and>
    sint (scale_current ((scale_hpa Step ^^ n) h)) =
      min (sint (MaxReplicas h)) (sint (scale_current h) + int n * sint (scale_step Step))"
proof (induction n)
  case 0
  then show ?case using assms by simp
next
  case (Suc n)
  have "sint (scale_current (scale_hpa Step ((scale_hpa Step ^^ n) h))) =
      min (sint (MaxReplicas h))
        (min (sint (MaxReplicas h)) (sint (scale_current h) + int n * sint (scale_step Step))
         + sint (scale_step Step))"
    using scale_hpa_current [of "(scale_hpa Step ^^ n) h" Step] Suc assms(1) by simp
  also have "\<dots> = min (sint (MaxReplicas h))
      (sint (scale_current h) + int (Suc n) * sint (scale_step Step))"
    using scale_step_pos [of Step] by (simp add: algebra_simps min_def)
  finally show ?case using Suc by simp
qed

lemma merge_scale:
  "\<not> le32 (scale_target Step h) (scale_current h) \<Longrightarrow>
   merge_hpa h (h\<lparr>MinReplicas := Some (scale_target Step h)\<rparr>) h = scale_hpa Step h"
  by (auto simp: merge_hpa_def scale_hpa_def scale_current_def le32_def)

section \<open>Effect on the cluster\<close>

lemma ScaleUp_found:
  assumes "do_get_hpa (Client inp) (in_key inp) w = (Inr h, w1)"
  shows "ScaleUp_Apply Step inp w =
    (if le32 (scale_target Step h) (scale_current h)
     then (None, log LevelInfo ''scale-up no-op (already at or above target)'' w1)
     else (let (e, w2) = do_patch_hpa (Client inp) h
             (h\<lparr>MinReplicas := Some (scale_target Step h)\<rparr>) w1
           in case e of
                Some err \<Rightarrow> (Some (PatchHPAError (in_key inp) err), w2)
              | None \<Rightarrow> (None, log LevelInfo ''scale-up bumped HPA minReplicas'' w2)))"
  using assms by (simp add: ScaleUp_Apply_def Let_def)

lemma ScaleUp_success:
  assumes api: "kube_api (Client inp) view" and keys: "view_keys (view (cluster w))"
    and run: "ScaleUp_Apply Step inp w = (None, w')"
  shows "view (cluster w') = scale_upd Step inp (view (cluster w))
    \<and> in_key inp \<in> dom (v_hpas (view (cluster w)))"
proof -
  obtain r w1 where g: "do_get_hpa (Client inp) (in_key inp) w = (r, w1)"
    by (cases "do_get_hpa (Client inp) (in_key inp) w")
  note rd = issue_read [OF g [unfolded do_get_hpa_def] kube_apiD(1) [OF api]]
  from run g obtain h where r: "r = Inr h"
    by (cases r) (auto simp: ScaleUp_Apply_def Let_def)
  have st: "v_hpas (view (cluster w)) (in_key inp) = Some h" and hk: "hpa_key h = in_key inp"
    using rd(2) [OF r] view_keysD(1) [OF keys] by simp_all
  show ?thesis
  proof (cases "le32 (scale_target Step h) (scale_current h)")
    case True
    then have "cluster w' = cluster w1"
      using run g r by (auto simp: ScaleUp_found)
    then show ?thesis
      using rd(1) st True
      by (auto simp: scale_upd_def scale_hpa_def fun_upd_idem)
  next
    case False
    then obtain w2 where p: "do_patch_hpa (Client inp) h
          (h\<lparr>MinReplicas := Some (scale_target Step h)\<rparr>) w1 = (None, w2)"
        and w': "cluster w' = cluster w2"
      using run g r by (auto simp: ScaleUp_found split: prod.splits option.splits)
    then show ?thesis
      using issue_write(1) [OF p [unfolded do_patch_hpa_def] kube_apiD(3) [OF api]] rd(1) st hk
        merge_scale [OF False]
      by (auto simp: view_patch_hpa_def scale_upd_def)
  qed
qed

lemma ScaleUp_failure:
  assumes api: "kube_api (Client inp) view" and keys: "view_keys (view (cluster w))"
    and run: "ScaleUp_Apply Step inp w = (Some e, w')"
  shows "view (cluster w') = view (cluster w) \<or>
    view (cluster w') = scale_upd Step inp (view (cluster w)) \<and> in_key inp \<in> dom (v_hpas (view (cluster w)))"
proof -
  obtain r w1 where g: "do_get_hpa (Client inp) (in_key inp) w = (r, w1)"
    by (cases "do_get_hpa (Client inp) (in_key inp) w")
  note rd = issue_read [OF g [unfolded do_get_hpa_def] kube_apiD(1) [OF api]]
  show ?thesis
  proof (cases r)
    case (Inl err)
    then show ?thesis using run g rd(1) by (auto simp: ScaleUp_Apply_def Let_def)
  next
    case (Inr h)
    have st: "v_hpas (view (cluster w)) (in_key inp) = Some h" and hk: "hpa_key h = in_key inp"
      using rd(2) [OF Inr] view_keysD(1) [OF keys] by simp_all
    have le: "\<not> le32 (scale_target Step h) (scale_current h)"
      using run g Inr by (auto simp: ScaleUp_found split: if_splits)
    then obtain err w2 where p: "do_patch_hpa (Client inp) h
        (h\<lparr>MinReplicas := Some (scale_target Step h)\<rparr>) w1 = (Some err, w2)"
      and w': "cluster w' = cluster w2"
      using run g Inr by (auto simp: ScaleUp_found split: prod.splits option.splits)
    show ?thesis
      using issue_write(2) [OF p [unfolded do_patch_hpa_def] kube_apiD(3) [OF api] refl] rd(1) st hk
        merge_scale [OF le] w'
      by (auto simp: view_patch_hpa_def scale_upd_def)
  qed
qed

lemma scale_upd_keys: "view_keys v \<Longrightarrow> view_keys (scale_upd Step inp v)"
proof (rule view_keysI)
  fix k h
  assume v: "view_keys v" and "v_hpas (scale_upd Step inp v) k = Some h"
  then show "hpa_key h = k"
    using view_keysD(1) [OF v] by (cases "k = in_key inp") (auto simp: scale_upd_def)
qed (auto simp: scale_upd_def dest: view_keysD)

interpretation su: remedy_effect "ScaleUp_Apply Step" "scale_upd Step" for Step
  by unfold_locales (use ScaleUp_success ScaleUp_failure scale_upd_keys in blast)+

lemma scale_upd_times:
  "v_hpas ((scale_upd Step inp ^^ n) v) (in_key inp) =
     map_option (scale_hpa Step ^^ n) (v_hpas v (in_key inp))"
  by (induction n) (simp_all add: scale_upd_def option.map_comp comp_def option.map_ident)

text \<open>An input and a world for the witnesses: the payments autoscaler at 2 of 10 replicas.\<close>

definition scale_input :: "kube_view Input" where
  "scale_input = \<lparr>Client = mem_client, Namespace = ''reliability-lab'',
     InDecision = \<lparr>Kind = ScaleUp, Target = ''payments-svc'', Reason = ''''\<rparr>\<rparr>"

definition payments_hpa :: hpa where
  "payments_hpa = \<lparr>hpa_key = (''reliability-lab'', ''payments-svc''),
     MinReplicas = Some 2, MaxReplicas = 10\<rparr>"

definition scale_world :: "kube_view world" where
  "scale_world = mem_world
     (empty_view\<lparr>v_hpas := [(''reliability-lab'', ''payments-svc'') \<mapsto> payments_hpa]\<rparr>)"

lemma scale_input_api: "kube_api (Client scale_input) id"
  by (simp add: scale_input_def kube_api_mem_client)

lemma scale_world_keys: "view_keys (id (cluster scale_world))"
  by (simp add: scale_world_def view_keys_def empty_view_def payments_hpa_def)

lemmas scale_eval = scale_input_def scale_world_def payments_hpa_def ScaleUp_Apply_def
  do_defs issue_def mem_defs mem_world_def view_defs Let_def scale_target_def
  scale_step_def scale_current_def le32_def lt32_def

section \<open>Properties\<close>



text \<open>
  Repeated applications of the scale-up remedy on an autoscaler whose minimum does not
  exceed its maximum raise the minimum by one step per application that had its effect, every
  successful one and perhaps some whose answer was lost, until it reaches the maximum, where it
  stays. (The maximum is assumed far enough below \<open>2\<^sup>3\<^sup>1\<close> that adding a step does not overflow.)
\<close>

theorem ScaleUp_converges:
  assumes api: "kube_api (Client inp) view" and keys: "view_keys (view (cluster w))"
    and run: "apply_times n (ScaleUp_Apply Step) inp w = (es, w')"
    and h: "v_hpas (view (cluster w)) (in_key inp) = Some h"
    and le: "sint (scale_current h) \<le> sint (MaxReplicas h)"
    and room: "sint (MaxReplicas h) + sint (scale_step Step) < 2 ^ 31"
  shows "\<exists>h' k. v_hpas (view (cluster w')) (in_key inp) = Some h'
    \<and> MaxReplicas h' = MaxReplicas h
    \<and> length (filter (\<lambda>e. e = None) es) \<le> k \<and> k \<le> n
    \<and> sint (scale_current h') = min (sint (MaxReplicas h))
        (sint (scale_current h) + int k * sint (scale_step Step))"
proof -
  obtain k where "length (filter (\<lambda>e. e = None) es) \<le> k" "k \<le> n"
    "view (cluster w') = (scale_upd Step inp ^^ k) (view (cluster w))"
    using su.apply_times_effect [OF api keys run] by blast
  then show ?thesis
    using scale_hpa_times [OF room le, of k] h by (auto simp: scale_upd_times)
qed

theorem ScaleUp_converges_witness:
  "\<exists>w' h'. apply_times 2 (ScaleUp_Apply 0) scale_input scale_world = ([None, None], w')
     \<and> v_hpas (cluster w') (in_key scale_input) = Some h' \<and> sint (scale_current h') = 6"
proof -
  obtain w' where run: "apply_times 2 (ScaleUp_Apply 0) scale_input scale_world = ([None, None], w')"
    by (simp add: scale_eval numeral_2_eq_2)
  have "v_hpas (id (cluster scale_world)) (in_key scale_input) = Some payments_hpa"
    and "sint (scale_current payments_hpa) = 2" "sint (MaxReplicas payments_hpa) = 10"
    and "sint (scale_step 0) = 2"
    by (simp_all add: scale_eval)
  then show ?thesis
    using run ScaleUp_converges [OF scale_input_api scale_world_keys run, of payments_hpa]
    by auto
qed

text \<open>
  The scale-up remedy is not idempotent, although the Remedy interface asks for it and
  the remedy's comment claims it: on an autoscaler at 2 of 10 replicas a second application
  raises the minimum again, from 4 to 6.
\<close>

theorem ScaleUp_not_idempotent:
  "fst (apply_times 2 (ScaleUp_Apply 0) scale_input scale_world) = [None, None]
   \<and> map_option MinReplicas (v_hpas (cluster (snd (apply_times 1 (ScaleUp_Apply 0)
        scale_input scale_world))) (''reliability-lab'', ''payments-svc'')) = Some (Some 4)
   \<and> map_option MinReplicas (v_hpas (cluster (snd (apply_times 2 (ScaleUp_Apply 0)
        scale_input scale_world))) (''reliability-lab'', ''payments-svc'')) = Some (Some 6)"
  by (simp add: scale_eval numeral_2_eq_2)

end
