(* ===== verification/Remedy_CircuitBreak.thy ===== *)
theory Remedy_CircuitBreak
  imports Remedy
begin

text \<open>
  The circuit-break remedy (\<open>operator/internal/remedy/circuitbreak.go\<close>): it writes
  \<open>publish_enabled=false\<close> into the flags ConfigMap, creating the ConfigMap if it is missing and
  doing nothing if the flag is already set. The lemmas give its exact sequence of API calls,
  its effect under the documented API behaviour, with a cache that may lag and writes whose answer
  may be lost, and its idempotence.
\<close>

section \<open>Model\<close>

definition flagKey :: string where
  "flagKey = ''publish_enabled''"

definition flagValuePaused :: string where
  "flagValuePaused = ''false''"

definition CircuitBreak_Apply :: "'c remedy" where
  "CircuitBreak_Apply inp w =
    (let key = in_key inp;
         (r, w1) = do_get_cm (Client inp) key w
     in case r of
       Inl e \<Rightarrow>
         if IsNotFound e then
           (let cm = \<lparr>cm_key = key, Data = Some [flagKey \<mapsto> flagValuePaused]\<rparr>;
                (e2, w2) = do_create_cm (Client inp) cm w1
            in case e2 of
                 Some err \<Rightarrow> (Some (CreateFlagsError key err), w2)
               | None \<Rightarrow> (None, log LevelInfo ''circuit-break engaged (configmap created)'' w2))
         else (Some (GetFlagsError key e), w1)
     | Inr cm \<Rightarrow>
         if go_get_nil (Data cm) flagKey = flagValuePaused then
           (None, log LevelInfo ''circuit-break already engaged (no-op)'' w1)
         else
           (let m = (case Data cm of None \<Rightarrow> Map.empty | Some m \<Rightarrow> m);
                cm' = cm\<lparr>Data := Some (m(flagKey \<mapsto> flagValuePaused))\<rparr>;
                (e2, w2) = do_patch_cm (Client inp) cm cm' w1
            in case e2 of
                 Some err \<Rightarrow> (Some (PatchFlagsError key err), w2)
               | None \<Rightarrow> (None, log LevelInfo ''circuit-break engaged'' w2)))"

text \<open>The abstract effect: the flag of the target ConfigMap reads \<open>false\<close>, everything else is
  as it was.\<close>

definition brake :: "nsname \<Rightarrow> config_map option \<Rightarrow> config_map" where
  "brake key stored = (case stored of
     None \<Rightarrow> \<lparr>cm_key = key, Data = Some [flagKey \<mapsto> flagValuePaused]\<rparr>
   | Some cm \<Rightarrow>
       if data_of cm flagKey = Some flagValuePaused then cm
       else cm\<lparr>Data := Some ((data_of cm)(flagKey \<mapsto> flagValuePaused))\<rparr>)"

definition brake_upd :: "'c Input \<Rightarrow> kube_view \<Rightarrow> kube_view" where
  "brake_upd inp v =
    v\<lparr>v_cms := (v_cms v)(in_key inp \<mapsto> brake (in_key inp) (v_cms v (in_key inp)))\<rparr>"

section \<open>Lemmas\<close>

lemma flag_values [simp]: "flagValuePaused \<noteq> []"
  by (simp add: flagValuePaused_def)

lemma go_get_nil_flag: "go_get_nil (Data cm) k = v \<longleftrightarrow> data_of cm k = Some v" if "v \<noteq> ''''"
  using that by (auto simp: go_get_nil_def go_get_def data_of_def split: option.splits)

lemma data_of_upd [simp]: "data_of (cm\<lparr>Data := Some m\<rparr>) = m"
  by (simp add: data_of_def)

lemma CircuitBreak_found:
  assumes "do_get_cm (Client inp) (in_key inp) w = (Inr cm, w1)"
  shows "CircuitBreak_Apply inp w =
    (if data_of cm flagKey = Some flagValuePaused
     then (None, log LevelInfo ''circuit-break already engaged (no-op)'' w1)
     else (let (e2, w2) = do_patch_cm (Client inp) cm
             (cm\<lparr>Data := Some ((data_of cm)(flagKey \<mapsto> flagValuePaused))\<rparr>) w1
           in case e2 of
                Some err \<Rightarrow> (Some (PatchFlagsError (in_key inp) err), w2)
              | None \<Rightarrow> (None, log LevelInfo ''circuit-break engaged'' w2)))"
  using assms by (simp add: CircuitBreak_Apply_def Let_def go_get_nil_flag data_of_def [of cm])

lemma brake_flag [simp]: "data_of (brake key stored) flagKey = Some flagValuePaused"
  by (auto simp: brake_def data_of_def split: option.splits)

lemma brake_other: "k \<noteq> flagKey \<Longrightarrow> data_of (brake key (Some cm)) k = data_of cm k"
  by (auto simp: brake_def data_of_def split: option.splits)

lemma brake_idem: "brake key (Some (brake key stored)) = brake key stored"
proof -
  have "brake key (Some cm) = cm" if "data_of cm flagKey = Some flagValuePaused" for cm
    using that by (simp add: brake_def)
  then show ?thesis by simp
qed

lemma brake_key: "(\<And>cm. stored = Some cm \<Longrightarrow> cm_key cm = key) \<Longrightarrow> cm_key (brake key stored) = key"
  by (auto simp: brake_def split: option.splits)

text \<open>The patch is computed from the object the cache showed and merged into the stored one.\<close>

lemma merge_brake:
  assumes "data_of cm flagKey \<noteq> Some flagValuePaused"
  shows "merge_cm cm (cm\<lparr>Data := Some ((data_of cm)(flagKey \<mapsto> flagValuePaused))\<rparr>) cur
       = brake key (Some cur)"
proof -
  have "merge_cm cm (cm\<lparr>Data := Some ((data_of cm)(flagKey \<mapsto> flagValuePaused))\<rparr>) cur
      = cur\<lparr>Data := Some ((data_of cur)(flagKey \<mapsto> flagValuePaused))\<rparr>"
    using assms by (auto simp: merge_cm_def fun_eq_iff)
  moreover have "cur\<lparr>Data := Some ((data_of cur)(flagKey \<mapsto> flagValuePaused))\<rparr> = cur"
    if "data_of cur flagKey = Some flagValuePaused"
    using that by (cases "Data cur") (auto simp: data_of_def fun_upd_idem)
  ultimately show ?thesis by (simp add: brake_def)
qed

text \<open>The remedy against a cache that may lag: its write, if it makes one, has the brake's effect
  on the stored object or none, and when it returns nil without that effect the cache showed the
  flag as set.\<close>

lemma CircuitBreak_effect:
  assumes api: "kube_cache (Client inp) view cached" and keys: "view_keys (cached (cluster w))"
    and run: "CircuitBreak_Apply inp w = (err, w')"
  shows "view (cluster w') = brake_upd inp (view (cluster w))
    \<or> view (cluster w') = view (cluster w) \<and>
      (err = None \<longrightarrow> (\<exists>cm. v_cms (cached (cluster w)) (in_key inp) = Some cm
                          \<and> data_of cm flagKey = Some flagValuePaused))"
proof -
  define key where "key = in_key inp"
  obtain r w1 where g: "do_get_cm (Client inp) key w = (r, w1)"
    by (cases "do_get_cm (Client inp) key w")
  note rd = issue_read [OF g [unfolded do_get_cm_def] kube_cacheD(2) [OF api]]
  show ?thesis
  proof (cases r)
    case (Inl e)
    show ?thesis
    proof (cases "e = NotFound")
      case True
      let ?cm = "\<lparr>cm_key = key, Data = Some [flagKey \<mapsto> flagValuePaused]\<rparr>"
      obtain e2 w2 where c: "do_create_cm (Client inp) ?cm w1 = (e2, w2)" by fastforce
      have e: "err = map_option (CreateFlagsError key) e2" "cluster w' = cluster w2"
        using run g Inl True c
        by (auto simp: CircuitBreak_Apply_def Let_def IsNotFound_def key_def split: option.splits)
      have "view_create_cm ?cm v = Some v' \<Longrightarrow> v' = brake_upd inp v" for v v'
        by (auto simp: view_create_cm_def brake_upd_def brake_def split: option.splits simp flip: key_def)
      then show ?thesis
        using issue_write [OF c [unfolded do_create_cm_def] kube_cacheD(4) [OF api]] rd(1) e
        by (cases e2) auto
    next
      case False
      then show ?thesis
        using run g Inl rd(1) by (auto simp: CircuitBreak_Apply_def Let_def IsNotFound_def key_def)
    qed
  next
    case (Inr cm)
    then have st: "v_cms (cached (cluster w)) key = Some cm" and ck: "cm_key cm = key"
      using rd(2) [OF Inr] view_keysD(2) [OF keys] by simp_all
    show ?thesis
    proof (cases "data_of cm flagKey = Some flagValuePaused")
      case True
      then show ?thesis
        using run g Inr rd(1) st by (auto simp: CircuitBreak_found key_def)
    next
      case False
      let ?cm = "cm\<lparr>Data := Some ((data_of cm)(flagKey \<mapsto> flagValuePaused))\<rparr>"
      obtain e2 w2 where p: "do_patch_cm (Client inp) cm ?cm w1 = (e2, w2)" by fastforce
      have e: "err = map_option (PatchFlagsError key) e2" "cluster w' = cluster w2"
        using run g Inr False p by (auto simp: CircuitBreak_found key_def split: option.splits)
      have "view_patch_cm cm ?cm v = Some v' \<Longrightarrow> v' = brake_upd inp v" for v v'
        using ck merge_brake [OF False]
        by (auto simp: view_patch_cm_def brake_upd_def split: option.splits simp flip: key_def)
      then show ?thesis
        using issue_write [OF p [unfolded do_patch_cm_def] kube_cacheD(5) [OF api]] rd(1) e
        by (cases e2) auto
    qed
  qed
qed

lemma CircuitBreak_success:
  assumes "kube_api (Client inp) view" "view_keys (view (cluster w))"
    and "CircuitBreak_Apply inp w = (None, w')"
  shows "view (cluster w') = brake_upd inp (view (cluster w))"
  using CircuitBreak_effect [OF assms(1) [unfolded kube_api_def] assms(2,3)]
  by (auto simp: brake_upd_def brake_def fun_upd_idem)

lemma CircuitBreak_failure:
  assumes "kube_api (Client inp) view" "view_keys (view (cluster w))"
    and "CircuitBreak_Apply inp w = (Some e, w')"
  shows "view (cluster w') = view (cluster w) \<or> view (cluster w') = brake_upd inp (view (cluster w))"
  using CircuitBreak_effect [OF assms(1) [unfolded kube_api_def] assms(2,3)] by blast

lemma brake_upd_keys: "view_keys v \<Longrightarrow> view_keys (brake_upd inp v)"
proof (rule view_keysI)
  fix k m
  assume v: "view_keys v" and "v_cms (brake_upd inp v) k = Some m"
  then show "cm_key m = k"
    using brake_key [of "v_cms v (in_key inp)" "in_key inp"] view_keysD(2) [OF v]
    by (cases "k = in_key inp") (auto simp: brake_upd_def)
qed (auto simp: brake_upd_def dest: view_keysD)

lemma brake_upd_idem: "brake_upd inp (brake_upd inp v) = brake_upd inp v"
  by (simp add: brake_upd_def brake_idem)

interpretation cb: idempotent_remedy CircuitBreak_Apply brake_upd
  by unfold_locales
    (use CircuitBreak_success CircuitBreak_failure brake_upd_keys brake_upd_idem in blast)+

text \<open>An input for the witnesses: the flags ConfigMap of a namespace on the in-memory store.\<close>

definition flags_input :: "kube_view Input" where
  "flags_input = \<lparr>Client = mem_client, Namespace = ''reliability-lab'',
     InDecision = \<lparr>Kind = CircuitBreak, Target = ''orders-svc-flags'', Reason = ''''\<rparr>\<rparr>"

lemma flags_input_api: "kube_api (Client flags_input) id"
  by (simp add: flags_input_def kube_api_mem_client)

lemma flags_input_run:
  "fst (CircuitBreak_Apply flags_input (mem_world empty_view)) = None"
  by (simp add: flags_input_def CircuitBreak_Apply_def do_defs issue_def mem_defs mem_world_def
        empty_view_def IsNotFound_def view_defs Let_def)

section \<open>Properties\<close>

text \<open>
  C7: what the circuit-break remedy does to the cluster, whatever it returns and however far the
  cache it reads from is behind. Either no stored object changes, or the target ConfigMap's
  \<open>publish_enabled\<close> now reads \<open>false\<close> (also if the ConfigMap was missing or had no data) while every
  other key of it and every other object are kept. When it returns nil, the stored flag reads
  \<open>false\<close> or the cache still showed it as \<open>false\<close>; so if the cache was up to date for this
  ConfigMap, a nil result means that the brake is on.
\<close>

theorem CircuitBreak_engages:
  assumes "kube_cache (Client inp) view cached" "view_keys (cached (cluster w))"
    "CircuitBreak_Apply inp w = (err, w')"
  shows "(view (cluster w') = view (cluster w) \<or>
      (\<exists>cm. v_cms (view (cluster w')) (in_key inp) = Some cm
          \<and> data_of cm flagKey = Some flagValuePaused
          \<and> (\<forall>k old. v_cms (view (cluster w)) (in_key inp) = Some old \<and> k \<noteq> flagKey \<longrightarrow>
               data_of cm k = data_of old k))
      \<and> (\<forall>k. k \<noteq> in_key inp \<longrightarrow> v_cms (view (cluster w')) k = v_cms (view (cluster w)) k)
      \<and> v_hpas (view (cluster w')) = v_hpas (view (cluster w))
      \<and> v_aborts (view (cluster w')) = v_aborts (view (cluster w)))
    \<and> (err = None \<longrightarrow>
        (\<exists>cm \<in> {v_cms (view (cluster w')) (in_key inp), v_cms (cached (cluster w)) (in_key inp)}.
           Option.bind cm (\<lambda>m. data_of m flagKey) = Some flagValuePaused))
    \<and> (err = None \<and> v_cms (cached (cluster w)) (in_key inp) = v_cms (view (cluster w)) (in_key inp) \<longrightarrow>
        Option.bind (v_cms (view (cluster w')) (in_key inp)) (\<lambda>m. data_of m flagKey) = Some flagValuePaused)"
  using CircuitBreak_effect [OF assms]
proof
  assume "view (cluster w') = brake_upd inp (view (cluster w))"
  then show ?thesis by (auto simp: brake_upd_def brake_other)
next
  assume "view (cluster w') = view (cluster w) \<and>
      (err = None \<longrightarrow> (\<exists>cm. v_cms (cached (cluster w)) (in_key inp) = Some cm
                          \<and> data_of cm flagKey = Some flagValuePaused))"
  then show ?thesis by auto
qed

theorem CircuitBreak_engages_witness:
  "\<exists>cm. v_cms (cluster (snd (CircuitBreak_Apply flags_input (mem_world empty_view))))
          (''reliability-lab'', ''orders-svc-flags'') = Some cm
     \<and> data_of cm flagKey = Some flagValuePaused"
proof -
  obtain w' where run: "CircuitBreak_Apply flags_input (mem_world empty_view) = (None, w')"
    using flags_input_run by (metis prod.collapse)
  have "Option.bind (v_cms (cluster w') (in_key flags_input)) (\<lambda>m. data_of m flagKey) = Some flagValuePaused"
    using CircuitBreak_engages [OF flags_input_api [unfolded kube_api_def] _ run] by auto
  then show ?thesis
    using run by (auto simp: flags_input_def Option.bind_eq_Some_conv)
qed

text \<open>
  With any client and any cluster, failing or not, one application of the circuit-break
  remedy reads the target ConfigMap once and issues at most one write, and that write does
  nothing but set \<open>publish_enabled\<close> to \<open>false\<close>: it creates the ConfigMap with that single entry
  or patches the object it read in that single entry. It never clears the flag.
\<close>

theorem CircuitBreak_calls:
  assumes "CircuitBreak_Apply inp w = (e, w')"
  shows "calls w' = calls w @ [GetConfigMap (in_key inp)]
    \<or> calls w' = calls w @ [GetConfigMap (in_key inp),
        CreateConfigMap \<lparr>cm_key = in_key inp, Data = Some [flagKey \<mapsto> flagValuePaused]\<rparr>]
    \<or> (\<exists>cm cm'. calls w' = calls w @ [GetConfigMap (in_key inp), PatchConfigMap cm cm']
         \<and> cm_key cm' = cm_key cm
         \<and> data_of cm flagKey \<noteq> Some flagValuePaused
         \<and> data_of cm' = (data_of cm)(flagKey \<mapsto> flagValuePaused))"
proof -
  obtain r w1 where g: "do_get_cm (Client inp) (in_key inp) w = (r, w1)"
    by (cases "do_get_cm (Client inp) (in_key inp) w")
  then have c1: "calls w1 = calls w @ [GetConfigMap (in_key inp)]"
    by (auto simp: do_get_cm_def dest: issueD)
  show ?thesis
  proof (cases r)
    case (Inl err)
    then show ?thesis
      using assms g c1
      by (auto simp: CircuitBreak_Apply_def Let_def do_create_cm_def dest!: issueD
          split: if_splits prod.splits option.splits)
  next
    case (Inr cm)
    then show ?thesis
      using assms g c1
      by (auto simp: CircuitBreak_found do_patch_cm_def dest!: issueD
          split: if_splits prod.splits option.splits)
  qed
qed

theorem CircuitBreak_calls_witness:
  "\<exists>c. calls (snd (CircuitBreak_Apply flags_input (mem_world empty_view))) =
     [GetConfigMap (''reliability-lab'', ''orders-svc-flags''), c]"
  using CircuitBreak_calls [OF prod.collapse [symmetric], of flags_input "mem_world empty_view"]
  by (auto simp: CircuitBreak_Apply_def do_defs issue_def mem_defs mem_world_def
        empty_view_def IsNotFound_def view_defs flags_input_def Let_def)

text \<open>
  The circuit-break remedy is idempotent, as the Remedy interface demands: with fresh reads any
  number of applications, some of which may fail, leaves the cluster as a single successful one
  would, and untouched only if all of them failed.
\<close>

theorem CircuitBreak_idempotent:
  assumes "kube_api (Client inp) view" "view_keys (view (cluster w))"
    "apply_times n CircuitBreak_Apply inp w = (es, w')"
  shows "view (cluster w') = brake_upd inp (view (cluster w))
    \<or> None \<notin> set es \<and> view (cluster w') = view (cluster w)"
  by (rule cb.apply_times_converges [OF assms])

theorem CircuitBreak_idempotent_witness:
  "\<exists>es w'. apply_times 2 CircuitBreak_Apply flags_input (mem_world empty_view) = (es, w')
     \<and> None \<in> set es \<and> cluster w' = brake_upd flags_input empty_view"
proof -
  obtain es w' where run: "apply_times 2 CircuitBreak_Apply flags_input (mem_world empty_view)
      = (es, w')" by fastforce
  then have "None \<in> set es"
    using flags_input_run by (auto simp: numeral_2_eq_2 split: prod.splits)
  with run CircuitBreak_idempotent [OF flags_input_api _ run] show ?thesis by auto
qed

end
