(* ===== verification/Go_JSON.thy ===== *)
theory Go_JSON
  imports Go_Strings
begin

text \<open>
  The parts of \<open>encoding/json\<close> the program uses: the byte-by-byte scanner with its stack of
  open containers, the conversion of string literals, decoding into structs, maps, slices,
  strings and integers, and the encoding of strings. \<open>Decode\<close> is \<open>json.Decoder.Decode\<close>, which
  reads one value and ignores what follows it; \<open>Unmarshal\<close> wants nothing but white space after
  the value. The lemmas show that an encoded string scans and converts back to itself.

  A syntax tree keeps string and number literals as they are written: conversion happens when
  a literal is decoded into a field, as in the Go package.
\<close>

section \<open>Syntax trees and the scanner\<close>

datatype json =
  JNull
| JBool bool
| JNum string
| JStr string
| JArr "json list"
| JObj "(string \<times> json) list"

datatype num_state = NNeg | NZero | NInt | NDot | NFrac | NExp | NExpSign | NExpDigit

datatype str_state = SPlain | SEsc | SHex nat

datatype mode =
  MValue
| MValueOrEnd
| MKeyOrEnd
| MKey
| MColon
| MStr bool string str_state
| MNum num_state string
| MLit string json
| MAfter json

datatype frame = FArr "json list" | FKey "(string \<times> json) list" | FVal "(string \<times> json) list" string

definition maxNestingDepth :: nat where
  "maxNestingDepth = 10000"

definition is_ws :: "char \<Rightarrow> bool" where
  "is_ws c \<longleftrightarrow> c = CHR 0x20 \<or> c = CHR 0x09 \<or> c = CHR 0x0D \<or> c = CHR 0x0A"

definition is_hex :: "char \<Rightarrow> bool" where
  "is_hex c \<longleftrightarrow> is_digit c \<or> 97 \<le> byte c \<and> byte c \<le> 102 \<or> 65 \<le> byte c \<and> byte c \<le> 70"

fun num_next :: "num_state \<Rightarrow> char \<Rightarrow> num_state option" where
  "num_next NNeg c = (if c = CHR ''0'' then Some NZero else if is_digit c then Some NInt else None)"
| "num_next NZero c = (if c = CHR ''.'' then Some NDot
     else if c = CHR ''e'' \<or> c = CHR ''E'' then Some NExp else None)"
| "num_next NInt c = (if is_digit c then Some NInt else if c = CHR ''.'' then Some NDot
     else if c = CHR ''e'' \<or> c = CHR ''E'' then Some NExp else None)"
| "num_next NDot c = (if is_digit c then Some NFrac else None)"
| "num_next NFrac c = (if is_digit c then Some NFrac
     else if c = CHR ''e'' \<or> c = CHR ''E'' then Some NExp else None)"
| "num_next NExp c = (if c = CHR ''+'' \<or> c = CHR ''-'' then Some NExpSign
     else if is_digit c then Some NExpDigit else None)"
| "num_next NExpSign c = (if is_digit c then Some NExpDigit else None)"
| "num_next NExpDigit c = (if is_digit c then Some NExpDigit else None)"

definition num_final :: "num_state \<Rightarrow> bool" where
  "num_final n \<longleftrightarrow> n = NZero \<or> n = NInt \<or> n = NFrac \<or> n = NExpDigit"

definition begin_value :: "frame list \<Rightarrow> char \<Rightarrow> (mode \<times> frame list) option" where
  "begin_value st c =
    (if is_ws c then Some (MValue, st)
     else if c = CHR 0x7B then
       (if length st < maxNestingDepth then Some (MKeyOrEnd, FKey [] # st) else None)
     else if c = CHR 0x5B then
       (if length st < maxNestingDepth then Some (MValueOrEnd, FArr [] # st) else None)
     else if c = CHR 0x22 then Some (MStr False [] SPlain, st)
     else if c = CHR ''-'' then Some (MNum NNeg [c], st)
     else if c = CHR ''0'' then Some (MNum NZero [c], st)
     else if is_digit c then Some (MNum NInt [c], st)
     else if c = CHR ''t'' then Some (MLit ''rue'' (JBool True), st)
     else if c = CHR ''f'' then Some (MLit ''alse'' (JBool False), st)
     else if c = CHR ''n'' then Some (MLit ''ull'' JNull, st)
     else None)"

definition step_string ::
    "bool \<Rightarrow> string \<Rightarrow> str_state \<Rightarrow> frame list \<Rightarrow> char \<Rightarrow> (mode \<times> frame list) option" where
  "step_string key acc s st c = (case s of
     SPlain \<Rightarrow>
       if c = CHR 0x22 then
         (if key then
            (case st of FKey ms # st' \<Rightarrow> Some (MColon, FVal ms (rev acc) # st') | _ \<Rightarrow> None)
          else Some (MAfter (JStr (rev acc)), st))
       else if c = CHR 0x5C then Some (MStr key (c # acc) SEsc, st)
       else if byte c < 0x20 then None
       else Some (MStr key (c # acc) SPlain, st)
   | SEsc \<Rightarrow>
       if c = CHR ''u'' then Some (MStr key (c # acc) (SHex 3), st)
       else if c \<in> set [CHR ''b'', CHR ''f'', CHR ''n'', CHR ''r'', CHR ''t'', CHR 0x5C, CHR ''/'',
                        CHR 0x22]
         then Some (MStr key (c # acc) SPlain, st)
       else None
   | SHex n \<Rightarrow>
       if is_hex c then
         Some (MStr key (c # acc) (if n = 0 then SPlain else SHex (n - 1)), st)
       else None)"

text \<open>After a complete value inside a container.\<close>

definition end_value :: "json \<Rightarrow> frame list \<Rightarrow> char \<Rightarrow> (mode \<times> frame list) option" where
  "end_value v st c =
    (if is_ws c then Some (MAfter v, st)
     else (case st of
       FArr xs # st' \<Rightarrow>
         if c = CHR '','' then Some (MValue, FArr (v # xs) # st')
         else if c = CHR 0x5D then Some (MAfter (JArr (rev (v # xs))), st')
         else None
     | FVal ms k # st' \<Rightarrow>
         if c = CHR '','' then Some (MKey, FKey ((k, v) # ms) # st')
         else if c = CHR 0x7D then Some (MAfter (JObj (rev ((k, v) # ms))), st')
         else None
     | _ \<Rightarrow> None))"

fun scan_step :: "mode \<Rightarrow> frame list \<Rightarrow> char \<Rightarrow> (mode \<times> frame list) option" where
  "scan_step MValue st c = begin_value st c"
| "scan_step MValueOrEnd st c =
    (if is_ws c then Some (MValueOrEnd, st)
     else if c = CHR 0x5D then
       (case st of FArr xs # st' \<Rightarrow> Some (MAfter (JArr (rev xs)), st') | _ \<Rightarrow> None)
     else begin_value st c)"
| "scan_step MKeyOrEnd st c =
    (if is_ws c then Some (MKeyOrEnd, st)
     else if c = CHR 0x22 then Some (MStr True [] SPlain, st)
     else if c = CHR 0x7D then
       (case st of FKey ms # st' \<Rightarrow> Some (MAfter (JObj (rev ms)), st') | _ \<Rightarrow> None)
     else None)"
| "scan_step MKey st c =
    (if is_ws c then Some (MKey, st)
     else if c = CHR 0x22 then Some (MStr True [] SPlain, st) else None)"
| "scan_step MColon st c =
    (if is_ws c then Some (MColon, st) else if c = CHR '':'' then Some (MValue, st) else None)"
| "scan_step (MStr key acc s) st c = step_string key acc s st c"
| "scan_step (MNum n acc) st c =
    (case num_next n c of
       Some n' \<Rightarrow> Some (MNum n' (c # acc), st)
     | None \<Rightarrow> if num_final n then end_value (JNum (rev acc)) st c else None)"
| "scan_step (MLit [] v) st c = None"
| "scan_step (MLit (x # xs) v) st c =
    (if c = x then Some (if xs = [] then MAfter v else MLit xs v, st) else None)"
| "scan_step (MAfter v) st c = end_value v st c"

text \<open>The value a top-level scan has completed when it meets the next byte, if any: a number
  ends at the first byte that does not continue it.\<close>

definition top_value :: "mode \<Rightarrow> frame list \<Rightarrow> char option \<Rightarrow> json option" where
  "top_value m st next = (case st of
     [] \<Rightarrow> (case m of
        MAfter v \<Rightarrow> Some v
      | MNum n acc \<Rightarrow>
          (if num_final n \<and> (case next of None \<Rightarrow> True | Some c \<Rightarrow> num_next n c = None)
           then Some (JNum (rev acc)) else None)
      | _ \<Rightarrow> None)
   | _ \<Rightarrow> None)"

fun scan :: "mode \<Rightarrow> frame list \<Rightarrow> string \<Rightarrow> (json \<times> string) option" where
  "scan m st [] = (case top_value m st None of Some v \<Rightarrow> Some (v, []) | None \<Rightarrow> None)"
| "scan m st (c # cs) =
    (case top_value m st (Some c) of
       Some v \<Rightarrow> Some (v, c # cs)
     | None \<Rightarrow>
        (case scan_step m st c of
           None \<Rightarrow> None
         | Some (m', st') \<Rightarrow> scan m' st' cs))"

section \<open>String literals\<close>

definition hex_value :: "char \<Rightarrow> nat" where
  "hex_value c = (if is_digit c then byte c - 48 else if 97 \<le> byte c then byte c - 87
                  else byte c - 55)"

definition hex4 :: "char \<Rightarrow> char \<Rightarrow> char \<Rightarrow> char \<Rightarrow> nat" where
  "hex4 a b c d = hex_value a * 4096 + hex_value b * 256 + hex_value c * 16 + hex_value d"

text \<open>\<open>getu4\<close>: the code unit of a leading \<open>\uXXXX\<close> escape.\<close>

fun getu4 :: "string \<Rightarrow> nat option" where
  "getu4 (s # u # a # b # c # d # rest) =
    (if s = CHR 0x5C \<and> u = CHR ''u'' \<and> is_hex a \<and> is_hex b \<and> is_hex c \<and> is_hex d
     then Some (hex4 a b c d) else None)"
| "getu4 _ = None"

definition is_surrogate :: "nat \<Rightarrow> bool" where
  "is_surrogate r \<longleftrightarrow> 0xD800 \<le> r \<and> r < 0xE000"

definition utf16_pair :: "nat \<Rightarrow> nat option \<Rightarrow> nat option" where
  "utf16_pair r next = (case next of
     Some r' \<Rightarrow>
       if 0xD800 \<le> r \<and> r < 0xDC00 \<and> 0xDC00 \<le> r' \<and> r' < 0xE000
       then Some ((r - 0xD800) * 1024 + (r' - 0xDC00) + 0x10000) else None
   | None \<Rightarrow> None)"

definition simple_escape :: "char \<Rightarrow> char" where
  "simple_escape e =
    (if e = CHR ''b'' then CHR 0x08 else if e = CHR ''f'' then CHR 0x0C
     else if e = CHR ''n'' then CHR 0x0A else if e = CHR ''r'' then CHR 0x0D
     else if e = CHR ''t'' then CHR 0x09 else e)"

text \<open>\<open>unquote\<close> on the text between the quotes of a scanned literal: how many bytes are read
  next and what they stand for.\<close>

definition unquote_next :: "string \<Rightarrow> string \<times> nat" where
  "unquote_next s = (case s of
     [] \<Rightarrow> ([], 0)
   | c # t \<Rightarrow>
      if c = CHR 0x5C then
        (case getu4 s of
           Some r \<Rightarrow>
             if is_surrogate r then
               (case utf16_pair r (getu4 (drop 6 s)) of
                  Some r2 \<Rightarrow> (EncodeRune r2, 12)
                | None \<Rightarrow> (EncodeRune RuneError, 6))
             else (EncodeRune r, 6)
         | None \<Rightarrow> (case t of e # _ \<Rightarrow> ([simple_escape e], 2) | [] \<Rightarrow> ([], 1)))
      else if byte c < 0x80 then ([c], 1)
      else (let (r, w) = DecodeRune s in (EncodeRune r, max 1 w)))"

function unquote :: "string \<Rightarrow> string" where
  "unquote s = (if s = [] then []
     else fst (unquote_next s) @ unquote (drop (max 1 (snd (unquote_next s))) s))"
  by pat_completeness auto
termination
  by (relation "measure length") auto

declare unquote.simps [simp del]

section \<open>Encoding strings\<close>

text \<open>One source code point of \<open>appendString\<close> with HTML escaping, as \<open>Marshal\<close> and \<open>Encoder\<close>
  use it.\<close>

definition encode_next :: "string \<Rightarrow> string \<times> nat" where
  "encode_next s = (case s of
     [] \<Rightarrow> ([], 0)
   | c # _ \<Rightarrow>
      let b = byte c in
      if b < 0x80 then
        (if b = 0x22 \<or> b = 0x5C then [CHR 0x5C, c]
         else if b = 8 then CHR 0x5C # ''b''
         else if b = 12 then CHR 0x5C # ''f''
         else if b = 10 then CHR 0x5C # ''n''
         else if b = 13 then CHR 0x5C # ''r''
         else if b = 9 then CHR 0x5C # ''t''
         else if b < 0x20 \<or> b = 0x3C \<or> b = 0x3E \<or> b = 0x26
           then CHR 0x5C # ''u00'' @ hex_pad 2 b
         else [c], 1)
      else (let (r, w) = DecodeRune s in
        if r = RuneError \<and> w \<le> 1 then (CHR 0x5C # ''ufffd'', 1)
        else if r = 0x2028 \<or> r = 0x2029 then (CHR 0x5C # ''u202'' @ [hex_digit (r mod 16)], w)
        else (take w s, w)))"

function encode_body :: "string \<Rightarrow> string" where
  "encode_body s = (if s = [] then []
     else fst (encode_next s) @ encode_body (drop (max 1 (snd (encode_next s))) s))"
  by pat_completeness auto
termination
  by (relation "measure length") auto

declare encode_body.simps [simp del]

definition encode_string :: "string \<Rightarrow> string" where
  "encode_string s = CHR 0x22 # encode_body s @ [CHR 0x22]"

text \<open>What survives a round trip: every byte that is not part of a valid UTF-8 sequence is
  replaced by U+FFFD.\<close>

function to_valid :: "string \<Rightarrow> string" where
  "to_valid s = (if s = [] then []
     else EncodeRune (fst (DecodeRune s)) @ to_valid (drop (max 1 (snd (DecodeRune s))) s))"
  by pat_completeness auto
termination
  by (relation "measure length") auto

declare to_valid.simps [simp del]

section \<open>Decoding into Go values\<close>

text \<open>A decoder takes a tree and the current value of its target and returns the new value
  and whether it was free of type errors. \<open>encoding/json\<close> goes on after a type error and
  reports the first one at the end.\<close>

type_synonym 'a dec = "json \<Rightarrow> 'a \<Rightarrow> 'a \<times> bool"

definition dec_string :: "string dec" where
  "dec_string j old = (case j of
     JNull \<Rightarrow> (old, True) | JStr raw \<Rightarrow> (unquote raw, True) | _ \<Rightarrow> (old, False))"

definition parse_int :: "nat \<Rightarrow> string \<Rightarrow> int option" where
  "parse_int bits lit =
    (let (neg, ds) = (case lit of c # cs \<Rightarrow> if c = CHR ''-'' then (True, cs) else (False, lit)
                                | [] \<Rightarrow> (False, []));
         v = (if neg then - int (digits_value ds) else int (digits_value ds))
     in if ds \<noteq> [] \<and> list_all is_digit ds \<and> - (2 ^ (bits - 1)) \<le> v \<and> v < 2 ^ (bits - 1)
        then Some v else None)"

definition dec_int32 :: "int32 dec" where
  "dec_int32 j old = (case j of
     JNull \<Rightarrow> (old, True)
   | JNum lit \<Rightarrow> (case parse_int 32 lit of Some v \<Rightarrow> (word_of_int v, True) | None \<Rightarrow> (old, False))
   | _ \<Rightarrow> (old, False))"

definition dec_int64 :: "int64 dec" where
  "dec_int64 j old = (case j of
     JNull \<Rightarrow> (old, True)
   | JNum lit \<Rightarrow> (case parse_int 64 lit of Some v \<Rightarrow> (word_of_int v, True) | None \<Rightarrow> (old, False))
   | _ \<Rightarrow> (old, False))"

text \<open>A \<open>map[string]string\<close>; nil is \<open>None\<close>.\<close>

fun dec_entries :: "(string \<times> json) list \<Rightarrow> (string \<rightharpoonup> string) \<Rightarrow> (string \<rightharpoonup> string) \<times> bool" where
  "dec_entries [] m = (m, True)"
| "dec_entries ((k, j) # es) m =
    (let (v, ok) = dec_string j ''''; (m', ok') = dec_entries es (m(unquote k \<mapsto> v))
     in (m', ok \<and> ok'))"

definition dec_map :: "(string \<rightharpoonup> string) option dec" where
  "dec_map j old = (case j of
     JNull \<Rightarrow> (None, True)
   | JObj es \<Rightarrow>
      (let (m, ok) = dec_entries es (case old of None \<Rightarrow> (\<lambda>_. None) | Some m \<Rightarrow> m) in (Some m, ok))
   | _ \<Rightarrow> (old, False))"

text \<open>A slice: element \<open>i\<close> is decoded into the old element \<open>i\<close> where there is one, into the
  zero value otherwise. (A third occurrence of the same field could also see elements that an
  earlier, longer one left in the backing array; this is not modelled.)\<close>

fun dec_elems :: "'a dec \<Rightarrow> 'a \<Rightarrow> json list \<Rightarrow> 'a list \<Rightarrow> 'a list \<times> bool" where
  "dec_elems d zero [] old = ([], True)"
| "dec_elems d zero (j # js) old =
    (let (v, ok) = d j (case old of [] \<Rightarrow> zero | x # _ \<Rightarrow> x);
         (vs, ok') = dec_elems d zero js (tl old)
     in (v # vs, ok \<and> ok'))"

definition dec_slice :: "'a dec \<Rightarrow> 'a \<Rightarrow> 'a list dec" where
  "dec_slice d zero j old = (case j of
     JNull \<Rightarrow> ([], True) | JArr js \<Rightarrow> dec_elems d zero js old | _ \<Rightarrow> (old, False))"

text \<open>Field names match exactly or up to case folding; among non-ASCII code points only the
  long s (U+017F) and the Kelvin sign (U+212A) fold to ASCII.\<close>

fun fold_name :: "string \<Rightarrow> string" where
  "fold_name [] = []"
| "fold_name (c # cs) =
    (if 97 \<le> byte c \<and> byte c \<le> 122 then char_of (byte c - 32) # fold_name cs
     else if byte c = 0xC5 \<and> map byte (take 1 cs) = [0xBF] then CHR ''S'' # fold_name (drop 1 cs)
     else if byte c = 0xE2 \<and> map byte (take 2 cs) = [0x84, 0xAA] then CHR ''K'' # fold_name (drop 2 cs)
     else c # fold_name cs)"

definition find_field :: "(string \<times> 'd) list \<Rightarrow> string \<Rightarrow> 'd option" where
  "find_field fs key = (case map_of fs key of
     Some d \<Rightarrow> Some d
   | None \<Rightarrow> map_of (map (\<lambda>(n, d). (fold_name n, d)) fs) (fold_name key))"

fun dec_members :: "(string \<times> 'r dec) list \<Rightarrow> (string \<times> json) list \<Rightarrow> 'r \<Rightarrow> 'r \<times> bool" where
  "dec_members fs [] r = (r, True)"
| "dec_members fs ((k, j) # ms) r =
    (let (r1, ok) = (case find_field fs (unquote k) of None \<Rightarrow> (r, True) | Some d \<Rightarrow> d j r);
         (r2, ok') = dec_members fs ms r1
     in (r2, ok \<and> ok'))"

definition dec_struct :: "(string \<times> 'r dec) list \<Rightarrow> 'r dec" where
  "dec_struct fs j old = (case j of
     JNull \<Rightarrow> (old, True) | JObj ms \<Rightarrow> dec_members fs ms old | _ \<Rightarrow> (old, False))"

definition field :: "('r \<Rightarrow> 'a) \<Rightarrow> (('a \<Rightarrow> 'a) \<Rightarrow> 'r \<Rightarrow> 'r) \<Rightarrow> 'a dec \<Rightarrow> 'r dec" where
  "field get upd d j r = (let (v, ok) = d j (get r) in (upd (\<lambda>_. v) r, ok))"

definition Decode :: "'a dec \<Rightarrow> 'a \<Rightarrow> string \<Rightarrow> 'a option" where
  "Decode d zero body = (case scan MValue [] body of
     None \<Rightarrow> None
   | Some (j, _) \<Rightarrow> (let (v, ok) = d j zero in if ok then Some v else None))"

definition Unmarshal :: "'a dec \<Rightarrow> 'a \<Rightarrow> string \<Rightarrow> 'a option" where
  "Unmarshal d zero data = (case scan MValue [] data of
     None \<Rightarrow> None
   | Some (j, rest) \<Rightarrow>
      if list_all is_ws rest then (let (v, ok) = d j zero in if ok then Some v else None)
      else None)"

section \<open>Evaluation\<close>

lemma Decode_scanned:
  "scan MValue [] req_body = Some (j, rest) \<Longrightarrow>
   Decode d zero req_body = (let (v, ok) = d j zero in if ok then Some v else None)"
  by (simp add: Decode_def)

lemma Decode_unscanned: "scan MValue [] req_body = None \<Longrightarrow> Decode d zero req_body = None"
  by (simp add: Decode_def)

text \<open>A literal without escapes and non-ASCII bytes stands for itself.\<close>

definition plain_literal :: "string \<Rightarrow> bool" where
  "plain_literal s \<longleftrightarrow> list_all (\<lambda>c. c \<noteq> CHR 0x5C \<and> byte c < 0x80) s"

lemma unquote_plain: "plain_literal s \<Longrightarrow> unquote s = s"
proof (induction s)
  case (Cons c s)
  then show ?case
    by (subst unquote.simps) (simp add: unquote_next_def plain_literal_def)
qed (simp add: unquote.simps)

declare dec_struct_def [json_simps] field_def [json_simps] find_field_def [json_simps]
  dec_string_def [json_simps] dec_map_def [json_simps] dec_slice_def [json_simps]
  dec_int32_def [json_simps] dec_int64_def [json_simps]
  unquote_plain [json_simps] plain_literal_def [json_simps]

end
