(* ===== verification/Go_Time.thy ===== *)
theory Go_Time
  imports Go_JSON "HOL-Library.Monad_Syntax"
begin

text \<open>
  The parts of package \<open>time\<close> that carry the program's timestamps: \<open>Time.UnmarshalJSON\<close>, which
  the webhook applies to the two times of an alert, and \<open>Time.MarshalJSON\<close>, which the orders
  service applies to the time of an event. \<open>UnmarshalJSON\<close> works on the raw text
  between the quotes and parses it with the layout of RFC 3339, more leniently than the RFC: the
  hour may have one digit, the fraction may start with a comma, a zone may be 24 hours or 60
  minutes off. The lemmas show that whatever is accepted is a date of the calendar, and that a
  formatted time parses to itself.

  A time is the civil date and time as written, with the offset of its zone in seconds.
\<close>

section \<open>Civil times\<close>

record civil =
  t_year :: nat
  t_month :: nat
  t_day :: nat
  t_hour :: nat
  t_min :: nat
  t_sec :: nat
  t_nsec :: nat

type_synonym go_time = "civil \<times> int"

definition zero_time :: go_time where
  "zero_time = (\<lparr>t_year = 1, t_month = 1, t_day = 1, t_hour = 0, t_min = 0, t_sec = 0, t_nsec = 0\<rparr>, 0)"

definition isLeap :: "nat \<Rightarrow> bool" where
  "isLeap y \<longleftrightarrow> y mod 4 = 0 \<and> (y mod 100 \<noteq> 0 \<or> y mod 400 = 0)"

definition daysIn :: "nat \<Rightarrow> nat \<Rightarrow> nat" where
  "daysIn m y = (if m = 2 then (if isLeap y then 29 else 28) else 30 + (m + m div 8) mod 2)"

definition civil_ok :: "civil \<Rightarrow> bool" where
  "civil_ok c \<longleftrightarrow> t_year c \<le> 9999 \<and> 1 \<le> t_month c \<and> t_month c \<le> 12
     \<and> 1 \<le> t_day c \<and> t_day c \<le> daysIn (t_month c) (t_year c)
     \<and> t_hour c < 24 \<and> t_min c < 60 \<and> t_sec c < 60 \<and> t_nsec c < 10 ^ 9"

section \<open>Parsing\<close>

definition digit_val :: "char \<Rightarrow> nat" where
  "digit_val c = byte c - 48"

fun getnum :: "bool \<Rightarrow> string \<Rightarrow> (nat \<times> string) option" where
  "getnum fixed [] = None"
| "getnum fixed [a] = (if is_digit a \<and> \<not> fixed then Some (digit_val a, []) else None)"
| "getnum fixed (a # b # s) =
    (if \<not> is_digit a then None
     else if is_digit b then Some (digit_val a * 10 + digit_val b, s)
     else if fixed then None else Some (digit_val a, b # s))"

fun get_year :: "string \<Rightarrow> (nat \<times> string) option" where
  "get_year (a # b # c # d # s) =
    (if list_all is_digit [a, b, c, d] then Some (digits_value [a, b, c, d], s) else None)"
| "get_year _ = None"

fun skip_char :: "char \<Rightarrow> string \<Rightarrow> string option" where
  "skip_char p [] = None"
| "skip_char p (c # s) = (if c = p then Some s else None)"

text \<open>\<open>parseNanoseconds\<close>: the first nine digits of the fraction, scaled.\<close>

definition nanoseconds :: "string \<Rightarrow> nat" where
  "nanoseconds ds = digits_value (take 9 (ds @ replicate 9 CHR ''0''))"

fun get_fraction :: "string \<Rightarrow> nat \<times> string" where
  "get_fraction (c # d # s) =
    (if (c = CHR ''.'' \<or> c = CHR '','') \<and> is_digit d
     then (nanoseconds (takeWhile is_digit (d # s)), dropWhile is_digit (d # s))
     else (0, c # d # s))"
| "get_fraction s = (0, s)"

fun get_zone :: "string \<Rightarrow> (int \<times> string) option" where
  "get_zone (z # s) =
    (if z = CHR ''Z'' then Some (0, s)
     else (case s of
       h1 # h2 # colon # m1 # m2 # rest \<Rightarrow>
         do {
           (hr, _) \<leftarrow> getnum True [h1, h2];
           (mm, _) \<leftarrow> getnum True [m1, m2];
           if colon = CHR '':'' \<and> hr \<le> 24 \<and> mm \<le> 60 \<and> (z = CHR ''+'' \<or> z = CHR ''-'')
           then Some ((if z = CHR ''-'' then - 1 else 1) * (int (hr * 60 + mm) * 60), rest)
           else None
         }
     | _ \<Rightarrow> None))"
| "get_zone [] = None"

definition parse_rfc3339 :: "string \<Rightarrow> go_time option" where
  "parse_rfc3339 s0 = do {
     (y, s1) \<leftarrow> get_year s0;
     s2 \<leftarrow> skip_char CHR ''-'' s1;
     (mo, s3) \<leftarrow> getnum True s2;
     s4 \<leftarrow> skip_char CHR ''-'' s3;
     (d, s5) \<leftarrow> getnum True s4;
     s6 \<leftarrow> skip_char CHR ''T'' s5;
     (h, s7) \<leftarrow> getnum False s6;
     s8 \<leftarrow> skip_char CHR '':'' s7;
     (mi, s9) \<leftarrow> getnum True s8;
     s10 \<leftarrow> skip_char CHR '':'' s9;
     (se, s11) \<leftarrow> getnum True s10;
     (let (ns, s12) = get_fraction s11 in do {
       (off, rest) \<leftarrow> get_zone s12;
       if 1 \<le> mo \<and> mo \<le> 12 \<and> h < 24 \<and> mi < 60 \<and> se < 60 \<and> rest = []
          \<and> 1 \<le> d \<and> d \<le> daysIn mo y
       then Some (\<lparr>t_year = y, t_month = mo, t_day = d, t_hour = h, t_min = mi, t_sec = se,
                   t_nsec = ns\<rparr>, off)
       else None
     })
   }"

text \<open>The decoder of a \<open>time.Time\<close> field: null leaves it as it is, a string is parsed without
  unescaping it, everything else is an error.\<close>

definition dec_time :: "go_time dec" where
  "dec_time j old = (case j of
     JNull \<Rightarrow> (old, True)
   | JStr raw \<Rightarrow> (case parse_rfc3339 raw of Some t \<Rightarrow> (t, True) | None \<Rightarrow> (zero_time, False))
   | _ \<Rightarrow> (old, False))"

declare dec_time_def [json_simps]

section \<open>Formatting\<close>

fun dec_pad :: "nat \<Rightarrow> nat \<Rightarrow> string" where
  "dec_pad 0 n = []"
| "dec_pad (Suc w) n = dec_pad w (n div 10) @ [char_of (48 + n mod 10)]"

text \<open>The fraction of \<open>RFC3339Nano\<close>: nine digits without trailing zeros, nothing for zero.\<close>

definition trim_zeros :: "string \<Rightarrow> string" where
  "trim_zeros ds = rev (dropWhile (\<lambda>c. c = CHR ''0'') (rev ds))"

definition format_fraction :: "nat \<Rightarrow> string" where
  "format_fraction ns = (if ns = 0 then [] else CHR ''.'' # trim_zeros (dec_pad 9 ns))"

definition format_zone :: "int \<Rightarrow> string" where
  "format_zone off = (if off = 0 then ''Z'' else
     (let zone = nat \<bar>off\<bar> div 60
      in (if off < 0 \<and> 0 < zone then CHR ''-'' else CHR ''+'') #
         dec_pad 2 (zone div 60) @ '':'' @ dec_pad 2 (zone mod 60)))"

definition format_rfc3339 :: "go_time \<Rightarrow> string" where
  "format_rfc3339 t = (let (c, off) = t in
     dec_pad 4 (t_year c) @ ''-'' @ dec_pad 2 (t_month c) @ ''-'' @ dec_pad 2 (t_day c) @
     ''T'' @ dec_pad 2 (t_hour c) @ '':'' @ dec_pad 2 (t_min c) @ '':'' @ dec_pad 2 (t_sec c) @
     format_fraction (t_nsec c) @ format_zone off)"

text \<open>\<open>MarshalJSON\<close>: an error when the year does not have four digits or the zone is a day or more
  off.\<close>

definition Time_MarshalJSON :: "go_time \<Rightarrow> string option" where
  "Time_MarshalJSON t =
    (if t_year (fst t) \<le> 9999 \<and> nat \<bar>snd t\<bar> div 3600 < 24
     then Some (CHR 0x22 # format_rfc3339 t @ [CHR 0x22]) else None)"

text \<open>A time whose zone is a whole number of minutes, which is what RFC 3339 can express.\<close>

definition time_ok :: "go_time \<Rightarrow> bool" where
  "time_ok t \<longleftrightarrow> civil_ok (fst t) \<and> snd t mod 60 = 0 \<and> \<bar>snd t\<bar> < 86400"

section \<open>Lemmas: digits\<close>

lemma is_digit_char [simp]: "n < 10 \<Longrightarrow> is_digit (char_of (48 + n))" "n < 10 \<Longrightarrow> digit_val (char_of (48 + n)) = n"
  by (simp_all add: is_digit_def digit_val_def)

lemma length_dec_pad [simp]: "length (dec_pad w n) = w"
  by (induction w arbitrary: n) simp_all

lemma dec_pad_digits: "list_all is_digit (dec_pad w n)"
  by (induction w arbitrary: n) (simp_all add: is_digit_def)

lemma digits_value_dec_pad: "n < 10 ^ w \<Longrightarrow> digits_value (dec_pad w n) = n"
proof (induction w arbitrary: n)
  case 0
  then show ?case by (simp add: digits_value_def)
next
  case (Suc w)
  then have "digits_value (dec_pad w (n div 10)) = n div 10" by (simp add: div_less_iff_less_mult mult.commute)
  then show ?case by simp
qed

lemma get_year_pad: "y \<le> 9999 \<Longrightarrow> get_year (dec_pad 4 y @ s) = Some (y, s)"
proof -
  assume "y \<le> 9999"
  then have "digits_value (dec_pad 4 y) = y" by (intro digits_value_dec_pad) simp
  moreover obtain a b c d where "dec_pad 4 y = [a, b, c, d]"
    using length_dec_pad [of 4 y] by (auto simp: numeral_eq_Suc length_Suc_conv simp del: length_dec_pad dec_pad.simps)
  ultimately show ?thesis using dec_pad_digits [of 4 y] by simp
qed

lemma getnum_pad: "n < 100 \<Longrightarrow> getnum fixed (dec_pad 2 n @ s) = Some (n, s)"
  by (simp add: numeral_2_eq_2)

lemma trim_zeros_pad: "\<exists>k. ds = trim_zeros ds @ replicate k CHR ''0''"
proof -
  have "\<exists>k. takeWhile (\<lambda>c. c = CHR ''0'') xs = replicate k CHR ''0''" for xs
    by (induction xs) (auto intro: exI [of _ 0] exI [of _ "Suc k" for k])
  then obtain k where k: "takeWhile (\<lambda>c. c = CHR ''0'') (rev ds) = replicate k CHR ''0''" by blast
  have "ds = rev (takeWhile (\<lambda>c. c = CHR ''0'') (rev ds) @ dropWhile (\<lambda>c. c = CHR ''0'') (rev ds))" by simp
  also have "\<dots> = trim_zeros ds @ replicate k CHR ''0''" unfolding rev_append k by (simp add: trim_zeros_def)
  finally show ?thesis by blast
qed

lemma nanoseconds_trimmed:
  assumes "ns < 10 ^ 9"
  shows "nanoseconds (trim_zeros (dec_pad 9 ns)) = ns"
proof -
  obtain k where k: "dec_pad 9 ns = trim_zeros (dec_pad 9 ns) @ replicate k CHR ''0''"
    using trim_zeros_pad by blast
  then have "9 = length (trim_zeros (dec_pad 9 ns)) + k"
    by (metis length_append length_dec_pad length_replicate)
  then have "9 - length (trim_zeros (dec_pad 9 ns)) = k" by simp
  then have "take 9 (trim_zeros (dec_pad 9 ns) @ replicate 9 CHR ''0'') = dec_pad 9 ns"
    using k \<open>9 = _\<close> by (simp add: take_replicate min_def del: dec_pad.simps)
  then show ?thesis using digits_value_dec_pad [OF assms] by (simp add: nanoseconds_def)
qed

lemma trimmed_digits: "list_all is_digit (trim_zeros (dec_pad w n))"
  using dec_pad_digits [of w n] trim_zeros_pad [of "dec_pad w n"] by (metis list_all_append)

lemma trimmed_not_Nil:
  assumes "0 < ns" "ns < 10 ^ 9"
  shows "trim_zeros (dec_pad 9 ns) \<noteq> []"
proof
  assume "trim_zeros (dec_pad 9 ns) = []"
  with nanoseconds_trimmed [OF assms(2)] have "nanoseconds [] = ns" by simp
  moreover have "nanoseconds [] = 0" by code_simp
  ultimately show False using assms(1) by simp
qed

lemma takeWhile_digits:
  assumes "list_all is_digit ds" "\<not> is_digit c"
  shows "takeWhile is_digit (ds @ c # s) = ds" "dropWhile is_digit (ds @ c # s) = c # s"
  using assms by (induction ds) auto

lemma get_fraction_format:
  assumes "ns < 10 ^ 9" "\<not> is_digit c" "c \<noteq> CHR ''.''" "c \<noteq> CHR '',''"
  shows "get_fraction (format_fraction ns @ c # s) = (ns, c # s)"
proof (cases "ns = 0")
  case True
  then show ?thesis using assms(3,4) by (cases s) (simp_all add: format_fraction_def)
next
  case False
  then obtain d ds where t: "trim_zeros (dec_pad 9 ns) = d # ds"
    using trimmed_not_Nil assms(1) by (metis neq_Nil_conv neq0_conv)
  have "list_all is_digit (d # ds)" using trimmed_digits [of 9 ns] t by simp
  then show ?thesis
    using False takeWhile_digits [of "d # ds" c s] assms(2) nanoseconds_trimmed [OF assms(1)] t
    by (simp add: format_fraction_def)
qed

section \<open>Lemmas: parsing\<close>

lemma daysIn_less: "daysIn m y < 100"
proof -
  have "(m + m div 8) mod 2 < 2" by simp
  then have "30 + (m + m div 8) mod 2 < 100" by linarith
  then show ?thesis by (auto simp: daysIn_def)
qed

lemma get_zone_format:
  assumes "off mod 60 = 0" "\<bar>off\<bar> < 86400"
  shows "get_zone (format_zone off) = Some (off, [])"
proof (cases "off = 0")
  case False
  define z where "z = nat \<bar>off\<bar> div 60"
  obtain k where "off = 60 * k" using assms(1) by (auto elim: dvdE)
  then have "nat \<bar>off\<bar> mod 60 = 0" by (simp add: abs_mult nat_mult_distrib)
  then have off: "nat \<bar>off\<bar> = z * 60" by (metis z_def add.right_neutral div_mult_mod_eq)
  then have "0 < z" "z div 60 < 24" using assms(2) False by linarith+
  note off = off this
  then have "getnum True (dec_pad 2 (z div 60) @ []) = Some (z div 60, [])"
    "getnum True (dec_pad 2 (z mod 60) @ []) = Some (z mod 60, [])"
    by (intro getnum_pad; simp)+
  moreover obtain a b where "dec_pad 2 (z div 60) = [a, b]" by (simp add: numeral_2_eq_2)
  moreover obtain c d where "dec_pad 2 (z mod 60) = [c, d]" by (simp add: numeral_2_eq_2)
  moreover have "int (z div 60 * 60 + z mod 60) * 60 = \<bar>off\<bar>"
    using off(1) by (simp add: div_mult_mod_eq)
  ultimately show ?thesis
    using False off by (simp add: format_zone_def Let_def z_def [symmetric] less_imp_le)
qed (simp add: format_zone_def)

lemma format_zone_head:
  obtains c s where "format_zone off = c # s" "c = CHR ''Z'' \<or> c = CHR ''+'' \<or> c = CHR ''-''"
  by (cases "off = 0") (simp_all add: format_zone_def Let_def)

lemma parse_format:
  assumes "time_ok t"
  shows "parse_rfc3339 (format_rfc3339 t) = Some t"
proof -
  obtain c off where t: "t = (c, off)" by (cases t)
  have ok: "civil_ok c" "off mod 60 = 0" "\<bar>off\<bar> < 86400" using assms by (auto simp: t time_ok_def)
  have b: "t_year c \<le> 9999" "t_month c < 100" "t_day c < 100" "t_hour c < 100" "t_min c < 100"
    "t_sec c < 100" "t_nsec c < 10 ^ 9"
    using ok(1) daysIn_less [of "t_month c" "t_year c"] by (auto simp: civil_ok_def)
  obtain h s where h: "format_zone off = h # s" "h = CHR ''Z'' \<or> h = CHR ''+'' \<or> h = CHR ''-''"
    by (rule format_zone_head)
  have z: "get_fraction (format_fraction (t_nsec c) @ format_zone off) = (t_nsec c, format_zone off)"
    unfolding h(1) by (rule get_fraction_format [OF b(7)]) (use h(2) in \<open>auto simp: is_digit_def\<close>)
  show ?thesis
    using ok(1) b
    by (simp add: t parse_rfc3339_def format_rfc3339_def get_year_pad getnum_pad z civil_ok_def
        get_zone_format [OF ok(2,3)] del: dec_pad.simps get_zone.simps)
qed

lemma get_year_le: "get_year s = Some (y, s') \<Longrightarrow> y \<le> 9999"
  by (induction s rule: get_year.induct) (auto simp: digits_value_def is_digit_def split: if_splits)

lemma nanoseconds_less:
  assumes "list_all is_digit ds"
  shows "nanoseconds ds < 10 ^ 9"
proof -
  have less: "list_all is_digit xs \<Longrightarrow> digits_value xs < 10 ^ length xs" for xs
  proof (induction xs rule: rev_induct)
    case (snoc c xs)
    then have "digits_value xs < 10 ^ length xs" "byte c - 48 < 10" by (auto simp: is_digit_def)
    then show ?case by simp
  qed (simp add: digits_value_def)
  let ?t = "take 9 (ds @ replicate 9 CHR ''0'')"
  have "list_all is_digit (ds @ replicate 9 CHR ''0'')"
    using assms by (simp add: list_all_iff is_digit_def)
  then have "list_all is_digit ?t" by (auto simp: list_all_iff dest: in_set_takeD)
  from less [OF this] have "nanoseconds ds < 10 ^ length ?t" unfolding nanoseconds_def .
  moreover have "length ?t = 9" by simp
  ultimately show ?thesis by (simp only:)
qed

lemma get_fraction_less: "fst (get_fraction s) < 10 ^ 9"
proof (induction s rule: get_fraction.induct)
  case (1 c d s)
  have "list_all is_digit (takeWhile is_digit (d # s))" unfolding list_all_iff by (meson set_takeWhileD)
  from nanoseconds_less [OF this] show ?case by (auto split: if_splits)
qed auto

lemma get_zone_bound: "get_zone s = Some (off, r) \<Longrightarrow> \<bar>off\<bar> \<le> 90000"
proof (induction s rule: get_zone.induct)
  case (1 z s)
  have sgn: "\<bar>(if z = CHR ''-'' then - 1 else 1) * (int (hr * 60 + mm) * 60)\<bar> \<le> 90000"
    if "hr \<le> 24" "mm \<le> 60" for hr mm
    using that by simp
  show ?case
  proof (cases "z = CHR ''Z''")
    case False
    with 1 obtain hr mm where "hr \<le> 24" "mm \<le> 60"
      "off = (if z = CHR ''-'' then - 1 else 1) * (int (hr * 60 + mm) * 60)"
      by (auto simp: Option.bind_eq_Some_conv simp del: getnum.simps split: if_split_asm list.split_asm)
    then show ?thesis using sgn by blast
  qed (use 1 in simp)
qed simp

lemma parse_valid:
  assumes "parse_rfc3339 s = Some (c, off)"
  shows "civil_ok c \<and> \<bar>off\<bar> \<le> 90000"
  using assms
  by (auto simp: parse_rfc3339_def Let_def civil_ok_def Option.bind_eq_Some_conv
      case_prod_unfold get_fraction_less [simplified] split: if_splits
      dest: get_year_le get_zone_bound)

lemma format_plain: "list_all plain_char (format_rfc3339 t)"
proof -
  have digits: "list_all plain_char ds" if "list_all is_digit ds" for ds
    using that by (auto simp: list_all_iff plain_char_def is_digit_def)
  have "list_all plain_char (format_fraction ns)" for ns
    using digits [OF trimmed_digits] by (simp add: format_fraction_def plain_char_def)
  moreover have "list_all plain_char (format_zone off)" for off
    using digits [OF dec_pad_digits]
    by (simp add: format_zone_def plain_char_def Let_def del: dec_pad.simps)
  ultimately show ?thesis
    using digits [OF dec_pad_digits]
    by (simp add: format_rfc3339_def plain_char_def case_prod_unfold del: dec_pad.simps)
qed

lemma marshal_time: "time_ok t \<Longrightarrow> Time_MarshalJSON t = Some (CHR 0x22 # format_rfc3339 t @ [CHR 0x22])"
  by (auto simp: time_ok_def civil_ok_def Time_MarshalJSON_def)

end
