(* ===== verification/Go_HTTP.thy ===== *)
theory Go_HTTP
  imports Go_Strings
begin

text \<open>
  The part of \<open>net/http\<close> the program uses: what a handler does to its \<open>ResponseWriter\<close> as a
  list of calls, the response the client receives from them, and \<open>http.Error\<close>. The first
  \<open>WriteHeader\<close> decides the status, a \<open>Write\<close> before it sends 200, informational codes do not
  count and later calls are ignored.
\<close>

section \<open>Writers and responses\<close>

datatype wcall = SetHeader string string | DelHeader string | WriteHeader int | Write string

record response =
  status :: "int option"
  headers :: "string \<rightharpoonup> string"
  sent_headers :: "string \<rightharpoonup> string"
  body :: string

definition new_response :: response where
  "new_response = \<lparr>status = None, headers = (\<lambda>_. None), sent_headers = (\<lambda>_. None), body = ''''\<rparr>"

definition informational :: "int \<Rightarrow> bool" where
  "informational c \<longleftrightarrow> 100 \<le> c \<and> c \<le> 199 \<and> c \<noteq> 101"

definition send_header :: "int \<Rightarrow> response \<Rightarrow> response" where
  "send_header c r = (case status r of
     Some _ \<Rightarrow> r
   | None \<Rightarrow> if informational c then r else r\<lparr>status := Some c, sent_headers := headers r\<rparr>)"

fun write_op :: "wcall \<Rightarrow> response \<Rightarrow> response" where
  "write_op (SetHeader k v) r = r\<lparr>headers := (headers r)(k \<mapsto> v)\<rparr>"
| "write_op (DelHeader k) r = r\<lparr>headers := (headers r)(k := None)\<rparr>"
| "write_op (WriteHeader c) r = send_header c r"
| "write_op (Write s) r = (let r' = send_header 200 r in r'\<lparr>body := body r' @ s\<rparr>)"

text \<open>When the handler returns without having sent a header, the server sends 200.\<close>

definition respond :: "wcall list \<Rightarrow> response" where
  "respond ops = send_header 200 (fold write_op ops new_response)"

definition code :: "wcall list \<Rightarrow> int" where
  "code ops = (case status (respond ops) of Some c \<Rightarrow> c | None \<Rightarrow> 200)"

abbreviation StatusOK :: int where "StatusOK \<equiv> 200"
abbreviation StatusAccepted :: int where "StatusAccepted \<equiv> 202"
abbreviation StatusBadRequest :: int where "StatusBadRequest \<equiv> 400"
abbreviation StatusPaymentRequired :: int where "StatusPaymentRequired \<equiv> 402"
abbreviation StatusBadGateway :: int where "StatusBadGateway \<equiv> 502"
abbreviation StatusServiceUnavailable :: int where "StatusServiceUnavailable \<equiv> 503"

text \<open>\<open>http.Error\<close>.\<close>

definition http_Error :: "string \<Rightarrow> int \<Rightarrow> wcall list" where
  "http_Error msg c =
    [DelHeader ''Content-Length'', SetHeader ''Content-Type'' ''text/plain; charset=utf-8'',
     SetHeader ''X-Content-Type-Options'' ''nosniff'', WriteHeader c, Write (msg @ [CHR 0x0A])]"

text \<open>The errors of \<open>ListenAndServe\<close> and \<open>Shutdown\<close>.\<close>

datatype net_error = ErrServerClosed | NetError string

section \<open>Lemmas\<close>

lemma status_send_header:
  "status (send_header c r) =
    (case status r of Some s \<Rightarrow> Some s | None \<Rightarrow> if informational c then None else Some c)"
  by (simp add: send_header_def split: option.splits)

lemma body_send_header [simp]: "body (send_header c r) = body r"
  by (simp add: send_header_def split: option.splits)

lemma status_kept: "status r = Some s \<Longrightarrow> status (fold write_op ops r) = Some s"
proof (induction ops arbitrary: r)
  case (Cons op ops)
  then show ?case by (cases op) (simp_all add: status_send_header Let_def)
qed simp

lemma status_respond: "status (respond ops) = Some (code ops)"
  by (simp add: code_def respond_def status_send_header informational_def split: option.splits)

text \<open>A header sequence followed by one \<open>WriteHeader\<close> and one \<open>Write\<close>.\<close>

lemma respond_error_shape:
  assumes "\<not> informational c"
  shows "status (respond [DelHeader a, SetHeader b b', SetHeader d d', WriteHeader c, Write m]) = Some c"
    and "body (respond [DelHeader a, SetHeader b b', SetHeader d d', WriteHeader c, Write m]) = m"
  using assms by (simp_all add: respond_def new_response_def status_send_header Let_def)

lemma http_Error_code [simp]: "\<not> informational c \<Longrightarrow> code (http_Error msg c) = c"
  unfolding code_def http_Error_def by (simp only: respond_error_shape option.case simp_thms)

lemma http_Error_body [simp]:
  "\<not> informational c \<Longrightarrow> body (respond (http_Error msg c)) = msg @ [CHR 0x0A]"
  unfolding http_Error_def by (simp only: respond_error_shape simp_thms)

lemma WriteHeader_code [simp]: "\<not> informational c \<Longrightarrow> code [WriteHeader c] = c"
  by (simp add: code_def respond_def new_response_def status_send_header)

end
