(* ===== verification/Go_Mux.thy ===== *)
theory Go_Mux
  imports Go_HTTP
begin

text \<open>
  Routing with \<open>http.ServeMux\<close> (Go 1.22 and later): patterns of an optional method and a path
  of literal segments, with a trailing slash matching every longer path, the comparison of
  two patterns, registration, which panics on a conflict, and the choice of the handler. Hosts
  and wildcards in braces do not occur in the program. Request paths are in canonical form, so
  that the redirects of the mux do not come into play. The lemmas show that the comparison of
  patterns is the comparison of the sets of requests they match, and that a mux that was built
  without a panic has exactly one most specific pattern for each request it matches.
\<close>

section \<open>Patterns\<close>

datatype segment = Lit string | Multi

record pattern =
  pmethod :: string
  segments :: "segment list"

datatype relationship = Equivalent | MoreGeneral | MoreSpecific | Disjoint | Overlaps

function path_segments :: "string \<Rightarrow> segment list" where
  "path_segments path = (case path of
     [] \<Rightarrow> []
   | slash # rest \<Rightarrow>
      if rest = [] then [Multi]
      else Lit (takeWhile (\<lambda>c. c \<noteq> CHR ''/'') rest)
             # path_segments (dropWhile (\<lambda>c. c \<noteq> CHR ''/'') rest))"
  by pat_completeness auto
termination
  by (relation "measure length") (auto intro: le_less_trans [OF length_dropWhile_le])

declare path_segments.simps [simp del]

definition parsePattern :: "string \<Rightarrow> pattern" where
  "parsePattern s =
    (if CHR '' '' \<in> set s then
       \<lparr>pmethod = takeWhile (\<lambda>c. c \<noteq> CHR '' '') s,
        segments = path_segments (dropWhile (\<lambda>c. c = CHR '' '') (dropWhile (\<lambda>c. c \<noteq> CHR '' '') s))\<rparr>
     else \<lparr>pmethod = '''', segments = path_segments s\<rparr>)"

fun inverseRelationship :: "relationship \<Rightarrow> relationship" where
  "inverseRelationship MoreGeneral = MoreSpecific"
| "inverseRelationship MoreSpecific = MoreGeneral"
| "inverseRelationship r = r"

fun combineRelationships :: "relationship \<Rightarrow> relationship \<Rightarrow> relationship" where
  "combineRelationships Equivalent r2 = r2"
| "combineRelationships Disjoint r2 = Disjoint"
| "combineRelationships Overlaps r2 = (if r2 = Disjoint then Disjoint else Overlaps)"
| "combineRelationships r1 r2 =
    (if r2 = Equivalent then r1 else if r2 = inverseRelationship r1 then Overlaps else r2)"

definition compareMethods :: "string \<Rightarrow> string \<Rightarrow> relationship" where
  "compareMethods m1 m2 =
    (if m1 = m2 then Equivalent
     else if m1 = '''' then MoreGeneral
     else if m2 = '''' then MoreSpecific
     else if m1 = ''GET'' \<and> m2 = ''HEAD'' then MoreGeneral
     else if m2 = ''GET'' \<and> m1 = ''HEAD'' then MoreSpecific
     else Disjoint)"

fun compareSegments :: "segment \<Rightarrow> segment \<Rightarrow> relationship" where
  "compareSegments Multi Multi = Equivalent"
| "compareSegments Multi (Lit t) = MoreGeneral"
| "compareSegments (Lit s) Multi = MoreSpecific"
| "compareSegments (Lit s) (Lit t) = (if s = t then Equivalent else Disjoint)"

fun compare_loop ::
    "bool \<Rightarrow> bool \<Rightarrow> relationship \<Rightarrow> segment list \<Rightarrow> segment list \<Rightarrow> relationship" where
  "compare_loop multi1 multi2 rel [] [] = rel"
| "compare_loop multi1 multi2 rel [] (s2 # segs2) =
    (if multi1 then combineRelationships rel MoreGeneral else Disjoint)"
| "compare_loop multi1 multi2 rel (s1 # segs1) [] =
    (if multi2 then combineRelationships rel MoreSpecific else Disjoint)"
| "compare_loop multi1 multi2 rel (s1 # segs1) (s2 # segs2) =
    (let rel' = combineRelationships rel (compareSegments s1 s2)
     in if rel' = Disjoint then Disjoint else compare_loop multi1 multi2 rel' segs1 segs2)"

definition ends_multi :: "segment list \<Rightarrow> bool" where
  "ends_multi p \<longleftrightarrow> p \<noteq> [] \<and> last p = Multi"

definition comparePaths :: "segment list \<Rightarrow> segment list \<Rightarrow> relationship" where
  "comparePaths p1 p2 =
    (if length p1 \<noteq> length p2 \<and> \<not> ends_multi p1 \<and> \<not> ends_multi p2 then Disjoint
     else compare_loop (ends_multi p1) (ends_multi p2) Equivalent p1 p2)"

definition comparePathsAndMethods :: "pattern \<Rightarrow> pattern \<Rightarrow> relationship" where
  "comparePathsAndMethods p1 p2 =
    combineRelationships (compareMethods (pmethod p1) (pmethod p2))
      (comparePaths (segments p1) (segments p2))"

definition conflictsWith :: "pattern \<Rightarrow> pattern \<Rightarrow> bool" where
  "conflictsWith p1 p2 \<longleftrightarrow> comparePathsAndMethods p1 p2 \<in> set [Equivalent, Overlaps]"

section \<open>Registration and routing\<close>

text \<open>A mux with its patterns in registration order; \<open>None\<close> is the panic of a conflict.\<close>

definition Handle :: "string \<Rightarrow> 'h \<Rightarrow> (pattern \<times> 'h) list \<Rightarrow> (pattern \<times> 'h) list option" where
  "Handle s h mux =
    (let p = parsePattern s
     in if list_ex (\<lambda>(q, _). conflictsWith p q) mux then None else Some (mux @ [(p, h)]))"

fun handle_all :: "(string \<times> 'h) list \<Rightarrow> (pattern \<times> 'h) list \<Rightarrow> (pattern \<times> 'h) list option" where
  "handle_all [] mux = Some mux"
| "handle_all ((s, h) # rs) mux = Option.bind (Handle s h mux) (handle_all rs)"

text \<open>The segments of a request path; a trailing slash leaves an empty last segment.\<close>

function split_path :: "string \<Rightarrow> string list" where
  "split_path path = (case path of
     [] \<Rightarrow> []
   | slash # rest \<Rightarrow> takeWhile (\<lambda>c. c \<noteq> CHR ''/'') rest
       # split_path (dropWhile (\<lambda>c. c \<noteq> CHR ''/'') rest))"
  by pat_completeness auto
termination
  by (relation "measure length") (auto intro: le_less_trans [OF length_dropWhile_le])

declare split_path.simps [simp del]

fun match_segments :: "segment list \<Rightarrow> string list \<Rightarrow> bool" where
  "match_segments [] xs \<longleftrightarrow> xs = []"
| "match_segments (Multi # ps) xs \<longleftrightarrow> xs \<noteq> []"
| "match_segments (Lit s # ps) [] \<longleftrightarrow> False"
| "match_segments (Lit s # ps) (x # xs) \<longleftrightarrow> s = x \<and> match_segments ps xs"

definition match_method :: "string \<Rightarrow> string \<Rightarrow> bool" where
  "match_method pm m \<longleftrightarrow> pm = '''' \<or> pm = m \<or> pm = ''GET'' \<and> m = ''HEAD''"

definition pattern_matches :: "pattern \<Rightarrow> string \<times> string list \<Rightarrow> bool" where
  "pattern_matches p r \<longleftrightarrow> match_method (pmethod p) (fst r) \<and> match_segments (segments p) (snd r)"

datatype 'h routed = Routed 'h | MethodNotAllowed | PageNotFound

text \<open>The most specific of the patterns that match.\<close>

definition best_match :: "(pattern \<times> 'h) list \<Rightarrow> string \<times> string list \<Rightarrow> (pattern \<times> 'h) option" where
  "best_match mux r = List.find (\<lambda>(p, _). pattern_matches p r
     \<and> list_all (\<lambda>(q, _). pattern_matches q r \<longrightarrow>
          comparePathsAndMethods p q = Equivalent \<or> comparePathsAndMethods p q = MoreSpecific) mux) mux"

definition route :: "(pattern \<times> 'h) list \<Rightarrow> string \<Rightarrow> string \<Rightarrow> 'h routed" where
  "route mux m path =
    (let r = (m, split_path path)
     in case best_match mux r of
          Some (_, h) \<Rightarrow> Routed h
        | None \<Rightarrow> if list_ex (\<lambda>(p, _). match_segments (segments p) (snd r)) mux
                  then MethodNotAllowed else PageNotFound)"

text \<open>The replies of the mux itself (the \<open>Allow\<close> header of a 405 is left out).\<close>

definition serve_mux :: "('h \<Rightarrow> wcall list) \<Rightarrow> 'h routed \<Rightarrow> wcall list" where
  "serve_mux serve rt = (case rt of
     Routed h \<Rightarrow> serve h
   | MethodNotAllowed \<Rightarrow> http_Error ''Method Not Allowed'' 405
   | PageNotFound \<Rightarrow> http_Error ''404 page not found'' 404)"

section \<open>Lemmas\<close>

text \<open>The relation of two sets, and what \<open>combineRelationships\<close> computes of it on products.\<close>

definition set_rel :: "'a set \<Rightarrow> 'a set \<Rightarrow> relationship" where
  "set_rel A B =
    (if A = B then Equivalent else if A \<inter> B = {} then Disjoint
     else if A \<subseteq> B then MoreSpecific else if B \<subseteq> A then MoreGeneral else Overlaps)"

lemma times_subset_iff:
  "A \<noteq> {} \<Longrightarrow> C \<noteq> {} \<Longrightarrow> A \<times> C \<subseteq> B \<times> D \<longleftrightarrow> A \<subseteq> B \<and> C \<subseteq> D"
  by auto

lemma set_rel_times:
  assumes "A \<noteq> {}" "B \<noteq> {}" "C \<noteq> {}" "D \<noteq> {}"
  shows "set_rel (A \<times> C) (B \<times> D) = combineRelationships (set_rel A B) (set_rel C D)"
proof -
  have "A \<times> C = B \<times> D \<longleftrightarrow> A = B \<and> C = D" "A \<times> C \<inter> B \<times> D = {} \<longleftrightarrow> A \<inter> B = {} \<or> C \<inter> D = {}"
    "A \<times> C \<subseteq> B \<times> D \<longleftrightarrow> A \<subseteq> B \<and> C \<subseteq> D" "B \<times> D \<subseteq> A \<times> C \<longleftrightarrow> B \<subseteq> A \<and> D \<subseteq> C"
    using assms by (auto simp: times_eq_iff)
  then show ?thesis using assms by (auto simp: set_rel_def)
qed

lemma set_rel_image: "inj f \<Longrightarrow> set_rel (f ` A) (f ` B) = set_rel A B"
  by (simp add: set_rel_def inj_image_eq_iff inj_image_subset_iff flip: image_Int)

lemma set_rel_inverse: "set_rel B A = inverseRelationship (set_rel A B)"
  by (auto simp: set_rel_def)

definition wf_segments :: "segment list \<Rightarrow> bool" where
  "wf_segments p \<longleftrightarrow> p \<noteq> [] \<and> Multi \<notin> set (butlast p)"

abbreviation paths :: "segment list \<Rightarrow> string list set" where
  "paths p \<equiv> {xs. match_segments p xs}"

abbreviation methods :: "string \<Rightarrow> string set" where
  "methods pm \<equiv> {m. m \<noteq> '''' \<and> match_method pm m}"

definition requests :: "pattern \<Rightarrow> (string \<times> string list) set" where
  "requests p = methods (pmethod p) \<times> paths (segments p)"

lemma methods_nonempty: "methods pm \<noteq> {}"
proof -
  have "(if pm = '''' then ''GET'' else pm) \<in> methods pm" by (simp add: match_method_def)
  then show ?thesis by blast
qed

lemma methods_simps:
  "methods '''' = {m. m \<noteq> ''''}" "methods ''GET'' = {''GET'', ''HEAD''}"
  "pm \<noteq> '''' \<Longrightarrow> pm \<noteq> ''GET'' \<Longrightarrow> methods pm = {pm}"
  by (auto simp: match_method_def)

lemma any_method_neq: "{m :: string. m \<noteq> ''''} \<noteq> {a}" "{m :: string. m \<noteq> ''''} \<noteq> {''GET'', ''HEAD''}"
proof -
  have "(if a = ''PUT'' then ''GET'' else ''PUT'') \<in> {m. m \<noteq> ''''} - {a}" by simp
  then show "{m :: string. m \<noteq> ''''} \<noteq> {a}" by blast
  have "''PUT'' \<in> {m. m \<noteq> ''''} - {''GET'', ''HEAD''}" by simp
  then show "{m :: string. m \<noteq> ''''} \<noteq> {''GET'', ''HEAD''}" by blast
qed

lemma compareMethods_rel: "compareMethods m1 m2 = set_rel (methods m1) (methods m2)"
proof (cases "m1 = m2")
  case True
  then show ?thesis by (simp add: compareMethods_def set_rel_def)
next
  case False
  consider "m1 = ''''" | "m1 = ''GET''" | "m1 \<noteq> ''''" "m1 \<noteq> ''GET''" by blast
  then show ?thesis
    using False any_method_neq
    by cases (cases "m2 = ''GET''"; cases "m2 = ''''";
      auto simp: methods_simps compareMethods_def set_rel_def)+
qed

lemma wf_segments_Cons:
  "wf_segments (s # p) \<longleftrightarrow> p = [] \<or> (s \<noteq> Multi \<and> wf_segments p)"
  by (auto simp: wf_segments_def)

lemma wf_segmentsE:
  assumes "wf_segments p"
  obtains (multi) "p = [Multi]" | (lit) s q where "p = Lit s # q" "q = [] \<or> wf_segments q"
  using assms
proof (cases p)
  case (Cons s q)
  then show ?thesis using assms that by (cases s) (auto simp: wf_segments_Cons)
qed (simp add: wf_segments_def)

lemma paths_Lit: "paths (Lit s # p) = (#) s ` paths p"
proof -
  have "match_segments (Lit s # p) xs \<longleftrightarrow> (\<exists>ys. xs = s # ys \<and> match_segments p ys)" for xs
    by (cases xs) auto
  then show ?thesis by auto
qed

lemma paths_Multi: "paths [Multi] = {xs. xs \<noteq> []}" by simp

lemma paths_nonempty: "wf_segments p \<or> p = [] \<Longrightarrow> paths p \<noteq> {}"
proof (induction p)
  case (Cons s p)
  show ?case
  proof (cases s)
    case (Lit t)
    with Cons show ?thesis by (simp add: paths_Lit wf_segments_Cons del: match_segments.simps) blast
  qed auto
qed auto

lemma paths_not_Nil: "wf_segments p \<Longrightarrow> [] \<notin> paths p"
  by (elim wf_segmentsE) simp_all

lemma Multi_more_general:
  assumes "q = [] \<or> wf_segments q"
  shows "set_rel (paths [Multi]) (paths (Lit t # q)) = MoreGeneral"
proof -
  obtain xs where "xs \<in> paths (Lit t # q)"
    using paths_nonempty [of "Lit t # q"] assms by (auto simp: wf_segments_Cons)
  moreover have "[t @ ''x''] \<in> paths [Multi] - paths (Lit t # q)" by simp
  ultimately show ?thesis
    unfolding set_rel_def paths_Lit paths_Multi by auto
qed

lemma compare_loop_rel:
  assumes "wf_segments p" "wf_segments q"
  shows "compare_loop (ends_multi p) (ends_multi q) Equivalent p q = set_rel (paths p) (paths q)"
  using assms
proof (induction p arbitrary: q)
  case (Cons x p)
  from Cons.prems(1) show ?case
  proof (cases rule: wf_segmentsE)
    case multi
    from Cons.prems(2) show ?thesis
    proof (cases rule: wf_segmentsE)
      case (lit t q')
      then show ?thesis
        using multi Multi_more_general [OF lit(2)] by (cases q') (simp_all add: ends_multi_def)
    qed (simp add: multi set_rel_def)
  next
    case p: (lit s p')
    from Cons.prems(2) show ?thesis
    proof (cases rule: wf_segmentsE)
      case multi
      then show ?thesis
        using p Multi_more_general [OF p(2), of s]
          set_rel_inverse [of "paths (Lit s # p)" "paths [Multi]"]
        by (cases p') (simp_all add: ends_multi_def)
    next
      case q: (lit t q')
      consider "s \<noteq> t" | "s = t" "p' = []" "q' = []" | "s = t" "p' = []" "wf_segments q'"
        | "s = t" "q' = []" "wf_segments p'" | "s = t" "wf_segments p'" "wf_segments q'"
        using p(2) q(2) by blast
      then show ?thesis
      proof cases
        case 1
        then have "paths (Lit s # p') \<inter> paths (Lit t # q') = {}" "paths (Lit s # p') \<noteq> {}"
          using paths_nonempty [of p'] p(2) by (auto simp: paths_Lit simp del: match_segments.simps)
        then show ?thesis using 1 p q by (auto simp: set_rel_def)
      next
        case 2
        then show ?thesis using p q by (simp add: set_rel_def)
      next
        case 3
        then have "paths (Lit s # p') \<inter> paths (Lit t # q') = {}" "paths (Lit s # p') \<noteq> {}"
          using paths_not_Nil [of q'] by (auto simp: paths_Lit)
        then show ?thesis using 3 p q by (cases q') (auto simp: set_rel_def ends_multi_def)
      next
        case 4
        then have "paths (Lit s # p') \<inter> paths (Lit t # q') = {}" "paths (Lit t # q') \<noteq> {}"
          using paths_not_Nil [of p'] by (auto simp: paths_Lit)
        then show ?thesis using 4 p q by (cases p') (auto simp: set_rel_def ends_multi_def)
      next
        case 5
        have "ends_multi (Lit s # p') = ends_multi p'" "ends_multi (Lit t # q') = ends_multi q'"
          using 5 by (auto simp: ends_multi_def wf_segments_def)
        moreover have "compare_loop (ends_multi p') (ends_multi q') Equivalent p' q' =
            set_rel (paths p') (paths q')"
          using Cons.IH [of q'] p 5 by simp
        ultimately show ?thesis
          using p q 5 by (simp add: paths_Lit set_rel_image del: match_segments.simps)
      qed
    qed
  qed
qed (simp add: wf_segments_def)

lemma paths_length: "Multi \<notin> set p \<Longrightarrow> match_segments p xs \<Longrightarrow> length xs = length p"
  by (induction p xs rule: match_segments.induct) auto

lemma comparePaths_rel:
  assumes "wf_segments p" "wf_segments q"
  shows "comparePaths p q = set_rel (paths p) (paths q)"
proof (cases "length p \<noteq> length q \<and> \<not> ends_multi p \<and> \<not> ends_multi q")
  case True
  have lit: "Multi \<notin> set p" if "wf_segments p" "\<not> ends_multi p" for p
    using that by (cases p rule: rev_cases) (auto simp: wf_segments_def ends_multi_def)
  have "paths p \<inter> paths q = {}"
    using True paths_length [OF lit, OF assms(1)] paths_length [OF lit, OF assms(2)] by fastforce
  then show ?thesis
    using True paths_nonempty [of p] assms by (auto simp: comparePaths_def set_rel_def)
qed (auto simp: comparePaths_def compare_loop_rel [OF assms])

definition wf_mux :: "(pattern \<times> 'h) list \<Rightarrow> bool" where
  "wf_mux mux \<longleftrightarrow> list_all (\<lambda>(p, _). wf_segments (segments p)) mux
     \<and> sorted_wrt (\<lambda>(p, _) (q, _). \<not> conflictsWith q p) mux"

lemma compare_requests:
  "wf_segments (segments p) \<Longrightarrow> wf_segments (segments q) \<Longrightarrow>
   comparePathsAndMethods p q = set_rel (requests p) (requests q)"
  unfolding comparePathsAndMethods_def requests_def
  by (simp only: compareMethods_rel comparePaths_rel set_rel_times methods_nonempty paths_nonempty
      simp_thms)

lemma conflictsWith_iff:
  "wf_segments (segments p) \<Longrightarrow> wf_segments (segments q) \<Longrightarrow> conflictsWith p q \<longleftrightarrow>
   requests p = requests q \<or> requests p \<inter> requests q \<noteq> {}
     \<and> \<not> requests p \<subseteq> requests q \<and> \<not> requests q \<subseteq> requests p"
  by (auto simp: conflictsWith_def compare_requests set_rel_def split: if_splits)

lemma pattern_matches_requests:
  "m \<noteq> '''' \<Longrightarrow> pattern_matches p (m, xs) \<longleftrightarrow> (m, xs) \<in> requests p"
  by (auto simp: pattern_matches_def requests_def)

lemma wf_mux_chain:
  assumes "wf_mux mux" "(p, h) \<in> set mux" "(q, k) \<in> set mux" "r \<in> requests p" "r \<in> requests q"
  shows "requests p \<subseteq> requests q \<or> requests q \<subseteq> requests p"
proof -
  have wf: "wf_segments (segments p)" "wf_segments (segments q)"
    using assms(1-3) by (auto simp: wf_mux_def list_all_iff)
  obtain i j where ij: "i < length mux" "mux ! i = (p, h)" "j < length mux" "mux ! j = (q, k)"
    using assms(2,3) by (metis in_set_conv_nth)
  consider "i = j" | "\<not> conflictsWith q p" | "\<not> conflictsWith p q"
  proof -
    consider "i = j" | "i < j" | "j < i" by linarith
    then show thesis
    proof cases
      case 2
      with assms(1) ij that(2) show thesis by (fastforce simp: wf_mux_def sorted_wrt_iff_nth_less)
    next
      case 3
      with assms(1) ij that(3) show thesis by (fastforce simp: wf_mux_def sorted_wrt_iff_nth_less)
    qed (rule that(1))
  qed
  then show ?thesis
    using ij wf assms(4,5) by cases (auto simp: conflictsWith_iff)
qed

text \<open>In a mux built without a panic, a request that some pattern matches goes to the pattern
  whose requests are included in those of every other pattern that matches.\<close>

lemma best_match_exists:
  assumes "wf_mux mux" "m \<noteq> ''''" "(p0, h0) \<in> set mux" "pattern_matches p0 (m, xs)"
  shows "\<exists>p h. best_match mux (m, xs) = Some (p, h) \<and> pattern_matches p (m, xs)
    \<and> (\<forall>(q, k) \<in> set mux. pattern_matches q (m, xs) \<longrightarrow> requests p \<subseteq> requests q)"
proof -
  let ?F = "requests ` {p. \<exists>h. (p, h) \<in> set mux \<and> pattern_matches p (m, xs)}"
  have "?F = (requests \<circ> fst) ` {x \<in> set mux. pattern_matches (fst x) (m, xs)}" by force
  then have "finite ?F" "?F \<noteq> {}" using assms(3,4) by auto
  then obtain p h where p: "(p, h) \<in> set mux" "pattern_matches p (m, xs)"
    and min: "\<And>q k. (q, k) \<in> set mux \<Longrightarrow> pattern_matches q (m, xs) \<Longrightarrow>
      requests q \<subseteq> requests p \<Longrightarrow> requests p = requests q"
    using finite_has_minimal [of ?F] by fastforce
  have wf: "wf_segments (segments q)" if "(q, k) \<in> set mux" for q k
    using assms(1) that by (auto simp: wf_mux_def list_all_iff)
  have sub: "requests p \<subseteq> requests q" if "(q, k) \<in> set mux" "pattern_matches q (m, xs)" for q k
    using wf_mux_chain [OF assms(1) p(1) that(1), of "(m, xs)"] min [OF that] p(2) that(2) assms(2)
    by (auto simp: pattern_matches_requests)
  have best: "comparePathsAndMethods p q = Equivalent \<or> comparePathsAndMethods p q = MoreSpecific
      \<longleftrightarrow> requests p \<subseteq> requests q"
    if "pattern_matches p (m, xs)" "pattern_matches q (m, xs)" "(p, h) \<in> set mux" "(q, k) \<in> set mux"
    for p q h k
    using that assms(2) compare_requests [OF wf [OF that(3)] wf [OF that(4)]]
    by (auto simp: set_rel_def pattern_matches_requests)
  have "(\<lambda>(p, _). pattern_matches p (m, xs) \<and> list_all (\<lambda>(q, _). pattern_matches q (m, xs) \<longrightarrow>
      comparePathsAndMethods p q = Equivalent \<or> comparePathsAndMethods p q = MoreSpecific) mux) (p, h)"
    using p sub best [OF p(2) _ p(1)] by (fastforce simp: list_all_iff)
  then have "best_match mux (m, xs) \<noteq> None"
    unfolding best_match_def find_None_iff using p(1) by blast
  then obtain p' h' where b: "best_match mux (m, xs) = Some (p', h')" by auto
  then have "(p', h') \<in> set mux" "pattern_matches p' (m, xs)"
    and "\<forall>(q, k) \<in> set mux. pattern_matches q (m, xs) \<longrightarrow> comparePathsAndMethods p' q = Equivalent
      \<or> comparePathsAndMethods p' q = MoreSpecific"
    by (auto simp: best_match_def find_Some_iff list_all_iff) (metis nth_mem)
  with b best show ?thesis by blast
qed

lemma wf_path_segments: "path \<noteq> [] \<Longrightarrow> wf_segments (path_segments path)"
proof (induction path rule: path_segments.induct)
  case (1 path)
  then obtain c rest where p: "path = c # rest" by (cases path) auto
  let ?next = "dropWhile (\<lambda>c. c \<noteq> CHR ''/'') rest"
  show ?case
  proof (cases "rest = []")
    case True
    then show ?thesis by (simp add: p path_segments.simps [of "[c]"] wf_segments_def)
  next
    case False
    then have eq: "path_segments path = Lit (takeWhile (\<lambda>c. c \<noteq> CHR ''/'') rest) # path_segments ?next"
      by (simp add: p path_segments.simps [of "c # rest"])
    have "path_segments ?next = []" if "?next = []"
      unfolding that by (simp add: path_segments.simps [of "[]"])
    with "1.IH" [OF p False] show ?thesis by (auto simp: eq wf_segments_Cons)
  qed
qed

lemma Handle_wf_mux:
  assumes "Handle s h mux = Some mux'" "wf_mux mux" "wf_segments (segments (parsePattern s))"
  shows "wf_mux mux'"
  using assms by (auto simp: Handle_def wf_mux_def Let_def list_ex_iff sorted_wrt_append
      split: if_splits)

lemma handle_all_wf_mux:
  assumes "handle_all rs mux = Some mux'" "wf_mux mux"
    "list_all (\<lambda>(s, _). wf_segments (segments (parsePattern s))) rs"
  shows "wf_mux mux'"
  using assms
proof (induction rs mux rule: handle_all.induct)
  case (2 s h rs mux)
  then obtain mux1 where "Handle s h mux = Some mux1" "handle_all rs mux1 = Some mux'"
    by (auto simp: Option.bind_eq_Some_conv)
  with 2 show ?case using Handle_wf_mux by fastforce
qed simp

lemma wf_mux_Nil: "wf_mux []" by (simp add: wf_mux_def)

lemma split_path_one:
  assumes "CHR ''/'' \<notin> set x"
  shows "split_path (CHR ''/'' # rest) = [x] \<longleftrightarrow> rest = x"
proof -
  let ?next = "dropWhile (\<lambda>c. c \<noteq> CHR ''/'') rest"
  have "split_path ?next = [] \<longleftrightarrow> ?next = []"
    by (subst split_path.simps) (simp del: dropWhile_eq_Nil_conv split: list.splits)
  then have "split_path (CHR ''/'' # rest) = [x] \<longleftrightarrow>
      takeWhile (\<lambda>c. c \<noteq> CHR ''/'') rest = x \<and> ?next = []"
    by (simp add: split_path.simps [of "CHR ''/'' # rest"] del: dropWhile_eq_Nil_conv)
  also have "\<dots> \<longleftrightarrow> rest = x"
  proof
    show "rest = x" if "takeWhile (\<lambda>c. c \<noteq> CHR ''/'') rest = x \<and> ?next = []"
      using that takeWhile_dropWhile_id [of "\<lambda>c. c \<noteq> CHR ''/''" rest] by (metis append_Nil2)
    show "takeWhile (\<lambda>c. c \<noteq> CHR ''/'') rest = x \<and> ?next = []" if "rest = x"
      unfolding that takeWhile_eq_all_conv dropWhile_eq_Nil_conv using assms by metis
  qed
  finally show ?thesis .
qed

lemma match_segments_one: "match_segments [Lit s] xs \<longleftrightarrow> xs = [s]"
  by (cases xs) auto

lemmas route_defs =
  route_def best_match_def pattern_matches_def match_method_def match_segments_one Let_def
  comparePathsAndMethods_def compareMethods_def comparePaths_def ends_multi_def

end
