(* ===== verification/Serve_Machine.thy ===== *)
theory Serve_Machine
  imports Lab_Prelude Go_HTTP
begin

text \<open>
  Running an HTTP server until a context is done. \<open>obs.Serve\<close> and \<open>Server.Start\<close> of the operator
  have the same shape: a goroutine that logs and sends the error of \<open>ListenAndServe\<close> into a channel
  with room for one, and a \<open>select\<close> on the context and that channel; the first case calls
  \<open>Shutdown\<close>, which has a deadline, and returns its result. The machine interleaves the two
  goroutines and the cancellation; the two log messages are arguments. \<open>net/http\<close> is represented by
  its documented behaviour: \<open>ListenAndServe\<close> returns \<open>ErrServerClosed\<close> only after \<open>Shutdown\<close> was
  called. The lemmas show that the send never blocks, what can be returned, and that the
  whole ends once the context is done.
\<close>

section \<open>The machine\<close>

datatype listen_state = LStart | LListening | LDone
datatype select_state = SSelect | SShutdown | SReturned "net_error option"

record serving =
  sv_ctx_done :: bool
  in_shutdown :: bool
  listen_pc :: listen_state
  errCh :: "net_error option"
  select_pc :: select_state
  sv_logs :: "log_record list"

definition serving_init :: serving where
  "serving_init = \<lparr>sv_ctx_done = False, in_shutdown = False, listen_pc = LStart, errCh = None,
     select_pc = SSelect, sv_logs = []\<rparr>"

datatype serving_event =
  SvCancel
| SvListen
| SvListenEnds net_error
| SvCtx
| SvShutdownEnds "net_error option"
| SvErr

inductive serve_step :: "string \<Rightarrow> string \<Rightarrow> serving \<Rightarrow> serving_event \<Rightarrow> serving \<Rightarrow> bool"
  for listening closing where
  cancel: "\<not> sv_ctx_done s \<Longrightarrow> serve_step listening closing s SvCancel (s\<lparr>sv_ctx_done := True\<rparr>)"
| listen: "listen_pc s = LStart \<Longrightarrow> serve_step listening closing s SvListen
    (s\<lparr>listen_pc := LListening, sv_logs := sv_logs s @ [(LevelInfo, listening)]\<rparr>)"
| listen_ends: "listen_pc s = LListening \<Longrightarrow> errCh s = None \<Longrightarrow> err \<noteq> ErrServerClosed \<or> in_shutdown s \<Longrightarrow>
    serve_step listening closing s (SvListenEnds err) (s\<lparr>listen_pc := LDone, errCh := Some err\<rparr>)"
| ctx_done: "select_pc s = SSelect \<Longrightarrow> sv_ctx_done s \<Longrightarrow> serve_step listening closing s SvCtx
    (s\<lparr>select_pc := SShutdown, in_shutdown := True, sv_logs := sv_logs s @ [(LevelInfo, closing)]\<rparr>)"
| shutdown_ends: "select_pc s = SShutdown \<Longrightarrow>
    serve_step listening closing s (SvShutdownEnds r) (s\<lparr>select_pc := SReturned r\<rparr>)"
| err_received: "select_pc s = SSelect \<Longrightarrow> errCh s = Some err \<Longrightarrow> serve_step listening closing s SvErr
    (s\<lparr>select_pc := SReturned (if err = ErrServerClosed then None else Some err), errCh := None\<rparr>)"

inductive_cases serve_stepE: "serve_step l c s e s'"

section \<open>Lemmas\<close>

definition serving_rank :: "serving \<Rightarrow> nat" where
  "serving_rank s = (if sv_ctx_done s then 0 else 1)
     + (case listen_pc s of LStart \<Rightarrow> 2 | LListening \<Rightarrow> 1 | LDone \<Rightarrow> 0)
     + (case select_pc s of SSelect \<Rightarrow> 2 | SShutdown \<Rightarrow> 1 | SReturned _ \<Rightarrow> 0)"

interpretation sv: bounded_machine "\<lambda>s. s = serving_init" "serve_step l c" "\<lambda>_. True" serving_rank
  for l c
  by unfold_locales (auto simp: serving_rank_def elim!: serve_stepE)

definition serving_inv :: "serving \<Rightarrow> bool" where
  "serving_inv s \<longleftrightarrow>
     (errCh s \<noteq> None \<longrightarrow> listen_pc s = LDone)
   \<and> (select_pc s = SSelect \<longrightarrow> \<not> in_shutdown s \<and> errCh s \<noteq> Some ErrServerClosed
        \<and> (listen_pc s = LDone \<longrightarrow> errCh s \<noteq> None))
   \<and> (select_pc s = SShutdown \<longrightarrow> in_shutdown s)
   \<and> (in_shutdown s \<longrightarrow> sv_ctx_done s)
   \<and> (\<forall>r. select_pc s = SReturned r \<and> \<not> in_shutdown s \<longrightarrow>
        listen_pc s = LDone \<and> (\<exists>m. r = Some (NetError m)))"

lemma serving_inv_step: "serve_step l c s e s' \<Longrightarrow> serving_inv s \<Longrightarrow> serving_inv s'"
proof (induction rule: serve_step.induct)
  case (err_received s err)
  then obtain m where "err = NetError m" "listen_pc s = LDone" by (cases err) (auto simp: serving_inv_def)
  with err_received show ?case by (auto simp: serving_inv_def)
qed (auto simp: serving_inv_def)

lemma serving_inv_init: "serving_inv serving_init"
  by (simp add: serving_init_def serving_inv_def)

lemma serving_reachable_inv: "sv.reachable l c s \<Longrightarrow> serving_inv s"
  by (erule sv.reachable_invariant) (use serving_inv_init serving_inv_step in blast)+

text \<open>The events that happen on their own; a cancellation or a failing listener do not.\<close>

fun own_event :: "serving_event \<Rightarrow> bool" where
  "own_event SvCancel = False"
| "own_event (SvListenEnds err) = (err = ErrServerClosed)"
| "own_event _ = True"

lemma serving_progress:
  assumes "serving_inv s" "sv_ctx_done s" "\<nexists>r. select_pc s = SReturned r \<and> (listen_pc s = LDone \<or> \<not> in_shutdown s)"
  shows "\<exists>e t. serve_step l c s e t \<and> own_event e"
proof -
  consider "select_pc s = SSelect" | "select_pc s = SShutdown"
    | r where "select_pc s = SReturned r" "in_shutdown s" "listen_pc s \<noteq> LDone"
    using assms(3) by (cases "select_pc s") auto
  then show ?thesis
  proof cases
    case 1
    then show ?thesis using serve_step.ctx_done [OF _ assms(2)] own_event.simps by metis
  next
    case 2
    then show ?thesis using serve_step.shutdown_ends own_event.simps by metis
  next
    case 3
    show ?thesis
    proof (cases "listen_pc s")
      case LStart
      then show ?thesis using serve_step.listen own_event.simps by metis
    next
      case LListening
      then have "errCh s = None" using assms(1) by (auto simp: serving_inv_def)
      with LListening 3(2) show ?thesis
        using serve_step.listen_ends [of s ErrServerClosed] own_event.simps(2) by blast
    qed (use 3 in simp)
  qed
qed

lemma serving_inv_run: "sv.run l c s es t \<Longrightarrow> serving_inv s \<Longrightarrow> serving_inv t"
  by (rule sv.run_invariant) (auto intro: serving_inv_step)

section \<open>Properties\<close>

text \<open>
  C32: serving ends. From every reachable state, whether the context is done or not, and in every
  interleaving, at most five more steps happen; and in every state that is reached with the context
  done, the call has returned and its goroutine has ended if there was a shutdown, or a step of the
  code itself is possible, so that no schedule gets stuck before: the call returns, and the goroutine
  does not leak on its channel.
\<close>

theorem serve_terminates:
  assumes "sv.reachable l c s" "sv.run l c s es t"
  shows "length es \<le> 5
    \<and> (sv_ctx_done t \<longrightarrow>
         (\<exists>r. select_pc t = SReturned r \<and> (listen_pc t = LDone \<or> \<not> in_shutdown t))
       \<or> (\<exists>e u. serve_step l c t e u \<and> own_event e))"
proof -
  have "serving_rank s \<le> 5" by (simp add: serving_rank_def split: listen_state.splits select_state.splits)
  then have "length es \<le> 5" using sv.run_bounded [OF assms(2)] by simp
  moreover have "serving_inv t"
    using serving_inv_run [OF assms(2)] serving_reachable_inv [OF assms(1)] by blast
  ultimately show ?thesis
    using serving_progress [of t] by blast
qed

text \<open>A schedule in which the context is done before the goroutine runs.\<close>

definition early_cancel :: "serving_event list" where
  "early_cancel = [SvCtx, SvShutdownEnds None, SvListen, SvListenEnds ErrServerClosed]"

lemma early_cancel_run:
  "\<exists>t. sv.run l c (serving_init\<lparr>sv_ctx_done := True\<rparr>) early_cancel t \<and> select_pc t = SReturned None
     \<and> listen_pc t = LDone \<and> sv_logs t = [(LevelInfo, c), (LevelInfo, l)]"
proof -
  let ?s0 = "serving_init\<lparr>sv_ctx_done := True\<rparr>"
  let ?s1 = "?s0\<lparr>select_pc := SShutdown, in_shutdown := True, sv_logs := [(LevelInfo, c)]\<rparr>"
  let ?s2 = "?s1\<lparr>select_pc := SReturned None\<rparr>"
  let ?s3 = "?s2\<lparr>listen_pc := LListening, sv_logs := [(LevelInfo, c), (LevelInfo, l)]\<rparr>"
  let ?s4 = "?s3\<lparr>listen_pc := LDone, errCh := Some ErrServerClosed\<rparr>"
  have "serve_step l c ?s0 SvCtx ?s1"
    using serve_step.ctx_done [of ?s0 l c] by (simp add: serving_init_def)
  moreover have "serve_step l c ?s1 (SvShutdownEnds None) ?s2"
    by (rule serve_step.shutdown_ends) simp
  moreover have "serve_step l c ?s2 SvListen ?s3"
    using serve_step.listen [of ?s2 l c] by (simp add: serving_init_def)
  moreover have "serve_step l c ?s3 (SvListenEnds ErrServerClosed) ?s4"
    by (rule serve_step.listen_ends) (simp_all add: serving_init_def)
  ultimately have "sv.run l c ?s0 early_cancel ?s4"
    unfolding early_cancel_def sv.run_Cons_iff sv.run_Nil_iff by blast
  then show ?thesis by (intro exI [of _ ?s4]) simp
qed

lemma cancelled_reachable: "sv.reachable l c (serving_init\<lparr>sv_ctx_done := True\<rparr>)"
  by (rule sv.reachable_step [OF sv.reachable_init [OF refl] serve_step.cancel]) (simp add: serving_init_def)

theorem serve_terminates_witness:
  "\<exists>t. sv.run ''listening'' ''closing'' (serving_init\<lparr>sv_ctx_done := True\<rparr>) early_cancel t
     \<and> length early_cancel \<le> 5 \<and> (\<exists>r. select_pc t = SReturned r)"
proof -
  obtain t where t: "sv.run ''listening'' ''closing'' (serving_init\<lparr>sv_ctx_done := True\<rparr>) early_cancel t"
    "select_pc t = SReturned None" using early_cancel_run by blast
  from serve_terminates [OF cancelled_reachable t(1)] t show ?thesis by auto
qed

text \<open>
  What serving returns, in every interleaving. A call that returned either saw the context
  done and returned the result of \<open>Shutdown\<close>, or returned a failure of the listener, which has
  ended; in particular the case of the \<open>select\<close> that turns \<open>ErrServerClosed\<close> into nil is never
  taken. The channel is empty whenever the goroutine is about to send, so the send never blocks.
\<close>

theorem serve_outcome:
  assumes "sv.reachable l c s"
  shows "(listen_pc s = LDone \<or> errCh s = None)
    \<and> (select_pc s = SSelect \<longrightarrow> errCh s \<noteq> Some ErrServerClosed)
    \<and> (\<forall>r. select_pc s = SReturned r \<longrightarrow>
        in_shutdown s \<and> sv_ctx_done s \<or> listen_pc s = LDone \<and> (\<exists>m. r = Some (NetError m)))"
  using serving_reachable_inv [OF assms] by (auto simp: serving_inv_def)

theorem serve_outcome_witness:
  "\<exists>s. sv.reachable ''listening'' ''closing'' s \<and> select_pc s = SReturned None \<and> sv_ctx_done s"
proof -
  obtain t where t: "sv.run ''listening'' ''closing'' (serving_init\<lparr>sv_ctx_done := True\<rparr>) early_cancel t"
    "select_pc t = SReturned None" using early_cancel_run by blast
  have "sv.run ''listening'' ''closing'' serving_init [SvCancel] (serving_init\<lparr>sv_ctx_done := True\<rparr>)"
    using serve_step.cancel [of serving_init] by (simp add: sv.run_Cons_iff serving_init_def)
  with t(1) have "sv.run ''listening'' ''closing'' serving_init ([SvCancel] @ early_cancel) t"
    unfolding sv.run_append by blast
  then have "sv.reachable ''listening'' ''closing'' t" unfolding sv.reachable_def by blast
  from serve_outcome [OF this] this t(2) show ?thesis by blast
qed

end
