(* ===== verification/Operator_Server.thy ===== *)
theory Operator_Server
  imports Remedy_Rollback Remedy_Scale Remedy_CircuitBreak Dedupe Go_Time Go_Mux Serve_Machine
begin

text \<open>
  The webhook server (\<open>operator/internal/server\<close>): the AlertManager payload and its decoding,
  the server's configuration with its defaults, the alert handler with its loop over the
  alerts of a payload, and the dispatch of an accepted alert to its remedy. The loop is
  written over the gate's and the dispatcher's operations, as the handler calls them, so that
  its lemmas rest on the gate's interface alone.
\<close>

section \<open>Payloads\<close>

record Alert =
  Status :: string
  Labels :: "labels option"
  Annotations :: "(string \<rightharpoonup> string) option"
  StartsAt :: go_time
  EndsAt :: go_time
  Fingerprint :: string

record AlertManagerPayload =
  Version :: string
  GroupKey :: string
  PStatus :: string
  Receiver :: string
  Alerts :: "Alert list"

definition zero_alert :: Alert where
  "zero_alert = \<lparr>Status = '''', Labels = None, Annotations = None, StartsAt = zero_time,
     EndsAt = zero_time, Fingerprint = ''''\<rparr>"

definition zero_payload :: AlertManagerPayload where
  "zero_payload = \<lparr>Version = '''', GroupKey = '''', PStatus = '''', Receiver = '''', Alerts = []\<rparr>"

definition Firing :: "Alert \<Rightarrow> bool" where
  "Firing a \<longleftrightarrow> Status a = ''firing''"

definition labels_of :: "Alert \<Rightarrow> labels" where
  "labels_of a = (case Labels a of None \<Rightarrow> (\<lambda>_. None) | Some m \<Rightarrow> m)"

definition dec_alert :: "Alert dec" where
  "dec_alert = dec_struct
    [(''status'', field Status Status_update dec_string),
     (''labels'', field Labels Labels_update dec_map),
     (''annotations'', field Annotations Annotations_update dec_map),
     (''startsAt'', field StartsAt StartsAt_update dec_time),
     (''endsAt'', field EndsAt EndsAt_update dec_time),
     (''fingerprint'', field Fingerprint Fingerprint_update dec_string)]"

definition dec_payload :: "AlertManagerPayload dec" where
  "dec_payload = dec_struct
    [(''version'', field Version Version_update dec_string),
     (''groupKey'', field GroupKey GroupKey_update dec_string),
     (''status'', field PStatus PStatus_update dec_string),
     (''receiver'', field Receiver Receiver_update dec_string),
     (''alerts'', field Alerts Alerts_update (dec_slice dec_alert zero_alert))]"

section \<open>Configuration\<close>

record 'c Config =
  Addr :: string
  CfgClient :: "'c client"
  CfgVersion :: string
  Cooldown :: duration
  CfgNamespace :: string
  Remedies :: "'c Registry option"

record 'c Server =
  cfg :: "'c Config"
  dedupe :: Dedupe

definition New :: "'c Config \<Rightarrow> 'c Server" where
  "New c0 =
    (let c1 = (if Cooldown c0 \<le> 0 then c0\<lparr>Cooldown := 10 * minute\<rparr> else c0);
         c2 = (if CfgNamespace c1 = '''' then c1\<lparr>CfgNamespace := ''reliability-lab''\<rparr> else c1);
         c3 = (case Remedies c2 of None \<Rightarrow> c2\<lparr>Remedies := Some NewRegistry\<rparr> | Some _ \<Rightarrow> c2)
     in \<lparr>cfg = c3, dedupe = NewDedupe (Cooldown c3)\<rparr>)"

text \<open>A nil registry would be dereferenced by \<open>Apply\<close>; \<open>New\<close> never leaves one.\<close>

definition registry_of :: "'c Config \<Rightarrow> 'c Registry" where
  "registry_of c = (case Remedies c of None \<Rightarrow> NewRegistry | Some r \<Rightarrow> r)"

section \<open>Handling a webhook\<close>

definition dispatch :: "(nat \<Rightarrow> bool) \<Rightarrow> 'c Config \<Rightarrow> Alert \<Rightarrow> 'c world \<Rightarrow> 'c world" where
  "dispatch wide c a w =
    (let d = Classify wide (labels_of a)
     in if Kind d = NoRemedy then log LevelInfo ''no remedy for alert'' w
        else
          (let inp = \<lparr>Client = CfgClient c, Namespace = CfgNamespace c, InDecision = d\<rparr>;
               (err, w1) = Registry_Apply (registry_of c) inp w
           in case err of
                Some _ \<Rightarrow> log LevelError ''remedy apply failed'' w1
              | None \<Rightarrow> w1))"

definition cooldown_msg :: string where
  "cooldown_msg = ''inside cooldown '' @ [CHR 0xE2, CHR 0x80, CHR 0x94] @ '' skipping''"

fun alert_loop :: "(string \<Rightarrow> instant \<Rightarrow> 'g \<Rightarrow> bool \<times> 'g) \<Rightarrow> (Alert \<Rightarrow> 'c world \<Rightarrow> 'c world) \<Rightarrow>
    instant \<Rightarrow> Alert list \<Rightarrow> 'g \<Rightarrow> 'c world \<Rightarrow> 'g \<times> 'c world" where
  "alert_loop acquire disp now [] g w = (g, w)"
| "alert_loop acquire disp now (a # as) g w =
    (if \<not> Firing a then
       alert_loop acquire disp now as g (log LevelDebug ''resolved alert (no remedy)'' w)
     else
       (let (ok, g1) = acquire (Fingerprint a) now g
        in if \<not> ok then alert_loop acquire disp now as g1 (log LevelDebug cooldown_msg w)
           else alert_loop acquire disp now as g1
             (disp a (log LevelInfo ''firing alert accepted for remedy dispatch'' w))))"

definition handleAlert :: "(nat \<Rightarrow> bool) \<Rightarrow> instant \<Rightarrow> string \<Rightarrow>
    'c Server \<times> 'c world \<Rightarrow> wcall list \<times> 'c Server \<times> 'c world" where
  "handleAlert wide now req_body sw =
    (let (s, w) = sw
     in case Decode dec_payload zero_payload req_body of
       None \<Rightarrow> (http_Error ''bad payload'' StatusBadRequest, s,
                log LevelError ''decode AlertManager payload'' w)
     | Some p \<Rightarrow>
        (let (d, w1) = alert_loop Acquire (dispatch wide (cfg s)) now (Alerts p) (dedupe s) w
         in ([WriteHeader StatusAccepted], s\<lparr>dedupe := d\<rparr>, w1)))"

text \<open>The server and the world after a request.\<close>

definition handleAlert_state :: "(nat \<Rightarrow> bool) \<Rightarrow> instant \<Rightarrow> string \<Rightarrow> 'c Server \<times> 'c world \<Rightarrow>
    'c Server \<times> 'c world" where
  "handleAlert_state wide now req_body sw = snd (handleAlert wide now req_body sw)"

text \<open>The alerts of a payload that pass the gate, in order.\<close>

fun accepted :: "(string \<Rightarrow> instant \<Rightarrow> 'g \<Rightarrow> bool \<times> 'g) \<Rightarrow> instant \<Rightarrow> Alert list \<Rightarrow> 'g \<Rightarrow>
    Alert list \<times> 'g" where
  "accepted acquire now [] g = ([], g)"
| "accepted acquire now (a # as) g =
    (if \<not> Firing a then accepted acquire now as g
     else (let (ok, g1) = acquire (Fingerprint a) now g; (bs, g2) = accepted acquire now as g1
           in (if ok then a # bs else bs, g2)))"

section \<open>Routing and lifecycle\<close>

datatype server_handler = HHealthz | HAlerts

definition server_mux :: "(pattern \<times> server_handler) list option" where
  "server_mux = handle_all [(''GET /healthz'', HHealthz), (''POST /alerts'', HAlerts)] []"

definition serve_healthz :: "wcall list" where
  "serve_healthz = [WriteHeader StatusOK, Write ''ok'']"

text \<open>One request through the mux that \<open>Start\<close> builds.\<close>

definition Server_ServeHTTP :: "(nat \<Rightarrow> bool) \<Rightarrow> (pattern \<times> server_handler) list \<Rightarrow>
    string \<Rightarrow> string \<Rightarrow> instant \<Rightarrow> string \<Rightarrow> 'c Server \<times> 'c world \<Rightarrow> wcall list \<times> 'c Server \<times> 'c world"
  where
  "Server_ServeHTTP wide mux method path now req_body sw =
    (case route mux method path of
       Routed HHealthz \<Rightarrow> (serve_healthz, sw)
     | Routed HAlerts \<Rightarrow> handleAlert wide now req_body sw
     | r \<Rightarrow> (serve_mux (\<lambda>_. []) r, sw))"

text \<open>\<open>Start\<close> serves that mux until its context is done.\<close>

definition Server_Start :: "serving \<Rightarrow> serving_event \<Rightarrow> serving \<Rightarrow> bool" where
  "Server_Start = serve_step ''webhook listening'' ''webhook shutting down''"

text \<open>A payload with one firing page alert, the concrete input of the examples.\<close>

definition quoted :: "string \<Rightarrow> string" where
  "quoted s = CHR 0x22 # s @ [CHR 0x22]"

definition sample_body :: string where
  "sample_body =
    CHR 0x7B # quoted ''alerts'' @ '':['' @ CHR 0x7B # quoted ''status'' @ '':'' @ quoted ''firing'' @ '','' @
    quoted ''labels'' @ '':'' @ CHR 0x7B # quoted ''severity'' @ '':'' @ quoted ''page'' @ '','' @
    quoted ''service'' @ '':'' @ quoted ''email-worker'' @ CHR 0x7D # '','' @
    quoted ''fingerprint'' @ '':'' @ quoted ''f1'' @ CHR 0x7D # '']'' @ [CHR 0x7D]"

definition sample_alert :: Alert where
  "sample_alert = zero_alert\<lparr>Status := ''firing'',
     Labels := Some [''severity'' \<mapsto> ''page'', ''service'' \<mapsto> ''email-worker''], Fingerprint := ''f1''\<rparr>"

definition sample_config :: "kube_view Config" where
  "sample_config = \<lparr>Addr = '':8088'', CfgClient = mem_client, CfgVersion = ''dev'', Cooldown = minute,
     CfgNamespace = ''reliability-lab'',
     Remedies = Some (Register CircuitBreak CircuitBreak_Apply NewRegistry)\<rparr>"

section \<open>Lemmas\<close>

lemma server_mux_eq: "server_mux = Some [(\<lparr>pmethod = ''GET'', segments = [Lit ''healthz'']\<rparr>, HHealthz),
    (\<lparr>pmethod = ''POST'', segments = [Lit ''alerts'']\<rparr>, HAlerts)]"
  by code_simp

lemma server_route: assumes "server_mux = Some mux" "m \<noteq> ''''"
  shows "route mux m (CHR ''/'' # p) =
     (if p = ''healthz'' then (if m = ''GET'' \<or> m = ''HEAD'' then Routed HHealthz else MethodNotAllowed)
      else if p = ''alerts'' then (if m = ''POST'' then Routed HAlerts else MethodNotAllowed)
      else PageNotFound)"
proof -
  have split: "split_path (CHR ''/'' # p) = [''healthz''] \<longleftrightarrow> p = ''healthz''"
   "split_path (CHR ''/'' # p) = [''alerts''] \<longleftrightarrow> p = ''alerts''"
    by (simp_all add: split_path_one)
  have mux: "mux = [(\<lparr>pmethod = ''GET'', segments = [Lit ''healthz'']\<rparr>, HHealthz),
    (\<lparr>pmethod = ''POST'', segments = [Lit ''alerts'']\<rparr>, HAlerts)]"
    using assms(1) server_mux_eq by (metis option.inject)
  obtain xs where xs: "split_path (CHR ''/'' # p) = xs" by blast
  consider "xs = [''healthz'']" "p = ''healthz''" | "xs = [''alerts'']" "p = ''alerts''"
    | "xs \<noteq> [''healthz'']" "xs \<noteq> [''alerts'']" "p \<noteq> ''healthz''" "p \<noteq> ''alerts''"
    using split xs by blast
  then show ?thesis
    using assms(2) unfolding mux by cases (simp_all add: xs route_defs split_path_one)
qed

lemma sample_scan: "scan MValue [] sample_body = Some (JObj [(''alerts'', JArr [JObj
    [(''status'', JStr ''firing''),
     (''labels'', JObj [(''severity'', JStr ''page''), (''service'', JStr ''email-worker'')]),
     (''fingerprint'', JStr ''f1'')]])], [])"
  by code_simp

lemma sample_decode:
  "Decode dec_payload zero_payload sample_body = Some (zero_payload\<lparr>Alerts := [sample_alert]\<rparr>)"
  unfolding Decode_scanned [OF sample_scan]
  by (simp add: dec_payload_def dec_alert_def zero_payload_def zero_alert_def sample_alert_def json_simps)


lemma alert_loop_gate:
  "fst (alert_loop acquire disp now as g w) = snd (accepted acquire now as g)"
  by (induction as arbitrary: g w) (auto simp: Let_def split: prod.splits)

lemma accepted_subset: "set (fst (accepted acquire now as g)) \<subseteq> {a \<in> set as. Firing a}"
proof (induction as arbitrary: g)
  case (Cons a as)
  obtain b g1 where a: "acquire (Fingerprint a) now g = (b, g1)"
    by (cases "acquire (Fingerprint a) now g")
  have "fst (accepted acquire now (a # as) g) =
      (if Firing a \<and> b then a # fst (accepted acquire now as g1)
       else if Firing a then fst (accepted acquire now as g1) else fst (accepted acquire now as g))"
    using a by (simp split: prod.splits)
  with Cons [of g] Cons [of g1] show ?case by auto
qed simp

lemma New_cooldown_ok:
  "Cooldown c \<le> max_duration \<Longrightarrow> cooldown_ok (dedupe (New c))"
  by (auto simp: New_def Let_def cooldown_ok_def NewDedupe_def max_duration_def split: option.splits)

lemma dispatch_NoRemedy:
  "Kind (Classify wide (labels_of a)) = NoRemedy \<Longrightarrow>
   calls (dispatch wide c a w) = calls w \<and> cluster (dispatch wide c a w) = cluster w"
  by (simp add: dispatch_def Let_def)

context alert_gate
begin

text \<open>Within one payload, which has a single clock reading, a fingerprint passes the gate at
  most once, and not at all when it was stamped less than a window before.\<close>

lemma accepted_stamped:
  assumes "ok g" "fp \<noteq> ''''" "stamp g fp = Some t" "now - t < window g" "t \<le> now"
  shows "fp \<notin> Fingerprint ` set (fst (accepted acquire now as g))"
  using assms
proof (induction as arbitrary: g t)
  case (Cons a as)
  obtain b g1 where a: "acquire (Fingerprint a) now g = (b, g1)"
    by (cases "acquire (Fingerprint a) now g")
  obtain t' where t': "stamp g1 fp = Some t'" "t' = t \<or> t' = now"
    using stamp_survives [OF Cons.prems(1,3,4) a] by blast
  have 1: "ok g1" "window g1 = window g"
    using ok_kept [OF a Cons.prems(1)] window_kept [OF a] by auto
  have "now - t' < window g1" "t' \<le> now"
    using t'(2) Cons.prems(4,5) window_pos [OF Cons.prems(1)] 1(2) by auto
  then have IH: "fp \<notin> Fingerprint ` set (fst (accepted acquire now as g1))"
    using Cons.IH [OF 1(1) Cons.prems(2) t'(1)] by blast
  show ?case
  proof (cases "Firing a")
    case True
    have "b \<Longrightarrow> Fingerprint a \<noteq> fp"
      using refused_in_window [OF Cons.prems(1,2,3,4)] a by auto
    then show ?thesis
      using IH a True by (auto split: prod.splits)
  next
    case False
    then show ?thesis using Cons.IH [OF Cons.prems] by simp
  qed
qed simp

lemma accepted_distinct:
  assumes "ok g"
  shows "distinct (filter (\<lambda>fp. fp \<noteq> '''') (map Fingerprint (fst (accepted acquire now as g))))"
  using assms
proof (induction as arbitrary: g)
  case (Cons a as)
  obtain b g1 where a: "acquire (Fingerprint a) now g = (b, g1)"
    by (cases "acquire (Fingerprint a) now g")
  have g1: "ok g1" using ok_kept [OF a Cons.prems] .
  have "Fingerprint a \<notin> Fingerprint ` set (fst (accepted acquire now as g1))"
    if "b" "Fingerprint a \<noteq> ''''"
  proof -
    have "stamp g1 (Fingerprint a) = Some now"
      using granted_now [OF Cons.prems that(2)] a that(1) by simp
    then show ?thesis
      using accepted_stamped [OF g1 that(2)] window_pos [OF g1] by simp
  qed
  then show ?case
    using Cons.IH [OF g1] Cons.IH [OF Cons.prems] a by (auto split: prod.splits)
qed simp

text \<open>Every fingerprint that passed is stamped with the payload's clock reading at the end.\<close>

lemma accepted_kept:
  "ok (snd (accepted acquire now as g)) \<and> window (snd (accepted acquire now as g)) = window g"
  if "ok g"
  using that
proof (induction as arbitrary: g)
  case (Cons a as)
  obtain b g1 where a: "acquire (Fingerprint a) now g = (b, g1)"
    by (cases "acquire (Fingerprint a) now g")
  then show ?case
    using Cons.IH [OF ok_kept [OF a Cons.prems]] Cons.IH [OF Cons.prems] window_kept [OF a]
    by (auto split: prod.splits)
qed simp

lemma stamp_now_survives:
  assumes "ok g" "stamp g fp = Some now"
  shows "stamp (snd (accepted acquire now as g)) fp = Some now"
  using assms
proof (induction as arbitrary: g)
  case (Cons a as)
  obtain b g1 where a: "acquire (Fingerprint a) now g = (b, g1)"
    by (cases "acquire (Fingerprint a) now g")
  have "stamp g1 fp = Some now"
    using stamp_survives [OF Cons.prems _ a] window_pos [OF Cons.prems(1)] by auto
  then show ?case
    using Cons.IH [OF ok_kept [OF a Cons.prems(1)]] Cons.IH [OF Cons.prems] a
    by (auto split: prod.splits)
qed simp

lemma accepted_stamps:
  assumes "ok g" "fp \<in> Fingerprint ` set (fst (accepted acquire now as g))" "fp \<noteq> ''''"
  shows "stamp (snd (accepted acquire now as g)) fp = Some now"
  using assms
proof (induction as arbitrary: g)
  case (Cons a as)
  obtain b g1 where a: "acquire (Fingerprint a) now g = (b, g1)"
    by (cases "acquire (Fingerprint a) now g")
  have g1: "ok g1" using ok_kept [OF a Cons.prems(1)] .
  consider "\<not> Firing a" | "Firing a" "b" "fp = Fingerprint a"
    | "Firing a" "fp \<in> Fingerprint ` set (fst (accepted acquire now as g1))"
    using Cons.prems(2) a by (auto split: prod.splits if_splits)
  then show ?case
  proof cases
    case 1
    then show ?thesis using Cons.IH [OF Cons.prems(1)] Cons.prems by simp
  next
    case 2
    then have "stamp g1 fp = Some now" using granted_now [OF Cons.prems(1,3)] a by simp
    from stamp_now_survives [OF g1 this, of as] 2(1) a show ?thesis by (simp add: case_prod_unfold Let_def)
  next
    case 3
    with Cons.IH [OF g1 3(2) Cons.prems(3)] a show ?thesis by (simp add: case_prod_unfold Let_def)
  qed
qed simp

end

text \<open>The loop as a sequence of actions: the records it logs and the alerts it dispatches.\<close>

datatype loop_act = LogAct log_level string | DispatchAct Alert

fun run_act :: "(Alert \<Rightarrow> 'c world \<Rightarrow> 'c world) \<Rightarrow> loop_act \<Rightarrow> 'c world \<Rightarrow> 'c world" where
  "run_act disp (LogAct l m) w = log l m w"
| "run_act disp (DispatchAct a) w = disp a w"

fun loop_acts :: "(string \<Rightarrow> instant \<Rightarrow> 'g \<Rightarrow> bool \<times> 'g) \<Rightarrow> instant \<Rightarrow> Alert list \<Rightarrow> 'g \<Rightarrow> loop_act list"
  where
  "loop_acts acquire now [] g = []"
| "loop_acts acquire now (a # as) g =
    (if \<not> Firing a then
       LogAct LevelDebug ''resolved alert (no remedy)'' # loop_acts acquire now as g
     else (let (ok, g1) = acquire (Fingerprint a) now g
           in (if ok then [LogAct LevelInfo ''firing alert accepted for remedy dispatch'',
                           DispatchAct a]
               else [LogAct LevelDebug cooldown_msg]) @ loop_acts acquire now as g1))"

fun dispatched :: "loop_act list \<Rightarrow> Alert list" where
  "dispatched [] = []"
| "dispatched (DispatchAct a # xs) = a # dispatched xs"
| "dispatched (LogAct l m # xs) = dispatched xs"

lemma dispatched_append [simp]: "dispatched (xs @ ys) = dispatched xs @ dispatched ys"
  by (induction xs rule: dispatched.induct) auto

lemma alert_loop_acts:
  "alert_loop acquire disp now as g w =
    (snd (accepted acquire now as g), fold (run_act disp) (loop_acts acquire now as g) w)"
  by (induction as arbitrary: g w) (auto simp: Let_def split: prod.splits)

lemma dispatched_loop_acts:
  "dispatched (loop_acts acquire now as g) = fst (accepted acquire now as g)"
  by (induction as arbitrary: g) (auto simp: Let_def split: prod.splits)

lemma acts_quiet:
  "dispatched acts = [] \<Longrightarrow>
   cluster (fold (run_act disp) acts w) = cluster w \<and> calls (fold (run_act disp) acts w) = calls w"
proof (induction acts arbitrary: w)
  case (Cons x acts)
  then show ?case by (cases x) simp_all
qed simp

lemma loop_acts_quiet:
  assumes "\<And>a w. a \<in> set (dispatched acts) \<Longrightarrow> calls (disp a w) = calls w \<and> cluster (disp a w) = cluster w"
  shows "calls (fold (run_act disp) acts w) = calls w
    \<and> cluster (fold (run_act disp) acts w) = cluster w"
  using assms
proof (induction acts arbitrary: w)
  case (Cons x xs)
  then show ?case by (cases x) auto
qed simp

lemma handleAlert_decoded:
  assumes "Decode dec_payload zero_payload req_body = Some p"
  shows "handleAlert wide now req_body (s, w) =
    ([WriteHeader StatusAccepted], s\<lparr>dedupe := snd (accepted Acquire now (Alerts p) (dedupe s))\<rparr>,
     fold (run_act (dispatch wide (cfg s))) (loop_acts Acquire now (Alerts p) (dedupe s)) w)"
  using assms by (simp add: handleAlert_def alert_loop_acts)

section \<open>Properties\<close>

text \<open>
  The webhook answers 202 exactly when the payload parses, whatever the remedies do, and
  400 otherwise; a payload that does not parse changes neither the gate nor the cluster and
  issues no API call. So a failing remedy cannot make AlertManager retry.
\<close>

theorem handleAlert_response:
  "code (fst (handleAlert wide now req_body (s, w))) =
     (if Decode dec_payload zero_payload req_body = None
      then StatusBadRequest else StatusAccepted)
   \<and> (Decode dec_payload zero_payload req_body = None \<longrightarrow>
       body (respond (fst (handleAlert wide now req_body (s, w)))) = ''bad payload'' @ [CHR 0x0A]
       \<and> fst (snd (handleAlert wide now req_body (s, w))) = s
       \<and> cluster (snd (snd (handleAlert wide now req_body (s, w)))) = cluster w
       \<and> calls (snd (snd (handleAlert wide now req_body (s, w)))) = calls w)"
proof (cases "Decode dec_payload zero_payload req_body")
  case None
  then show ?thesis by (simp add: handleAlert_def informational_def)
next
  case (Some p)
  then show ?thesis by (simp add: handleAlert_decoded informational_def)
qed

theorem handleAlert_response_witness:
  "code (fst (handleAlert (\<lambda>_. True) 0 ''[1]''
      (New \<lparr>Addr = '''', CfgClient = mem_client, CfgVersion = '''', Cooldown = 0,
            CfgNamespace = '''', Remedies = None\<rparr>, mem_world empty_view))) = StatusBadRequest"
proof -
  have "Decode dec_payload zero_payload ''[1]'' = None"
    by (simp add: Decode_def dec_payload_def dec_struct_def begin_value_def end_value_def
        top_value_def num_final_def is_ws_def is_digit_def maxNestingDepth_def)
  then show ?thesis
    using handleAlert_response [of "\<lambda>_. True" 0 "''[1]''"
        "New \<lparr>Addr = '''', CfgClient = mem_client, CfgVersion = '''', Cooldown = 0,
          CfgNamespace = '''', Remedies = None\<rparr>" "mem_world empty_view"] by simp
qed

text \<open>
  C4: what the handler does with a payload that parses. It runs, in the order of the payload,
  exactly the dispatches of the firing alerts that pass the gate at the request's single
  clock reading, interleaved only with its own log records; in one payload a named
  fingerprint is dispatched at most once.
\<close>

theorem handleAlert_dispatches:
  assumes "Decode dec_payload zero_payload req_body = Some p" "cooldown_ok (dedupe s)"
  shows "\<exists>acts. snd (snd (handleAlert wide now req_body (s, w))) =
      fold (run_act (dispatch wide (cfg s))) acts w
    \<and> dispatched acts = fst (accepted Acquire now (Alerts p) (dedupe s))
    \<and> (\<forall>a \<in> set (dispatched acts). a \<in> set (Alerts p) \<and> Firing a)
    \<and> distinct (filter (\<lambda>fp. fp \<noteq> '''') (map Fingerprint (dispatched acts)))"
proof (intro exI conjI)
  let ?acts = "loop_acts Acquire now (Alerts p) (dedupe s)"
  show "snd (snd (handleAlert wide now req_body (s, w))) =
      fold (run_act (dispatch wide (cfg s))) ?acts w"
    by (simp add: handleAlert_decoded [OF assms(1)])
  show "dispatched ?acts = fst (accepted Acquire now (Alerts p) (dedupe s))"
    by (rule dispatched_loop_acts)
  show "\<forall>a \<in> set (dispatched ?acts). a \<in> set (Alerts p) \<and> Firing a"
    unfolding dispatched_loop_acts using accepted_subset [of Acquire now "Alerts p" "dedupe s"] by auto
  show "distinct (filter (\<lambda>fp. fp \<noteq> '''') (map Fingerprint (dispatched ?acts)))"
    unfolding dispatched_loop_acts by (rule dedupe_gate.accepted_distinct [OF assms(2)])
qed

theorem handleAlert_dispatches_witness:
  "\<exists>acts. snd (snd (handleAlert (\<lambda>_. True) 0 sample_body
      (\<lparr>cfg = sample_config, dedupe = NewDedupe minute\<rparr>, mem_world empty_view))) =
      fold (run_act (dispatch (\<lambda>_. True) sample_config)) acts (mem_world empty_view)
    \<and> dispatched acts = [sample_alert]"
proof -
  have ok: "cooldown_ok (NewDedupe minute)" by (simp add: cooldown_ok_def max_duration_def)
  have "fst (accepted Acquire 0 [sample_alert] (NewDedupe minute)) = [sample_alert]"
    by (simp add: sample_alert_def Firing_def Acquire_def)
  then show ?thesis
    using handleAlert_dispatches [OF sample_decode, of "\<lparr>cfg = sample_config, dedupe = NewDedupe minute\<rparr>"
        "\<lambda>_. True" 0 "mem_world empty_view"] ok
    by auto
qed

text \<open>
  C5: what can touch the cluster. If handling a request issues any API call or changes the
  cluster, then the payload parsed and one of the alerts it dispatched was firing, had
  severity \<open>page\<close> and was classified to one of the three remedies: nothing else a client of
  the webhook can send makes the operator act.
\<close>

theorem handleAlert_acts_only_on_pages:
  assumes "calls (snd (snd (handleAlert wide now req_body (s, w)))) \<noteq> calls w
    \<or> cluster (snd (snd (handleAlert wide now req_body (s, w)))) \<noteq> cluster w"
  shows "\<exists>p a. Decode dec_payload zero_payload req_body = Some p
    \<and> a \<in> set (fst (accepted Acquire now (Alerts p) (dedupe s))) \<and> Firing a
    \<and> go_get (labels_of a) ''severity'' = ''page''
    \<and> Kind (Classify wide (labels_of a)) \<noteq> NoRemedy"
proof (cases "Decode dec_payload zero_payload req_body")
  case None
  then show ?thesis using assms by (simp add: handleAlert_def)
next
  case (Some p)
  let ?acts = "loop_acts Acquire now (Alerts p) (dedupe s)"
  have "\<exists>a \<in> set (dispatched ?acts). Kind (Classify wide (labels_of a)) \<noteq> NoRemedy"
  proof (rule ccontr)
    assume "\<not> ?thesis"
    then have "calls (fold (run_act (dispatch wide (cfg s))) ?acts w) = calls w
        \<and> cluster (fold (run_act (dispatch wide (cfg s))) ?acts w) = cluster w"
      by (intro loop_acts_quiet dispatch_NoRemedy) blast
    with assms show False by (simp add: handleAlert_decoded [OF Some])
  qed
  then show ?thesis
    using Some accepted_subset [of Acquire now "Alerts p" "dedupe s"] Classify_page
    unfolding dispatched_loop_acts by fastforce
qed

theorem handleAlert_acts_only_on_pages_witness:
  "\<exists>p a. Decode dec_payload zero_payload sample_body = Some p
    \<and> a \<in> set (fst (accepted Acquire 0 (Alerts p) (NewDedupe minute))) \<and> Firing a
    \<and> go_get (labels_of a) ''severity'' = ''page''
    \<and> Kind (Classify (\<lambda>_. True) (labels_of a)) \<noteq> NoRemedy"
proof -
  let ?s = "\<lparr>cfg = sample_config, dedupe = NewDedupe minute\<rparr>" and ?w = "mem_world empty_view"
  have "calls (snd (snd (handleAlert (\<lambda>_. True) 0 sample_body (?s, ?w)))) \<noteq> calls ?w"
    by (simp add: handleAlert_decoded [OF sample_decode] sample_alert_def Firing_def Acquire_def
        dispatch_def labels_of_def Classify_def sample_config_def go_get_def registry_of_def
        Registry_Apply_def CircuitBreak_Apply_def Let_def mem_defs view_defs mem_world_def
        do_get_cm_def do_create_cm_def issue_def empty_view_def)
  from handleAlert_acts_only_on_pages [OF disjI1, OF this] show ?thesis by simp
qed

text \<open>
  C29: sending an alert again is quiet for a cooldown. When a request that read the clock at \<open>t\<close>
  dispatched the alerts that its gate accepted, then a next request that read it at \<open>u\<close>, no earlier
  than \<open>t\<close> and less than a cooldown later, dispatches the alerts that the gate the first one left
  behind accepts, and none of them has a named fingerprint that was dispatched before, whatever both
  payloads contain and even if the remedies of the first request failed. So when every firing alert of
  the second payload is one of those sent again, the second request makes no API call and leaves the
  cluster as it is.
\<close>

theorem handleAlert_resend_quiet:
  assumes "Decode dec_payload zero_payload body1 = Some p1" "Decode dec_payload zero_payload body2 = Some p2"
    and "cooldown_ok (dedupe s)" "t \<le> u" "u - t < cooldown (dedupe s)"
    and "handleAlert wide t body1 (s, w) = (ops1, s1, w1)" "handleAlert wide u body2 (s1, w1) = (ops2, s2, w2)"
  shows "\<exists>acts1 acts2. w1 = fold (run_act (dispatch wide (cfg s))) acts1 w
    \<and> w2 = fold (run_act (dispatch wide (cfg s))) acts2 w1
    \<and> dispatched acts1 = fst (accepted Acquire t (Alerts p1) (dedupe s))
    \<and> dispatched acts2 = fst (accepted Acquire u (Alerts p2) (dedupe s1))
    \<and> Fingerprint ` set (dispatched acts1) \<inter> Fingerprint ` set (dispatched acts2) \<subseteq> {''''}
    \<and> ((\<forall>a \<in> set (Alerts p2). Firing a \<longrightarrow>
          Fingerprint a \<noteq> '''' \<and> Fingerprint a \<in> Fingerprint ` set (dispatched acts1)) \<longrightarrow>
        cluster w2 = cluster w1 \<and> calls w2 = calls w1)"
proof -
  let ?acts1 = "loop_acts Acquire t (Alerts p1) (dedupe s)"
  let ?acts2 = "loop_acts Acquire u (Alerts p2) (dedupe s1)"
  have s1: "dedupe s1 = snd (accepted Acquire t (Alerts p1) (dedupe s))" "cfg s1 = cfg s"
    and w1: "w1 = fold (run_act (dispatch wide (cfg s))) ?acts1 w"
    and w2: "w2 = fold (run_act (dispatch wide (cfg s))) ?acts2 w1"
    using assms(6,7) by (auto simp: handleAlert_decoded [OF assms(1)] handleAlert_decoded [OF assms(2)])
  have k: "cooldown_ok (dedupe s1)" "cooldown (dedupe s1) = cooldown (dedupe s)"
    using dedupe_gate.accepted_kept [OF assms(3)] by (simp_all add: s1)
  have "fp \<notin> Fingerprint ` set (dispatched ?acts2)"
    if "fp \<in> Fingerprint ` set (dispatched ?acts1)" "fp \<noteq> ''''" for fp
    using dedupe_gate.accepted_stamps [OF assms(3) that [unfolded dispatched_loop_acts]]
      dedupe_gate.accepted_stamped [OF k(1) that(2)] assms(4,5) k(2)
    unfolding dispatched_loop_acts s1(1) by auto
  then have disjoint: "Fingerprint ` set (dispatched ?acts1) \<inter> Fingerprint ` set (dispatched ?acts2) \<subseteq> {''''}"
    by blast
  have "cluster w2 = cluster w1 \<and> calls w2 = calls w1"
    if "\<forall>a \<in> set (Alerts p2). Firing a \<longrightarrow>
          Fingerprint a \<noteq> '''' \<and> Fingerprint a \<in> Fingerprint ` set (dispatched ?acts1)"
  proof -
    have "a \<notin> set (dispatched ?acts2)" for a
      using that disjoint accepted_subset [of Acquire u "Alerts p2" "dedupe s1"]
      unfolding dispatched_loop_acts by blast
    then have "dispatched ?acts2 = []" by (cases "dispatched ?acts2") auto
    then show ?thesis unfolding w2 by (rule acts_quiet)
  qed
  with disjoint show ?thesis
    using w1 w2 dispatched_loop_acts [of Acquire t "Alerts p1" "dedupe s"]
      dispatched_loop_acts [of Acquire u "Alerts p2" "dedupe s1"] by blast
qed

theorem handleAlert_resend_quiet_witness:
  "\<exists>ops1 s1 w1 ops2 s2 w2.
     handleAlert (\<lambda>_. True) 0 sample_body (\<lparr>cfg = sample_config, dedupe = NewDedupe minute\<rparr>, mem_world empty_view)
       = (ops1, s1, w1)
   \<and> handleAlert (\<lambda>_. True) 5 sample_body (s1, w1) = (ops2, s2, w2)
   \<and> cluster w2 = cluster w1 \<and> calls w2 = calls w1"
proof -
  let ?sw = "(\<lparr>cfg = sample_config, dedupe = NewDedupe minute\<rparr>, mem_world empty_view)"
  obtain ops1 s1 w1 where 1: "handleAlert (\<lambda>_. True) 0 sample_body ?sw = (ops1, s1, w1)"
    by (metis surj_pair)
  obtain ops2 s2 w2 where 2: "handleAlert (\<lambda>_. True) 5 sample_body (s1, w1) = (ops2, s2, w2)"
    by (metis surj_pair)
  have acc: "fst (accepted Acquire 0 [sample_alert] (NewDedupe minute)) = [sample_alert]"
    and fp: "Fingerprint sample_alert = ''f1''"
    by (simp_all add: sample_alert_def Firing_def Acquire_def)
  from handleAlert_resend_quiet [OF sample_decode sample_decode _ _ _ 1 2] acc fp
  have "cluster w2 = cluster w1 \<and> calls w2 = calls w1"
    by (auto simp: cooldown_ok_def max_duration_def)
  with 1 2 show ?thesis by blast
qed

text \<open>
  The routes of the webhook server. The two registrations of \<open>Start\<close> do not conflict; a
  \<open>POST\<close> to \<open>/alerts\<close> is handled by \<open>handleAlert\<close>, \<open>GET\<close> and \<open>HEAD\<close> on \<open>/healthz\<close> answer 200 with
  body \<open>ok\<close>, other methods on these paths are answered 405 and every other path 404, and only
  \<open>POST /alerts\<close> can change the server's state or the world.
\<close>

theorem Server_routes:
  assumes "m \<noteq> ''''"
  shows "\<exists>mux. server_mux = Some mux
    \<and> Server_ServeHTTP wide mux m (CHR ''/'' # p) now req_body sw =
       (if p = ''alerts'' \<and> m = ''POST'' then handleAlert wide now req_body sw
        else if p = ''healthz'' \<and> (m = ''GET'' \<or> m = ''HEAD'') then (serve_healthz, sw)
        else if p = ''alerts'' \<or> p = ''healthz''
             then (http_Error ''Method Not Allowed'' 405, sw)
        else (http_Error ''404 page not found'' 404, sw))"
proof -
  obtain mux where mux: "server_mux = Some mux" using server_mux_eq by blast
  show ?thesis
    by (rule exI [of _ mux], rule conjI [OF mux])
      (simp add: Server_ServeHTTP_def server_route [OF mux assms] serve_mux_def)
qed

theorem Server_routes_witness:
  "\<exists>mux. server_mux = Some mux
    \<and> Server_ServeHTTP (\<lambda>_. True) mux ''GET'' ''/alerts'' 0 ''''
        (New sample_config, mem_world empty_view) =
       (http_Error ''Method Not Allowed'' 405, New sample_config, mem_world empty_view)"
  using Server_routes [of "''GET''" "\<lambda>_. True" "''alerts''" 0 "''''"
      "(New sample_config, mem_world empty_view)"] by simp

end
