(* ===== verification/Go_JSON_Text.thy ===== *)
theory Go_JSON_Text
  imports Go_JSON
begin

text \<open>
  Encoding objects and the round trip of encoded text: a string that \<open>encode_string\<close> wrote
  scans as one literal and converts back to itself, up to the replacement of invalid UTF-8; a
  decimal number scans as written; an object of such values scans as the list of its members.
\<close>

section \<open>Encoding objects\<close>

text \<open>Members with their values already encoded, in the order given: the fields of a struct in
  their order, the keys of a map sorted.\<close>

fun encode_members :: "(string \<times> string) list \<Rightarrow> string" where
  "encode_members [] = []"
| "encode_members [(k, v)] = encode_string k @ CHR '':'' # v"
| "encode_members ((k, v) # ms) = encode_string k @ CHR '':'' # v @ CHR '','' # encode_members ms"

definition encode_object :: "(string \<times> string) list \<Rightarrow> string" where
  "encode_object ms = CHR 0x7B # encode_members ms @ [CHR 0x7D]"

fun encode_elems :: "string list \<Rightarrow> string" where
  "encode_elems [] = []"
| "encode_elems [v] = v"
| "encode_elems (v # vs) = v @ CHR '','' # encode_elems vs"

definition encode_array :: "string list \<Rightarrow> string" where
  "encode_array vs = CHR 0x5B # encode_elems vs @ [CHR 0x5D]"

definition encode_int :: "int \<Rightarrow> string" where
  "encode_int i = Itoa i"

section \<open>Literals: unquoting what was encoded\<close>

lemma hex_digit_hex [simp]: "n < 16 \<Longrightarrow> is_hex (hex_digit n)" "n < 16 \<Longrightarrow> hex_value (hex_digit n) = n"
  by (auto simp: is_hex_def hex_digit_def hex_value_def is_digit_def)

text \<open>The shapes of a valid first code point.\<close>

lemma DecodeRune_valid:
  assumes "DecodeRune s = (r, w)" "\<not> (r = RuneError \<and> w \<le> 1)" "s \<noteq> []"
  obtains (one) c0 t where "s = c0 # t" "byte c0 < 0x80" "w = 1"
  | (two) c0 c1 t where "s = c0 # c1 # t" "0xC2 \<le> byte c0" "byte c0 \<le> 0xDF" "cont_byte c1" "w = 2"
  | (three) c0 c1 c2 t where "s = c0 # c1 # c2 # t" "0xE0 \<le> byte c0" "byte c0 \<le> 0xEF"
      "second_ok (byte c0) c1" "cont_byte c2" "w = 3"
  | (four) c0 c1 c2 c3 t where "s = c0 # c1 # c2 # c3 # t" "0xF0 \<le> byte c0" "byte c0 \<le> 0xF4"
      "second_ok (byte c0) c1" "cont_byte c2" "cont_byte c3" "w = 4"
proof -
  obtain c0 t where s: "s = c0 # t" using assms(3) by (cases s) auto
  consider "byte c0 < 0x80" | "0xC2 \<le> byte c0" "byte c0 \<le> 0xDF" | "0xE0 \<le> byte c0" "byte c0 \<le> 0xEF"
    | "0xF0 \<le> byte c0" "byte c0 \<le> 0xF4"
    | "0x80 \<le> byte c0" "byte c0 < 0xC2 \<or> 0xF4 < byte c0" by linarith
  then show thesis
  proof cases
    case 1
    then show thesis using s assms(1) one by simp
  next
    case 2
    then show thesis using s assms(1,2) two
      by (cases t) (auto simp: DecodeRune_def Let_def split: if_splits)
  next
    case 3
    then show thesis using s assms(1,2) three
      by (cases t; cases "tl t") (auto simp: DecodeRune_def Let_def split: if_splits)
  next
    case 4
    then show thesis using s assms(1,2) four
      by (cases t; cases "tl t"; cases "tl (tl t)") (auto simp: DecodeRune_def Let_def split: if_splits)
  next
    case 5
    then show thesis using s assms(1,2) by (auto simp: DecodeRune_def Let_def split: if_splits)
  qed
qed

lemma DecodeRune_local:
  assumes "DecodeRune s = (r, w)" "\<not> (r = RuneError \<and> w \<le> 1)" "s \<noteq> []"
  shows "DecodeRune (take w s @ rest) = (r, w)"
  using assms
proof (cases rule: DecodeRune_valid)
qed (use assms(1) in \<open>simp_all add: DecodeRune_def\<close>)

lemma second_ok_high: "second_ok b c \<Longrightarrow> 0x80 \<le> byte c"
  by (auto simp: second_ok_def cont_byte_def split: if_splits)

lemma DecodeRune_high:
  assumes "DecodeRune (c # t) = (r, w)" "\<not> (r = RuneError \<and> w \<le> 1)" "0x80 \<le> byte c"
    "d \<in> set (take w (c # t))"
  shows "0x80 \<le> byte d"
  using assms(1,2) list.distinct(2)
proof (cases rule: DecodeRune_valid)
qed (use assms(3,4) second_ok_high in \<open>auto simp: cont_byte_def\<close>)

lemma getu4_not_u: "u \<noteq> CHR ''u'' \<Longrightarrow> getu4 (s # u # rest) = None"
  by (cases "(s # u # rest)" rule: getu4.cases) auto

lemma unquote_next_escape:
  assumes "e \<noteq> CHR ''u''"
  shows "unquote_next (CHR 0x5C # e # rest) = ([simple_escape e], 2)"
  by (simp add: unquote_next_def getu4_not_u [OF assms])

lemma unquote_next_hex:
  assumes "is_hex a" "is_hex b" "is_hex c" "is_hex d" "\<not> is_surrogate (hex4 a b c d)"
  shows "unquote_next (CHR 0x5C # CHR ''u'' # a # b # c # d # rest) = (EncodeRune (hex4 a b c d), 6)"
  using assms by (simp add: unquote_next_def)

lemma EncodeRune_ascii: "byte c < 0x80 \<Longrightarrow> EncodeRune (byte c) = [c]"
  by (simp add: EncodeRune_def)

lemma unquote_next_ascii:
  assumes "byte c < 0x80"
  shows "unquote_next (fst (encode_next (c # s)) @ rest) = ([c], length (fst (encode_next (c # s))))"
proof -
  let ?b = "byte c"
  consider "?b \<in> {0x22, 0x5C}" | "?b \<in> {8, 12, 10, 13, 9}"
    | "?b \<notin> {0x22, 0x5C, 8, 12, 10, 13, 9}" "?b < 0x20 \<or> ?b \<in> {0x3C, 0x3E, 0x26}"
    | "?b \<notin> {0x22, 0x5C, 0x3C, 0x3E, 0x26}" "0x20 \<le> ?b" by fastforce
  then show ?thesis
  proof cases
    case 1
    then have "byte c = byte (CHR 0x22) \<or> byte c = byte (CHR 0x5C)" by simp
    then have c: "c = CHR 0x22 \<or> c = CHR 0x5C" by (simp only: of_char_eq_iff)
    then have "encode_next (c # s) = ([CHR 0x5C, c], 1)" by (auto simp: encode_next_def)
    then show ?thesis using c by (auto simp: unquote_next_escape simple_escape_def)
  next
    case 2
    then have "byte c \<in> {byte (CHR 0x08), byte (CHR 0x0C), byte (CHR 0x0A), byte (CHR 0x0D),
        byte (CHR 0x09)}" by simp
    then have "c \<in> {CHR 0x08, CHR 0x0C, CHR 0x0A, CHR 0x0D, CHR 0x09}"
      by (simp only: of_char_eq_iff insert_iff empty_iff)
    then show ?thesis
      by (auto simp: encode_next_def unquote_next_escape simple_escape_def)
  next
    case 3
    have e: "encode_next (c # s) = (CHR 0x5C # ''u00'' @ hex_pad 2 ?b, 1)"
      using 3 assms by (auto simp: encode_next_def Let_def)
    have h: "hex_pad 2 ?b = [hex_digit (?b div 16), hex_digit (?b mod 16)]"
      using assms by (simp add: numeral_2_eq_2)
    have v: "hex4 (CHR ''0'') (CHR ''0'') (hex_digit (?b div 16)) (hex_digit (?b mod 16)) = ?b"
      using assms by (simp add: hex4_def hex_value_def [of "CHR ''0''"] is_digit_def)
    have "\<not> is_surrogate ?b" "?b div 16 < 16" using assms by (simp_all add: is_surrogate_def)
    then show ?thesis
      using assms unquote_next_hex [of "CHR ''0''" "CHR ''0''" "hex_digit (?b div 16)" "hex_digit (?b mod 16)" rest]
      by (simp add: e h v EncodeRune_ascii is_hex_def [of "CHR ''0''"] is_digit_def)
  next
    case 4
    then have "c \<noteq> CHR 0x5C" by auto
    moreover have "encode_next (c # s) = ([c], 1)"
      using 4 assms by (auto simp: encode_next_def Let_def)
    ultimately show ?thesis using assms by (simp add: unquote_next_def)
  qed
qed

lemma unquote_next_high:
  assumes "0x80 \<le> byte c"
  shows "unquote_next (fst (encode_next (c # s)) @ rest) =
    (EncodeRune (fst (DecodeRune (c # s))), length (fst (encode_next (c # s))))"
proof -
  obtain r w where d: "DecodeRune (c # s) = (r, w)" by (cases "DecodeRune (c # s)")
  have hexes: "is_hex (CHR ''f'')" "is_hex (CHR ''d'')" "is_hex (CHR ''2'')" "is_hex (CHR ''0'')"
    by (simp_all add: is_hex_def is_digit_def)
  have digits: "hex_digit 8 = CHR ''8''" "hex_digit 9 = CHR ''9''" by code_simp+
  consider "r = RuneError" "w \<le> 1" | "r = 0x2028 \<or> r = 0x2029"
    | "\<not> (r = RuneError \<and> w \<le> 1)" "r \<noteq> 0x2028" "r \<noteq> 0x2029" by blast
  then show ?thesis
  proof cases
    case 1
    then have "encode_next (c # s) = (CHR 0x5C # ''ufffd'', 1)"
      using assms d by (simp add: encode_next_def)
    then show ?thesis
      using 1 d hexes
      by (simp add: unquote_next_hex hex4_def hex_value_def is_digit_def is_surrogate_def RuneError_def)
  next
    case 2
    then have "encode_next (c # s) = (CHR 0x5C # ''u202'' @ [hex_digit (r mod 16)], w)"
      using assms d by (auto simp: encode_next_def RuneError_def)
    then show ?thesis
      using 2 d hexes
      by (auto simp: digits unquote_next_hex hex4_def hex_value_def is_hex_def is_digit_def
          is_surrogate_def)
  next
    case 3
    then have e: "encode_next (c # s) = (take w (c # s), w)"
      using assms d by (auto simp: encode_next_def)
    have "1 \<le> w" "w \<le> length (c # s)" using DecodeRune_width [of "c # s"] d by auto
    then obtain w' where w: "w = Suc w'" "length (take w (c # s)) = w" by (cases w) auto
    have "DecodeRune (take w (c # s) @ rest) = (r, w)"
      using DecodeRune_local [OF d] 3 by simp
    then show ?thesis
      using assms w by (auto simp: e d unquote_next_def)
  qed
qed

lemma encode_next_width: "s \<noteq> [] \<Longrightarrow> max 1 (snd (encode_next s)) = max 1 (snd (DecodeRune s))"
  by (cases s) (auto simp: encode_next_def Let_def split: prod.splits)

lemma encode_next_not_Nil: "s \<noteq> [] \<Longrightarrow> fst (encode_next s) \<noteq> []"
  using DecodeRune_width [of s]
  by (cases s) (auto simp: encode_next_def Let_def split: prod.splits)

lemma unquote_encode: "unquote (encode_body s) = to_valid s"
proof (induction s rule: encode_body.induct)
  case (1 s)
  show ?case
  proof (cases s)
    case Nil
    then show ?thesis by (simp add: unquote.simps encode_body.simps to_valid.simps)
  next
    case (Cons c t)
    let ?ch = "fst (encode_next s)" and ?w = "max 1 (snd (encode_next s))"
    have n: "unquote_next (?ch @ rest) = (EncodeRune (fst (DecodeRune s)), length ?ch)" for rest
      using unquote_next_ascii [of c t rest] unquote_next_high [of c t rest]
      by (cases "byte c < 0x80") (simp_all add: Cons EncodeRune_ascii)
    have ne: "?ch \<noteq> []" using encode_next_not_Nil [of s] Cons by simp
    then have "unquote (?ch @ rest) = EncodeRune (fst (DecodeRune s)) @ unquote rest" for rest
      by (subst unquote.simps) (simp add: n max_def Suc_le_eq)
    moreover have "encode_body s = ?ch @ encode_body (drop ?w s)"
      by (subst encode_body.simps) (simp add: Cons)
    moreover have "to_valid s = EncodeRune (fst (DecodeRune s)) @ to_valid (drop ?w s)"
      by (subst to_valid.simps) (use encode_next_width [of s] Cons in simp)
    ultimately show ?thesis using 1 [of] Cons by simp
  qed
qed

section \<open>Literals: scanning what was encoded\<close>

text \<open>The states of a string literal that is not closed.\<close>

definition str_next :: "str_state \<Rightarrow> char \<Rightarrow> str_state option" where
  "str_next s c = (case s of
     SPlain \<Rightarrow> if c = CHR 0x22 \<or> byte c < 0x20 then None
               else if c = CHR 0x5C then Some SEsc else Some SPlain
   | SEsc \<Rightarrow> if c = CHR ''u'' then Some (SHex 3)
             else if c \<in> set [CHR ''b'', CHR ''f'', CHR ''n'', CHR ''r'', CHR ''t'', CHR 0x5C, CHR ''/'',
                              CHR 0x22] then Some SPlain else None
   | SHex n \<Rightarrow> if is_hex c then Some (if n = 0 then SPlain else SHex (n - 1)) else None)"

fun str_fold :: "str_state \<Rightarrow> string \<Rightarrow> str_state option" where
  "str_fold s [] = Some s"
| "str_fold s (c # cs) = Option.bind (str_next s c) (\<lambda>s'. str_fold s' cs)"

lemma str_fold_append: "str_fold s (xs @ ys) = Option.bind (str_fold s xs) (\<lambda>s'. str_fold s' ys)"
  by (induction xs arbitrary: s) (auto simp: bind_assoc)

lemma step_string_open:
  "str_next s c = Some s' \<Longrightarrow> step_string key acc s st c = Some (MStr key (c # acc) s', st)"
proof (cases s)
  case SPlain
  assume "str_next s c = Some s'"
  with SPlain show ?thesis by (simp add: str_next_def step_string_def split: if_splits)
next
  case SEsc
  define E where "E = set [CHR ''b'', CHR ''f'', CHR ''n'', CHR ''r'', CHR ''t'', CHR 0x5C, CHR ''/'', CHR 0x22]"
  assume "str_next s c = Some s'"
  with SEsc show ?thesis
    unfolding str_next_def step_string_def E_def [symmetric] by (simp split: if_splits)
next
  case (SHex n)
  assume "str_next s c = Some s'"
  with SHex show ?thesis by (simp add: str_next_def step_string_def split: if_splits)
qed

lemma top_value_open [simp]:
  "top_value (MStr key acc s) st n = None" "top_value MValue st n = None"
  "top_value MValueOrEnd st n = None" "top_value MKeyOrEnd st n = None"
  "top_value MKey st n = None" "top_value MColon st n = None" "top_value m (f # st) n = None"
  by (simp_all add: top_value_def split: list.splits)

lemma scan_open:
  "str_fold s xs = Some s' \<Longrightarrow>
   scan (MStr key acc s) st (xs @ rest) = scan (MStr key (rev xs @ acc) s') st rest"
proof (induction xs arbitrary: s acc)
  case (Cons c xs)
  then obtain s1 where "str_next s c = Some s1" "str_fold s1 xs = Some s'"
    by (auto simp: Option.bind_eq_Some_conv)
  with Cons.IH [of s1 "c # acc"] show ?case
    by (simp add: step_string_open)
qed simp

lemma str_fold_high: "\<forall>c \<in> set xs. 0x80 \<le> byte c \<Longrightarrow> str_fold SPlain xs = Some SPlain"
proof (induction xs)
  case (Cons c xs)
  then have "c \<noteq> CHR 0x22" "c \<noteq> CHR 0x5C" "\<not> byte c < 0x20" by auto
  with Cons show ?case by (simp add: str_next_def)
qed simp

lemma str_fold_encode_next: "s \<noteq> [] \<Longrightarrow> str_fold SPlain (fst (encode_next s)) = Some SPlain"
proof -
  assume "s \<noteq> []"
  then obtain c t where s: "s = c # t" by (cases s) auto
  have hexes: "is_hex (CHR ''0'')" "is_hex (CHR ''2'')" "is_hex (CHR ''d'')" "is_hex (CHR ''f'')"
    by (simp_all add: is_hex_def is_digit_def)
  have hex: "str_fold (SHex 3) [CHR ''0'', CHR ''0'', hex_digit a, hex_digit b] = Some SPlain"
    "str_fold (SHex 3) [CHR ''2'', CHR ''0'', CHR ''2'', hex_digit b] = Some SPlain"
    "str_fold (SHex 3) ''fffd'' = Some SPlain"
    if "a < 16" "b < 16" for a b
    using that hexes by (simp_all add: str_next_def)
  have u: "str_fold SPlain (CHR 0x5C # CHR ''u'' # xs) = str_fold (SHex 3) xs" for xs
    by (simp add: str_next_def)
  obtain r w where d: "DecodeRune (c # t) = (r, w)" by (cases "DecodeRune (c # t)")
  show ?thesis
  proof (cases "byte c < 0x80")
    case True
    have h: "hex_pad 2 (byte c) = [hex_digit (byte c div 16), hex_digit (byte c mod 16)]"
      "byte c div 16 < 16" "byte c mod 16 < 16"
      using True by (simp_all add: numeral_2_eq_2)
    have q: "str_fold SPlain [CHR 0x5C, c] = Some SPlain" if "byte c = 0x22 \<or> byte c = 0x5C"
    proof -
      have "byte c = byte (CHR 0x22) \<or> byte c = byte (CHR 0x5C)" using that by simp
      then have "c = CHR 0x22 \<or> c = CHR 0x5C" by (simp only: of_char_eq_iff)
      then show ?thesis by (auto simp: str_next_def)
    qed
    have p: "str_fold SPlain [c] = Some SPlain" if "byte c \<noteq> 0x22" "byte c \<noteq> 0x5C" "0x20 \<le> byte c"
      using that by (auto simp: str_next_def)
    show ?thesis
      using True q p hex(1) [OF h(2,3)] u
      by (auto simp: s encode_next_def Let_def h(1) simp del: str_fold.simps)
        (simp_all add: str_next_def)
  next
    case False
    consider "r = RuneError" "w \<le> 1" | "r = 0x2028 \<or> r = 0x2029"
      | "\<not> (r = RuneError \<and> w \<le> 1)" "r \<noteq> 0x2028" "r \<noteq> 0x2029" by blast
    then show ?thesis
    proof cases
      case 3
      then have "encode_next s = (take w (c # t), w)"
        using False d by (auto simp: s encode_next_def)
      then show ?thesis
        using str_fold_high DecodeRune_high [OF d 3(1)] False by simp
    qed (use False d hex(2) [of 0] hex(3) [of 0 0] u in \<open>auto simp: s encode_next_def RuneError_def simp del: str_fold.simps\<close>)
  qed
qed

lemma str_fold_encode: "str_fold SPlain (encode_body s) = Some SPlain"
proof (induction s rule: encode_body.induct)
  case (1 s)
  show ?case
  proof (cases "s = []")
    case False
    have "encode_body s = fst (encode_next s) @ encode_body (drop (max 1 (snd (encode_next s))) s)"
      by (subst encode_body.simps) (simp add: False)
    then show ?thesis
      using 1 [OF False] str_fold_encode_next [OF False] by (simp add: str_fold_append)
  qed (simp add: encode_body.simps)
qed

section \<open>Values and objects\<close>

lemma scan_key:
  "scan MKeyOrEnd (FKey ms # st) (encode_string k @ rest) = scan MColon (FVal ms (encode_body k) # st) rest"
  "scan MKey (FKey ms # st) (encode_string k @ rest) = scan MColon (FVal ms (encode_body k) # st) rest"
  using scan_open [OF str_fold_encode, of True "[]" "FKey ms # st" k "CHR 0x22 # rest"]
  by (simp_all add: encode_string_def is_ws_def step_string_def)

text \<open>A text that scans to a value inside a container, where a comma or a closing bracket follows
  it, as long as \<open>n\<close> more containers may be opened.\<close>

definition value_text :: "nat \<Rightarrow> string \<Rightarrow> json \<Rightarrow> bool" where
  "value_text n v j \<longleftrightarrow> (\<forall>f st c rest. length st + n < maxNestingDepth \<longrightarrow>
     c = CHR '','' \<or> c = CHR 0x7D \<or> c = CHR 0x5D \<longrightarrow>
     scan MValue (f # st) (v @ c # rest) = scan (MAfter j) (f # st) (c # rest))"

lemma value_textD:
  "value_text n v j \<Longrightarrow> length st + n < maxNestingDepth \<Longrightarrow> c = CHR '','' \<or> c = CHR 0x7D \<or> c = CHR 0x5D \<Longrightarrow>
   scan MValue (f # st) (v @ c # rest) = scan (MAfter j) (f # st) (c # rest)"
  unfolding value_text_def by blast

lemma value_text_mono:
  assumes "value_text n v j" "n \<le> m"
  shows "value_text m v j"
  unfolding value_text_def
proof (intro allI impI)
  fix f :: frame and st :: "frame list" and c and rest :: string
  assume "length st + m < maxNestingDepth" and c: "c = CHR '','' \<or> c = CHR 0x7D \<or> c = CHR 0x5D"
  then have "length st + n < maxNestingDepth" using assms(2) by simp
  from value_textD [OF assms(1) this c]
  show "scan MValue (f # st) (v @ c # rest) = scan (MAfter j) (f # st) (c # rest)" .
qed

lemma value_text_literal:
  assumes "str_fold SPlain s = Some SPlain"
  shows "value_text n (CHR 0x22 # s @ [CHR 0x22]) (JStr s)"
  using scan_open [OF assms, of False "[]"]
  by (simp add: value_text_def begin_value_def is_ws_def step_string_def)

lemma value_text_string: "value_text n (encode_string s) (JStr (encode_body s))"
  using value_text_literal [OF str_fold_encode] by (simp add: encode_string_def)

lemma value_text_null: "value_text n ''null'' JNull"
  by (simp add: value_text_def begin_value_def is_ws_def is_digit_def)

lemma str_fold_plain: "list_all plain_char t \<Longrightarrow> str_fold SPlain t = Some SPlain"
proof (induction t)
  case (Cons c t)
  then have "c \<noteq> CHR 0x22" "c \<noteq> CHR 0x5C" "\<not> byte c < 0x20" by (auto simp: plain_char_def)
  with Cons show ?case by (simp add: str_next_def)
qed simp

lemma scan_digits:
  assumes "\<forall>c \<in> set ds. is_digit c"
  shows "scan (MNum NInt acc) (f # st) (ds @ rest) = scan (MNum NInt (rev ds @ acc)) (f # st) rest"
  using assms by (induction ds arbitrary: acc) simp_all

lemma nat_digits_head:
  "0 < n \<Longrightarrow> \<exists>d ds. nat_digits n = d # ds \<and> d \<noteq> CHR ''0'' \<and> is_digit d \<and> (\<forall>c \<in> set ds. is_digit c)"
proof (induction n rule: nat_digits.induct)
  case (1 n)
  show ?case
  proof (cases "n < 10")
    case True
    have b: "byte (char_of (48 + n)) = 48 + n" using True by simp
    have "char_of (48 + n) \<noteq> CHR ''0''"
    proof
      assume "char_of (48 + n) = CHR ''0''"
      then have "byte (char_of (48 + n)) = byte (CHR ''0'')" by (simp only:)
      with b 1(2) show False by simp
    qed
    moreover have "is_digit (char_of (48 + n))" using b True by (simp add: is_digit_def)
    ultimately have "char_of (48 + n) \<noteq> CHR ''0''" "is_digit (char_of (48 + n))" by simp_all
    then show ?thesis using True by (simp add: nat_digits.simps [of n])
  next
    case False
    then have "0 < n div 10" by (simp add: div_greater_zero_iff)
    then obtain d ds where "nat_digits (n div 10) = d # ds" "d \<noteq> CHR ''0''" "is_digit d"
      "\<forall>c \<in> set ds. is_digit c" using 1(1) [OF False] by blast
    moreover have "is_digit (char_of (48 + n mod 10))" by (simp add: is_digit_def)
    ultimately show ?thesis using False by (simp add: nat_digits.simps [of n])
  qed
qed

lemma digit_not_special:
  "is_digit c \<Longrightarrow> \<not> is_ws c \<and> c \<noteq> CHR 0x7B \<and> c \<noteq> CHR 0x5B \<and> c \<noteq> CHR 0x22 \<and> c \<noteq> CHR ''-''"
  by (auto simp: is_digit_def is_ws_def)

lemma value_text_int: "value_text m (encode_int i) (JNum (encode_int i))"
  unfolding value_text_def
proof (intro allI impI)
  fix f st c and rest :: string
  assume c: "c = CHR '','' \<or> c = CHR 0x7D \<or> c = CHR 0x5D"
  have stop: "num_next NInt c = None" "num_next NZero c = None"
    using c by (auto simp: is_digit_def)
  have nonneg: "scan MValue (f # st) (nat_digits n @ c # rest) =
      scan (MAfter (JNum (nat_digits n))) (f # st) (c # rest)" for n
  proof (cases "n = 0")
    case True
    have "nat_digits 0 = ''0''" by code_simp
    then show ?thesis
      using True stop by (simp add: begin_value_def is_ws_def num_final_def)
  next
    case False
    then obtain d ds where n: "nat_digits n = d # ds" "d \<noteq> CHR ''0''" "is_digit d" "\<forall>c \<in> set ds. is_digit c"
      using nat_digits_head by blast
    then show ?thesis
      using stop digit_not_special [OF n(3)]
      by (simp add: begin_value_def scan_digits num_final_def)
  qed
  have neg: "scan MValue (f # st) ((CHR ''-'' # nat_digits n) @ c # rest) =
      scan (MAfter (JNum (CHR ''-'' # nat_digits n))) (f # st) (c # rest)" if pos: "0 < n" for n
  proof -
    obtain d ds where n: "nat_digits n = d # ds" "d \<noteq> CHR ''0''" "is_digit d" "\<forall>c \<in> set ds. is_digit c"
      using nat_digits_head [OF pos] by blast
    then show ?thesis
      using stop by (simp add: begin_value_def is_ws_def scan_digits num_final_def)
  qed
  show "scan MValue (f # st) (encode_int i @ c # rest) =
      scan (MAfter (JNum (encode_int i))) (f # st) (c # rest)"
    using nonneg neg [of "nat (- i)"] by (cases "i < 0") (simp_all add: encode_int_def Itoa_def)
qed

text \<open>Scanning the members of an object and the object itself.\<close>

abbreviation member_texts :: "nat \<Rightarrow> (string \<times> string) list \<Rightarrow> (string \<times> json) list \<Rightarrow> bool" where
  "member_texts n \<equiv> list_all2 (\<lambda>m e. fst e = encode_body (fst m) \<and> value_text n (snd m) (snd e))"

lemma scan_members:
  assumes "member_texts n ms es" "ms \<noteq> []" "length st + n < maxNestingDepth"
    and "mode = MKeyOrEnd \<or> mode = MKey"
  shows "scan mode (FKey acc # st) (encode_members ms @ CHR 0x7D # rest) =
    scan (MAfter (JObj (rev acc @ es))) st rest"
  using assms
proof (induction ms arbitrary: acc es mode rule: encode_members.induct)
  case 1
  then show ?case by simp
next
  case (2 k v)
  then obtain j where es: "es = [(encode_body k, j)]" "value_text n v j"
    by (auto simp: list_all2_Cons1)
  have "scan mode (FKey acc # st) (encode_members [(k, v)] @ CHR 0x7D # rest) =
      scan MValue (FVal acc (encode_body k) # st) (v @ CHR 0x7D # rest)"
    using 2(4) scan_key by (auto simp: is_ws_def)
  also have "\<dots> = scan (MAfter j) (FVal acc (encode_body k) # st) (CHR 0x7D # rest)"
    using value_textD [OF es(2) 2(3)] by simp
  finally show ?case by (simp add: end_value_def is_ws_def es(1))
next
  case (3 k v m ms)
  then obtain j es' where es: "es = (encode_body k, j) # es'" "value_text n v j"
    "member_texts n (m # ms) es'"
    by (auto simp: list_all2_Cons1)
  have "scan mode (FKey acc # st) (encode_members ((k, v) # m # ms) @ CHR 0x7D # rest) =
      scan MValue (FVal acc (encode_body k) # st) (v @ CHR '','' # encode_members (m # ms) @ CHR 0x7D # rest)"
    using 3(5) scan_key by (auto simp: is_ws_def)
  also have "\<dots> = scan (MAfter j) (FVal acc (encode_body k) # st)
      (CHR '','' # encode_members (m # ms) @ CHR 0x7D # rest)"
    using value_textD [OF es(2) 3(4)] by simp
  also have "\<dots> = scan MKey (FKey ((encode_body k, j) # acc) # st) (encode_members (m # ms) @ CHR 0x7D # rest)"
    by (simp add: end_value_def is_ws_def)
  also have "\<dots> = scan (MAfter (JObj (rev ((encode_body k, j) # acc) @ es'))) st rest"
    using "3.IH" [OF es(3) _ 3(4)] by simp
  finally show ?case by (simp add: es(1))
qed

lemma scan_object_in:
  assumes "member_texts n ms es" "length st + n < maxNestingDepth"
  shows "scan MKeyOrEnd (FKey [] # st) (encode_members ms @ CHR 0x7D # rest) =
    scan (MAfter (JObj es)) st rest"
proof (cases "ms = []")
  case True
  with assms(1) show ?thesis by (simp add: is_ws_def)
qed (use scan_members [OF assms(1) _ assms(2), of MKeyOrEnd "[]" rest] in simp)

lemma scan_object:
  assumes "member_texts n ms es" "n < maxNestingDepth"
  shows "scan MValue [] (encode_object ms) = Some (JObj es, [])"
  using scan_object_in [OF assms(1), of "[]" "[]"] assms(2)
  by (simp add: encode_object_def begin_value_def is_ws_def maxNestingDepth_def top_value_def)

lemma value_text_object:
  assumes "member_texts n ms es"
  shows "value_text (Suc n) (encode_object ms) (JObj es)"
  unfolding value_text_def
proof (intro allI impI)
  fix f :: frame and st :: "frame list" and c and rest :: string
  assume "length st + Suc n < maxNestingDepth"
  then have "length (f # st) + n < maxNestingDepth" "length (f # st) < maxNestingDepth" by simp_all
  with scan_object_in [OF assms, of "f # st" "c # rest"]
  show "scan MValue (f # st) (encode_object ms @ c # rest) = scan (MAfter (JObj es)) (f # st) (c # rest)"
    by (simp add: encode_object_def begin_value_def is_ws_def)
qed

text \<open>The same for arrays.\<close>

lemma scan_elems:
  assumes "list_all2 (value_text n) vs js" "vs \<noteq> []" "length st + n < maxNestingDepth"
  shows "scan MValue (FArr acc # st) (encode_elems vs @ CHR 0x5D # rest) =
    scan (MAfter (JArr (rev acc @ js))) st rest"
  using assms
proof (induction vs arbitrary: acc js rule: encode_elems.induct)
  case (2 v)
  then obtain j where js: "js = [j]" "value_text n v j" by (auto simp: list_all2_Cons1)
  then show ?case
    using value_textD [OF js(2) 2(3)] by (simp add: end_value_def is_ws_def)
next
  case (3 v w vs)
  then obtain j js' where js: "js = j # js'" "value_text n v j" "list_all2 (value_text n) (w # vs) js'"
    by (auto simp: list_all2_Cons1)
  then show ?case
    using value_textD [OF js(2) 3(4)] "3.IH" [OF js(3) _ 3(4), of "j # acc"]
    by (simp add: end_value_def is_ws_def)
qed simp

text \<open>No value starts with white space or a closing bracket, so that the first element is scanned as
  any other.\<close>

lemma scan_first_elem:
  assumes "c \<noteq> CHR 0x5D" "\<not> is_ws c"
  shows "scan MValueOrEnd (f # st) (c # s) = scan MValue (f # st) (c # s)"
  using assms by simp

lemma value_text_array:
  assumes "list_all2 (value_text n) vs js"
    and "\<forall>v \<in> set vs. \<exists>c s. v = c # s \<and> c \<noteq> CHR 0x5D \<and> \<not> is_ws c"
  shows "value_text (Suc n) (encode_array vs) (JArr js)"
  unfolding value_text_def
proof (intro allI impI)
  fix f :: frame and st :: "frame list" and c and rest :: string
  assume "length st + Suc n < maxNestingDepth"
  then have d: "length (f # st) + n < maxNestingDepth" "length (f # st) < maxNestingDepth" by simp_all
  show "scan MValue (f # st) (encode_array vs @ c # rest) = scan (MAfter (JArr js)) (f # st) (c # rest)"
  proof (cases vs)
    case Nil
    with assms(1) d(2) show ?thesis by (simp add: encode_array_def begin_value_def is_ws_def)
  next
    case (Cons v vs')
    then obtain h s where h: "v = h # s" "h \<noteq> CHR 0x5D" "\<not> is_ws h" using assms(2) by auto
    have "encode_elems vs = h # tl (encode_elems vs)" using Cons h(1) by (cases vs') simp_all
    then have "scan MValueOrEnd (FArr [] # f # st) (encode_elems vs @ CHR 0x5D # c # rest) =
        scan MValue (FArr [] # f # st) (encode_elems vs @ CHR 0x5D # c # rest)"
      using scan_first_elem [OF h(2,3)] by (metis append_Cons)
    with scan_elems [OF assms(1) _ d(1), of "[]" "c # rest"] Cons d(2) show ?thesis
      by (simp add: encode_array_def begin_value_def is_ws_def)
  qed
qed

text \<open>ASCII text survives unchanged.\<close>

lemma to_valid_ascii: "list_all (\<lambda>c. byte c < 0x80) s \<Longrightarrow> to_valid s = s"
proof (induction s)
  case (Cons c s)
  then show ?case
    by (subst to_valid.simps) (simp add: EncodeRune_ascii)
qed (simp add: to_valid.simps)

end
