(* ===== verification/Alert_Wire.thy ===== *)
theory Alert_Wire
  imports Operator_Server Go_JSON_Text
begin

text \<open>
  The sending side of the webhook: what \<open>json.Marshal\<close> makes of an \<open>AlertManagerPayload\<close>, by the
  tags of \<open>operator/internal/server/payload.go\<close> (the tests of the package post payloads made this
  way, and AlertManager marshals the same fields). A sent map is the list of its entries in the
  order in which they are written, \<open>None\<close> for nil. The lemmas show that the receiving side decodes
  every such text to the payload that was sent.
\<close>

section \<open>Model\<close>

record wire_alert =
  w_status :: string
  w_labels :: "(string \<times> string) list option"
  w_annotations :: "(string \<times> string) list option"
  w_startsAt :: go_time
  w_endsAt :: go_time
  w_fingerprint :: string

record wire_payload =
  w_version :: string
  w_groupKey :: string
  w_pstatus :: string
  w_receiver :: string
  w_alerts :: "wire_alert list option"

definition marshal_map :: "(string \<times> string) list option \<Rightarrow> string" where
  "marshal_map m = (case m of
     None \<Rightarrow> ''null'' | Some es \<Rightarrow> encode_object (map (\<lambda>(k, v). (k, encode_string v)) es))"

definition marshal_alert :: "wire_alert \<Rightarrow> string option" where
  "marshal_alert a = do {
     starts \<leftarrow> Time_MarshalJSON (w_startsAt a);
     ends \<leftarrow> Time_MarshalJSON (w_endsAt a);
     Some (encode_object
       [(''status'', encode_string (w_status a)),
        (''labels'', marshal_map (w_labels a)),
        (''annotations'', marshal_map (w_annotations a)),
        (''startsAt'', starts),
        (''endsAt'', ends),
        (''fingerprint'', encode_string (w_fingerprint a))])
   }"

definition marshal_payload :: "wire_payload \<Rightarrow> string option" where
  "marshal_payload p = do {
     alerts \<leftarrow> (case w_alerts p of
        None \<Rightarrow> Some ''null'' | Some as \<Rightarrow> map_option encode_array (those (map marshal_alert as)));
     Some (encode_object
       [(''version'', encode_string (w_version p)),
        (''groupKey'', encode_string (w_groupKey p)),
        (''status'', encode_string (w_pstatus p)),
        (''receiver'', encode_string (w_receiver p)),
        (''alerts'', alerts)])
   }"

text \<open>What the receiver is meant to see: the same values, with bytes that are not UTF-8
  replaced.\<close>

definition received_map :: "(string \<times> string) list \<Rightarrow> string \<rightharpoonup> string" where
  "received_map es = fold (\<lambda>(k, v) m. m(to_valid k \<mapsto> to_valid v)) es (\<lambda>_. None)"

definition received_alert :: "wire_alert \<Rightarrow> Alert" where
  "received_alert a = \<lparr>Status = to_valid (w_status a),
     Labels = map_option received_map (w_labels a),
     Annotations = map_option received_map (w_annotations a),
     StartsAt = w_startsAt a, EndsAt = w_endsAt a, Fingerprint = to_valid (w_fingerprint a)\<rparr>"

definition received_payload :: "wire_payload \<Rightarrow> AlertManagerPayload" where
  "received_payload p = \<lparr>Version = to_valid (w_version p), GroupKey = to_valid (w_groupKey p),
     PStatus = to_valid (w_pstatus p), Receiver = to_valid (w_receiver p),
     Alerts = map received_alert (case w_alerts p of None \<Rightarrow> [] | Some as \<Rightarrow> as)\<rparr>"

definition times_ok :: "wire_payload \<Rightarrow> bool" where
  "times_ok p \<longleftrightarrow> list_all (\<lambda>a. time_ok (w_startsAt a) \<and> time_ok (w_endsAt a))
     (case w_alerts p of None \<Rightarrow> [] | Some as \<Rightarrow> as)"

section \<open>The scanned trees\<close>

definition map_tree :: "(string \<times> string) list option \<Rightarrow> json" where
  "map_tree m = (case m of
     None \<Rightarrow> JNull | Some es \<Rightarrow> JObj (map (\<lambda>(k, v). (encode_body k, JStr (encode_body v))) es))"

definition alert_tree :: "wire_alert \<Rightarrow> json" where
  "alert_tree a = JObj
    [(encode_body ''status'', JStr (encode_body (w_status a))),
     (encode_body ''labels'', map_tree (w_labels a)),
     (encode_body ''annotations'', map_tree (w_annotations a)),
     (encode_body ''startsAt'', JStr (format_rfc3339 (w_startsAt a))),
     (encode_body ''endsAt'', JStr (format_rfc3339 (w_endsAt a))),
     (encode_body ''fingerprint'', JStr (encode_body (w_fingerprint a)))]"

definition alerts_tree :: "wire_alert list option \<Rightarrow> json" where
  "alerts_tree m = (case m of None \<Rightarrow> JNull | Some as \<Rightarrow> JArr (map alert_tree as))"

definition payload_tree :: "wire_payload \<Rightarrow> json" where
  "payload_tree p = JObj
    [(encode_body ''version'', JStr (encode_body (w_version p))),
     (encode_body ''groupKey'', JStr (encode_body (w_groupKey p))),
     (encode_body ''status'', JStr (encode_body (w_pstatus p))),
     (encode_body ''receiver'', JStr (encode_body (w_receiver p))),
     (encode_body ''alerts'', alerts_tree (w_alerts p))]"

lemma marshal_map_text: "value_text 1 (marshal_map m) (map_tree m)"
proof (cases m)
  case None
  then show ?thesis by (simp add: marshal_map_def map_tree_def value_text_null)
next
  case (Some es)
  have "member_texts 0 (map (\<lambda>(k, v). (k, encode_string v)) es)
      (map (\<lambda>(k, v). (encode_body k, JStr (encode_body v))) es)"
    by (induction es) (auto simp: value_text_string)
  then show ?thesis using Some by (simp add: marshal_map_def map_tree_def value_text_object)
qed

lemma marshal_alert_text:
  assumes "time_ok (w_startsAt a)" "time_ok (w_endsAt a)"
  shows "\<exists>v s. marshal_alert a = Some v \<and> v = CHR 0x7B # s \<and> value_text 2 v (alert_tree a)"
proof -
  have t: "value_text 1 (CHR 0x22 # format_rfc3339 t @ [CHR 0x22]) (JStr (format_rfc3339 t))" for t
    by (intro value_text_literal str_fold_plain format_plain)
  let ?ms = "[(''status'', encode_string (w_status a)), (''labels'', marshal_map (w_labels a)),
    (''annotations'', marshal_map (w_annotations a)),
    (''startsAt'', CHR 0x22 # format_rfc3339 (w_startsAt a) @ [CHR 0x22]),
    (''endsAt'', CHR 0x22 # format_rfc3339 (w_endsAt a) @ [CHR 0x22]),
    (''fingerprint'', encode_string (w_fingerprint a))]"
  have "marshal_alert a = Some (encode_object ?ms)"
    using assms by (simp add: marshal_alert_def marshal_time)
  moreover have "encode_object ?ms = CHR 0x7B # (encode_members ?ms @ [CHR 0x7D])"
    by (simp only: encode_object_def)
  moreover have "value_text (Suc 1) (encode_object ?ms) (alert_tree a)"
    unfolding alert_tree_def
    by (rule value_text_object) (simp add: value_text_string marshal_map_text [simplified] t [simplified])
  ultimately show ?thesis by (metis Suc_1)
qed

lemma marshal_alerts_text:
  assumes "list_all (\<lambda>a. time_ok (w_startsAt a) \<and> time_ok (w_endsAt a)) as"
  shows "\<exists>vs. those (map marshal_alert as) = Some vs \<and> list_all2 (value_text 2) vs (map alert_tree as)
    \<and> (\<forall>v \<in> set vs. \<exists>c s. v = c # s \<and> c \<noteq> CHR 0x5D \<and> \<not> is_ws c)"
  using assms
proof (induction as)
  case (Cons a as)
  then obtain v s vs where "marshal_alert a = Some v" "v = CHR 0x7B # s" "value_text 2 v (alert_tree a)"
    "those (map marshal_alert as) = Some vs" "list_all2 (value_text 2) vs (map alert_tree as)"
    "\<forall>v \<in> set vs. \<exists>c s. v = c # s \<and> c \<noteq> CHR 0x5D \<and> \<not> is_ws c"
    using marshal_alert_text [of a] by auto
  moreover have "\<not> is_ws CHR 0x7B" by (simp add: is_ws_def)
  ultimately show ?case by simp
qed simp

lemma marshal_payload_scan:
  assumes "times_ok p"
  shows "\<exists>v. marshal_payload p = Some v \<and> scan MValue [] v = Some (payload_tree p, [])"
proof -
  obtain alerts where a: "(case w_alerts p of None \<Rightarrow> Some ''null''
      | Some as \<Rightarrow> map_option encode_array (those (map marshal_alert as))) = Some alerts"
    "value_text 3 alerts (alerts_tree (w_alerts p))"
  proof (cases "w_alerts p")
    case None
    then show ?thesis using that [of "''null''"] by (simp add: alerts_tree_def value_text_null)
  next
    case (Some as)
    then obtain vs where "those (map marshal_alert as) = Some vs"
      "value_text (Suc 2) (encode_array vs) (JArr (map alert_tree as))"
      using marshal_alerts_text [of as] value_text_array assms by (fastforce simp: times_ok_def)
    then show ?thesis using that [of "encode_array vs"] Some
      by (simp add: alerts_tree_def eval_nat_numeral)
  qed
  let ?ms = "[(''version'', encode_string (w_version p)), (''groupKey'', encode_string (w_groupKey p)),
    (''status'', encode_string (w_pstatus p)), (''receiver'', encode_string (w_receiver p)),
    (''alerts'', alerts)]"
  have "marshal_payload p = Some (encode_object ?ms)"
    using a(1) by (simp add: marshal_payload_def)
  moreover have "scan MValue [] (encode_object ?ms) = Some (payload_tree p, [])"
    unfolding payload_tree_def
    by (rule scan_object [where n = 3]) (simp_all add: value_text_string a(2) maxNestingDepth_def)
  ultimately show ?thesis by blast
qed

section \<open>Decoding the trees\<close>

lemma wire_key_names:
  "unquote (encode_body ''version'') = ''version''" "unquote (encode_body ''groupKey'') = ''groupKey''"
  "unquote (encode_body ''status'') = ''status''" "unquote (encode_body ''receiver'') = ''receiver''"
  "unquote (encode_body ''alerts'') = ''alerts''" "unquote (encode_body ''labels'') = ''labels''"
  "unquote (encode_body ''annotations'') = ''annotations''"
  "unquote (encode_body ''startsAt'') = ''startsAt''" "unquote (encode_body ''endsAt'') = ''endsAt''"
  "unquote (encode_body ''fingerprint'') = ''fingerprint''"
  by (simp_all add: unquote_encode to_valid_ascii)

lemma dec_entries_tree:
  "dec_entries (map (\<lambda>(k, v). (encode_body k, JStr (encode_body v))) es) m =
    (fold (\<lambda>(k, v) m. m(to_valid k \<mapsto> to_valid v)) es m, True)"
  by (induction es arbitrary: m) (auto simp: dec_string_def unquote_encode)

lemma dec_map_tree: "dec_map (map_tree m) None = (map_option received_map m, True)"
  by (cases m) (simp_all add: dec_map_def map_tree_def dec_entries_tree received_map_def)

lemma dec_string_encoded: "dec_string (JStr (encode_body s)) old = (to_valid s, True)"
  by (simp add: dec_string_def unquote_encode)

lemma dec_time_formatted: "time_ok t \<Longrightarrow> dec_time (JStr (format_rfc3339 t)) old = (t, True)"
  by (simp add: dec_time_def parse_format)

lemma dec_alert_tree:
  assumes "time_ok (w_startsAt a)" "time_ok (w_endsAt a)"
  shows "dec_alert (alert_tree a) zero_alert = (received_alert a, True)"
  using assms
  by (simp add: dec_alert_def alert_tree_def dec_struct_def wire_key_names find_field_def field_def
      dec_string_encoded dec_map_tree dec_time_formatted zero_alert_def received_alert_def)

lemma dec_alerts_tree:
  assumes "list_all (\<lambda>a. time_ok (w_startsAt a) \<and> time_ok (w_endsAt a)) as"
  shows "dec_elems dec_alert zero_alert (map alert_tree as) [] = (map received_alert as, True)"
  using assms by (induction as) (simp_all add: dec_alert_tree)

lemma dec_payload_tree:
  assumes "times_ok p"
  shows "dec_payload (payload_tree p) zero_payload = (received_payload p, True)"
proof -
  have "dec_slice dec_alert zero_alert (alerts_tree (w_alerts p)) [] =
      (map received_alert (case w_alerts p of None \<Rightarrow> [] | Some as \<Rightarrow> as), True)"
    using assms dec_alerts_tree
    by (auto simp: alerts_tree_def dec_slice_def times_ok_def split: option.splits)
  then show ?thesis
    by (simp add: dec_payload_def payload_tree_def dec_struct_def wire_key_names find_field_def field_def
        dec_string_encoded zero_payload_def received_payload_def)
qed

lemma payload_decodes:
  assumes "times_ok p"
  shows "\<exists>v. marshal_payload p = Some v \<and> Decode dec_payload zero_payload v = Some (received_payload p)"
proof -
  obtain v where v: "marshal_payload p = Some v" "scan MValue [] v = Some (payload_tree p, [])"
    using marshal_payload_scan [OF assms] by blast
  show ?thesis
    using v(1) dec_payload_tree [OF assms] by (simp add: Decode_scanned [OF v(2)])
qed

lemma received_map_ascii:
  assumes "distinct (map fst es)"
    and "list_all (\<lambda>(k, v). list_all (\<lambda>c. byte c < 0x80) k \<and> list_all (\<lambda>c. byte c < 0x80) v) es"
  shows "received_map es = map_of es"
proof -
  have "fold (\<lambda>(k, v) m. m(to_valid k \<mapsto> to_valid v)) es m = m ++ map_of es" for m
    using assms
  proof (induction es arbitrary: m)
    case (Cons e es)
    moreover have "map_of es (fst e) = None" using Cons.prems(1) by (simp add: map_of_eq_None_iff)
    ultimately show ?case
      by (cases e) (auto simp: to_valid_ascii fun_eq_iff map_add_def split: option.splits)
  qed simp
  then show ?thesis by (simp add: received_map_def)
qed

section \<open>Properties\<close>

text \<open>
  C27: what is sent is what is handled. For every payload whose timestamps are valid, whatever its
  other contents (any number of alerts, any bytes in the strings, nil or empty maps), the JSON text
  that \<open>json.Marshal\<close> makes of it decodes in the webhook to the same payload, with invalid UTF-8
  replaced; the webhook answers 202 and dispatches exactly those of its firing alerts that pass
  the gate.
\<close>

theorem payload_roundtrip:
  assumes "times_ok p"
  shows "\<exists>v. marshal_payload p = Some v
    \<and> Decode dec_payload zero_payload v = Some (received_payload p)
    \<and> handleAlert wide now v (s, w) = ([WriteHeader StatusAccepted],
        s\<lparr>dedupe := snd (accepted Acquire now (Alerts (received_payload p)) (dedupe s))\<rparr>,
        fold (run_act (dispatch wide (cfg s)))
          (loop_acts Acquire now (Alerts (received_payload p)) (dedupe s)) w)"
proof -
  obtain v where v: "marshal_payload p = Some v" "Decode dec_payload zero_payload v = Some (received_payload p)"
    using payload_decodes [OF assms] by blast
  then show ?thesis using handleAlert_decoded [OF v(2)] by blast
qed

definition sample_wire :: wire_payload where
  "sample_wire = \<lparr>w_version = ''4'', w_groupKey = '''', w_pstatus = ''firing'', w_receiver = ''operator'',
     w_alerts = Some [\<lparr>w_status = ''firing'',
       w_labels = Some [(''severity'', ''page''), (''service'', ''email-worker'')],
       w_annotations = None,
       w_startsAt = (\<lparr>t_year = 2026, t_month = 2, t_day = 28, t_hour = 23, t_min = 59, t_sec = 59,
                      t_nsec = 120000000\<rparr>, - 5400),
       w_endsAt = zero_time, w_fingerprint = ''f1''\<rparr>]\<rparr>"

theorem payload_roundtrip_witness:
  "\<exists>v. marshal_payload sample_wire = Some v
    \<and> Decode dec_payload zero_payload v = Some (received_payload sample_wire)
    \<and> map Fingerprint (Alerts (received_payload sample_wire)) = [''f1'']"
proof -
  have "times_ok sample_wire"
    by (simp add: times_ok_def sample_wire_def time_ok_def civil_ok_def zero_time_def daysIn_def isLeap_def)
  from payload_roundtrip [OF this, of "\<lambda>_. True" 0 "New sample_config" "mem_world empty_view"]
  show ?thesis by (auto simp: received_payload_def sample_wire_def received_alert_def to_valid_ascii)
qed

end
