(* ===== verification/Operator_Interleaving.thy ===== *)
theory Operator_Interleaving
  imports Operator_Server
begin

text \<open>
  Concurrent webhook requests. \<open>net/http\<close> runs each request in its own goroutine; the requests
  share the dedupe gate, whose \<open>Acquire\<close> is atomic under its mutex, and each request reads the
  clock once, before its loop. The state machine below interleaves the loops of any number of
  requests at the granularity of one alert. The lemmas show that every run is a sequence of
  \<open>Acquire\<close> calls in the order of the mutex, that clock readings can be out of order by no more
  than the longest time a request spends between its reading and a decision, and hence that
  grants stay a cooldown apart up to that time; a request that runs alone is \<open>alert_loop\<close>.
\<close>

section \<open>The machine\<close>

text \<open>A decision: the fingerprint, the request's clock reading, the answer, and the time at
  which the gate was asked.\<close>

type_synonym gate_decision = "string \<times> instant \<times> bool \<times> instant"

record srv =
  clock :: instant
  gate :: Dedupe
  inflight :: "nat \<rightharpoonup> instant \<times> Alert list"
  decisions :: "gate_decision list"

text \<open>One step asks the gate once. \<open>Dedupe_Locking\<close> shows that a call of \<open>Acquire\<close>, made of single map
  operations under the mutex, has its effect and its answer at one point between its start and its
  return, which is the step here. The time a request waits for the mutex or spends in \<open>dispatch\<close> is
  \<open>Tick\<close> steps before its next one: any number of them may come between two steps of a request,
  while the requests of others go on. What a dispatch does to the cluster is not part of this state.\<close>

datatype srv_event = Tick nat | Arrive nat "Alert list" | Next nat | Reply nat

definition srv_init :: "duration \<Rightarrow> srv \<Rightarrow> bool" where
  "srv_init c s \<longleftrightarrow> gate s = NewDedupe c \<and> inflight s = (\<lambda>_. None) \<and> decisions s = []"

inductive srv_step :: "srv \<Rightarrow> srv_event \<Rightarrow> srv \<Rightarrow> bool" where
  tick: "srv_step s (Tick dt) (s\<lparr>clock := clock s + int dt\<rparr>)"
| arrive: "inflight s i = None \<Longrightarrow>
    srv_step s (Arrive i as) (s\<lparr>inflight := (inflight s)(i \<mapsto> (clock s, as))\<rparr>)"
| resolved: "inflight s i = Some (t, a # as) \<Longrightarrow> \<not> Firing a \<Longrightarrow>
    srv_step s (Next i) (s\<lparr>inflight := (inflight s)(i \<mapsto> (t, as))\<rparr>)"
| decide: "inflight s i = Some (t, a # as) \<Longrightarrow> Firing a \<Longrightarrow>
    Acquire (Fingerprint a) t (gate s) = (ok, g) \<Longrightarrow>
    srv_step s (Next i) (s\<lparr>gate := g, inflight := (inflight s)(i \<mapsto> (t, as)),
      decisions := decisions s @ [(Fingerprint a, t, ok, clock s)]\<rparr>)"
| reply: "inflight s i = Some (t, []) \<Longrightarrow>
    srv_step s (Reply i) (s\<lparr>inflight := (inflight s)(i := None)\<rparr>)"

inductive_cases srv_stepE: "srv_step s e s'"

interpretation srv: machine "srv_init c" srv_step for c .

section \<open>Lemmas\<close>

text \<open>The steps are deterministic; the successor as a function.\<close>

fun srv_next :: "srv_event \<Rightarrow> srv \<Rightarrow> srv option" where
  "srv_next (Tick dt) s = Some (s\<lparr>clock := clock s + int dt\<rparr>)"
| "srv_next (Arrive i as) s = (case inflight s i of
     None \<Rightarrow> Some (s\<lparr>inflight := (inflight s)(i \<mapsto> (clock s, as))\<rparr>) | Some _ \<Rightarrow> None)"
| "srv_next (Next i) s = (case inflight s i of
     Some (t, a # as) \<Rightarrow>
       if \<not> Firing a then Some (s\<lparr>inflight := (inflight s)(i \<mapsto> (t, as))\<rparr>)
       else (let (ok, g) = Acquire (Fingerprint a) t (gate s)
             in Some (s\<lparr>gate := g, inflight := (inflight s)(i \<mapsto> (t, as)),
                  decisions := decisions s @ [(Fingerprint a, t, ok, clock s)]\<rparr>))
   | _ \<Rightarrow> None)"
| "srv_next (Reply i) s = (case inflight s i of
     Some (t, []) \<Rightarrow> Some (s\<lparr>inflight := (inflight s)(i := None)\<rparr>) | _ \<Rightarrow> None)"

fun srv_exec :: "srv_event list \<Rightarrow> srv \<Rightarrow> srv option" where
  "srv_exec [] s = Some s"
| "srv_exec (e # es) s = Option.bind (srv_next e s) (srv_exec es)"

lemma srv_next_step: "srv_step s e s' \<longleftrightarrow> srv_next e s = Some s'"
proof
  show "srv_step s e s' \<Longrightarrow> srv_next e s = Some s'"
    by (elim srv_stepE) auto
  show "srv_next e s = Some s' \<Longrightarrow> srv_step s e s'"
    by (cases e) (auto split: option.splits list.splits if_splits prod.splits intro: srv_step.intros)
qed

lemma srv_exec_run: "srv.run s es s' \<longleftrightarrow> srv_exec es s = Some s'"
  by (induction es arbitrary: s) (auto simp: srv.run_Cons_iff srv_next_step Option.bind_eq_Some_conv)


text \<open>The requests to the gate a list of decisions stands for, and the answers.\<close>

definition asked :: "gate_decision list \<Rightarrow> (string \<times> instant) list" where
  "asked ds = map (\<lambda>(fp, t, ok, c). (fp, t)) ds"

definition answered :: "gate_decision list \<Rightarrow> (string \<times> instant \<times> bool) list" where
  "answered ds = map (\<lambda>(fp, t, ok, c). (fp, t, ok)) ds"

definition srv_inv :: "duration \<Rightarrow> srv \<Rightarrow> bool" where
  "srv_inv c s \<longleftrightarrow>
     acquire_log (asked (decisions s)) (NewDedupe c) = (answered (decisions s), gate s)
   \<and> (\<forall>i t as. inflight s i = Some (t, as) \<longrightarrow> t \<le> clock s)
   \<and> sorted_wrt (\<lambda>d d'. snd (snd (snd d)) \<le> snd (snd (snd d'))) (decisions s)
   \<and> (\<forall>(fp, t, ok, c') \<in> set (decisions s). t \<le> c' \<and> c' \<le> clock s)"

lemma srv_inv_init: "srv_init c s \<Longrightarrow> srv_inv c s"
  by (auto simp: srv_init_def srv_inv_def asked_def answered_def)

lemma srv_inv_step: "srv_step s e s' \<Longrightarrow> srv_inv c s \<Longrightarrow> srv_inv c s'"
proof (induction rule: srv_step.induct)
  case (decide s i t a as ok g)
  have "t \<le> clock s" using decide by (auto simp: srv_inv_def)
  with decide show ?case
    by (auto simp: srv_inv_def asked_def answered_def acquire_log_append sorted_wrt_append
        split: if_splits)
qed (fastforce simp: srv_inv_def split: if_splits)+

lemma srv_reachable_inv: "srv.reachable c s \<Longrightarrow> srv_inv c s"
  by (erule srv.reachable_invariant) (auto intro: srv_inv_init srv_inv_step)

text \<open>When every decision is made within \<open>\<delta>\<close> of its request's clock reading, the readings are
  in order up to \<open>\<delta>\<close>.\<close>

definition prompt :: "duration \<Rightarrow> gate_decision list \<Rightarrow> bool" where
  "prompt \<delta> ds \<longleftrightarrow> list_all (\<lambda>(fp, t, ok, c). c \<le> t + \<delta>) ds"

lemma prompt_skew:
  assumes "srv_inv c s" "prompt \<delta> (decisions s)"
  shows "skew_bounded \<delta> (asked (decisions s))"
proof -
  have "sorted_wrt (\<lambda>d d'. fst (snd d) \<le> fst (snd d') + \<delta>) (decisions s)"
    using assms by (auto simp: srv_inv_def prompt_def list_all_iff
        intro!: sorted_wrt_mono_rel [where P = "\<lambda>d d'. snd (snd (snd d)) \<le> snd (snd (snd d'))"])
      fastforce
  then show ?thesis
    by (simp add: skew_bounded_def asked_def sorted_wrt_map case_prod_unfold)
qed

lemma solo_run:
  assumes "inflight s i = Some (t, as)"
  shows "\<exists>s'. srv.run s (replicate (length as) (Next i)) s'
    \<and> gate s' = snd (accepted Acquire t as (gate s)) \<and> inflight s' i = Some (t, [])
    \<and> (\<forall>j. j \<noteq> i \<longrightarrow> inflight s' j = inflight s j)
    \<and> (\<exists>ds. decisions s' = decisions s @ ds
         \<and> map fst (filter (\<lambda>(fp, t, ok, c). ok) ds) = map Fingerprint (fst (accepted Acquire t as (gate s))))"
  using assms
proof (induction as arbitrary: s)
  case Nil
  then show ?case by (intro exI [of _ s]) simp
next
  case (Cons a as)
  obtain ok g where a: "Acquire (Fingerprint a) t (gate s) = (ok, g)"
    by (cases "Acquire (Fingerprint a) t (gate s)")
  let ?s = "if Firing a
    then s\<lparr>gate := g, inflight := (inflight s)(i \<mapsto> (t, as)),
           decisions := decisions s @ [(Fingerprint a, t, ok, clock s)]\<rparr>
    else s\<lparr>inflight := (inflight s)(i \<mapsto> (t, as))\<rparr>"
  have step: "srv_step s (Next i) ?s"
    using srv_step.decide [OF Cons.prems _ a] srv_step.resolved [OF Cons.prems] by simp
  have "inflight ?s i = Some (t, as)" by simp
  from Cons.IH [OF this] obtain s' ds where
    s': "srv.run ?s (replicate (length as) (Next i)) s'"
      "gate s' = snd (accepted Acquire t as (gate ?s))" "inflight s' i = Some (t, [])"
      "\<forall>j. j \<noteq> i \<longrightarrow> inflight s' j = inflight ?s j" "decisions s' = decisions ?s @ ds"
      "map fst (filter (\<lambda>(fp, t, ok, c). ok) ds) =
         map Fingerprint (fst (accepted Acquire t as (gate ?s)))" by blast
  show ?case
  proof (intro exI [of _ s'] conjI)
    show "srv.run s (replicate (length (a # as)) (Next i)) s'"
      using step s'(1) by (auto simp: srv.run_Cons_iff)
    show "gate s' = snd (accepted Acquire t (a # as) (gate s))"
      using s'(2) a by (auto split: prod.splits)
    show "\<exists>ds. decisions s' = decisions s @ ds \<and> map fst (filter (\<lambda>(fp, t, ok, c). ok) ds) =
        map Fingerprint (fst (accepted Acquire t (a # as) (gate s)))"
      using s'(5,6) a
      by (intro exI [of _ "(if Firing a then [(Fingerprint a, t, ok, clock s)] else []) @ ds"])
        (auto split: prod.splits)
  qed (use s'(3,4) in auto)
qed

section \<open>Properties\<close>

text \<open>
  C2: concurrent requests do not defeat the cooldown. In every reachable state of the
  interleaved server in which each decision was made within \<open>\<delta>\<close> of its request's clock
  reading, two grants of a named fingerprint have clock readings at least the cooldown less
  \<open>\<delta>\<close> apart, and the decisions themselves lie at least the cooldown less twice \<open>\<delta>\<close> apart.
\<close>

theorem concurrent_grants_apart:
  assumes "srv.reachable c s" "cooldown_ok (NewDedupe c)" "0 \<le> \<delta>" "\<delta> \<le> c"
    and "prompt \<delta> (decisions s)" "fp \<noteq> ''''"
    and "decisions s = ds1 @ (fp, t, True, r) # ds2" "(fp, u, True, r') \<in> set ds2"
  shows "c - \<delta> \<le> u - t \<and> c - 2 * \<delta> \<le> r' - r"
proof -
  have inv: "srv_inv c s" using srv_reachable_inv [OF assms(1)] .
  have log: "fst (acquire_log (asked (decisions s)) (NewDedupe c)) =
      answered ds1 @ (fp, t, True) # answered ds2"
    using inv by (simp add: srv_inv_def assms(7) answered_def)
  have "(fp, u, True) \<in> set (answered ds2)"
    using assms(8) by (force simp: answered_def)
  from granted_apart [OF assms(2,6,3) _ prompt_skew [OF inv assms(5)] log this]
  have "c - \<delta> \<le> u - t" using assms(4) by simp
  moreover have "u \<le> r'"
    using inv assms(8) unfolding srv_inv_def assms(7) by fastforce
  moreover have "r \<le> t + \<delta>"
    using assms(5) by (simp add: prompt_def assms(7))
  ultimately show ?thesis by simp
qed

definition sample_firing :: Alert where
  "sample_firing = zero_alert\<lparr>Status := ''firing'', Fingerprint := ''f1''\<rparr>"

text \<open>Two overlapping requests with the same alert, and a third one a cooldown later.\<close>

definition sample_events :: "srv_event list" where
  "sample_events = [Arrive 0 [sample_firing], Arrive 1 [sample_firing], Tick 1, Next 1, Next 0,
     Tick 20, Arrive 2 [sample_firing], Next 2]"

definition sample_run_state :: srv where
  "sample_run_state = \<lparr>clock = 21,
     gate = snd (acquire_log [(''f1'', 0), (''f1'', 0), (''f1'', 21)] (NewDedupe 10)),
     inflight = [1 \<mapsto> (0, []), 0 \<mapsto> (0, []), 2 \<mapsto> (21, [])],
     decisions = [(''f1'', 0, True, 1), (''f1'', 0, False, 1), (''f1'', 21, True, 21)]\<rparr>"

lemma sample_reachable: "srv.reachable 10 sample_run_state"
proof -
  let ?s0 = "\<lparr>clock = 0, gate = NewDedupe 10, inflight = (\<lambda>_. None), decisions = []\<rparr>"
  have "srv.run ?s0 sample_events sample_run_state"
    by (simp add: srv_exec_run sample_events_def sample_run_state_def sample_firing_def Firing_def
        Acquire_def gcLocked_def NewDedupe_def time_sub_def min_duration_def max_duration_def)
  then show ?thesis
    unfolding srv.reachable_def using srv_init_def by fastforce
qed

theorem concurrent_grants_apart_witness:
  "(10::int) - 1 \<le> 21 - 0 \<and> (10::int) - 2 * 1 \<le> 21 - 1"
  using concurrent_grants_apart [OF sample_reachable, of 1 "''f1''" "[]" 0 1
      "[(''f1'', 0, False, 1), (''f1'', 21, True, 21)]" 21 21]
  by (simp add: cooldown_ok_def max_duration_def prompt_def sample_run_state_def)

text \<open>
  A request that is not interleaved with others behaves as the sequential model of the
  handler: from any state of the server, running request \<open>i\<close> alone to the end of its alerts is
  possible, leaves the gate that \<open>handleAlert\<close> leaves at the request's clock reading, does not
  touch other requests, and grants exactly the alerts that \<open>handleAlert\<close> dispatches.
\<close>

theorem solo_request_refines:
  assumes "Decode dec_payload zero_payload req_body = Some p"
    and "inflight s i = Some (t, Alerts p)"
  shows "\<exists>s' ds. srv.run s (replicate (length (Alerts p)) (Next i)) s'
    \<and> gate s' = dedupe (fst (snd (handleAlert wide t req_body
        (\<lparr>cfg = cf, dedupe = gate s\<rparr>, w))))
    \<and> (\<forall>j. j \<noteq> i \<longrightarrow> inflight s' j = inflight s j)
    \<and> decisions s' = decisions s @ ds
    \<and> map fst (filter (\<lambda>(fp, t, ok, c). ok) ds) =
        map Fingerprint (fst (accepted Acquire t (Alerts p) (gate s)))"
  using solo_run [OF assms(2)] by (auto simp: handleAlert_decoded [OF assms(1)])

theorem solo_request_refines_witness:
  "\<exists>s' ds. srv.run \<lparr>clock = 5, gate = NewDedupe 10, inflight = [0 \<mapsto> (5, [sample_alert])], decisions = []\<rparr>
      [Next 0] s' \<and> decisions s' = ds \<and> map fst (filter (\<lambda>(fp, t, ok, c). ok) ds) = [''f1'']"
proof -
  let ?s = "\<lparr>clock = 5, gate = NewDedupe 10, inflight = [0 \<mapsto> (5, [sample_alert])], decisions = []\<rparr>"
  have "map Fingerprint (fst (accepted Acquire 5 [sample_alert] (NewDedupe 10))) = [''f1'']"
    by (simp add: sample_alert_def Firing_def Acquire_def)
  then show ?thesis
    using solo_request_refines [OF sample_decode, of ?s 0 5 "\<lambda>_. True" sample_config
        "mem_world empty_view"] by auto
qed

end
