(* ===== verification/Mutex.thy ===== *)
theory Mutex
  imports Lab_Prelude
begin

text \<open>
  Objects behind a mutex. The Go code takes a \<open>sync.Mutex\<close>, works on shared data in several steps
  and releases it; the models of the components treat such a call as one step. This theory
  justifies that: the locale \<open>guarded\<close> is a call whose critical section is a sequence of small
  steps, and its lemmas show that, in every interleaving of any number of threads, at most one is
  inside, the calls that returned have the results and the effect of the whole operations in the
  order in which the lock was released, and every call returns.
\<close>

section \<open>Threads and the lock\<close>

datatype ('op, 'loc) thread = Idle | Waiting 'op | Inside 'op 'loc

record ('s, 'op, 'loc, 'res) locked =
  shared :: 's
  holder :: "nat option"
  threads :: "nat \<Rightarrow> ('op, 'loc) thread"
  returned :: "(nat \<times> 'op \<times> 'res) list"

datatype 'op lock_event = CallEv nat 'op | LockEv nat | WorkEv nat | UnlockEv nat

text \<open>
  \<open>early\<close> is the result of a call that returns before it takes the lock, if it does; \<open>enter\<close> the
  local state with which a thread starts its critical section, \<open>work\<close> one step of it, \<open>result\<close> what
  it returns once the section is over. \<open>returned\<close> records the calls that have returned.
\<close>

inductive lock_step :: "('op \<Rightarrow> 'res option) \<Rightarrow> ('op \<Rightarrow> 'loc) \<Rightarrow> ('op \<Rightarrow> 'loc \<Rightarrow> 's \<Rightarrow> 'loc \<Rightarrow> 's \<Rightarrow> bool) \<Rightarrow>
    ('loc \<Rightarrow> 'res option) \<Rightarrow> ('s, 'op, 'loc, 'res) locked \<Rightarrow> 'op lock_event \<Rightarrow> ('s, 'op, 'loc, 'res) locked \<Rightarrow> bool"
  for early enter work result where
  call: "threads s i = Idle \<Longrightarrow> early op = None \<Longrightarrow>
    lock_step early enter work result s (CallEv i op) (s\<lparr>threads := (threads s)(i := Waiting op)\<rparr>)"
| call_early: "threads s i = Idle \<Longrightarrow> early op = Some r \<Longrightarrow>
    lock_step early enter work result s (CallEv i op) (s\<lparr>returned := returned s @ [(i, op, r)]\<rparr>)"
| lock: "threads s i = Waiting op \<Longrightarrow> holder s = None \<Longrightarrow>
    lock_step early enter work result s (LockEv i)
      (s\<lparr>holder := Some i, threads := (threads s)(i := Inside op (enter op))\<rparr>)"
| work: "threads s i = Inside op l \<Longrightarrow> result l = None \<Longrightarrow> work op l (shared s) l' d \<Longrightarrow>
    lock_step early enter work result s (WorkEv i)
      (s\<lparr>shared := d, threads := (threads s)(i := Inside op l')\<rparr>)"
| unlock: "threads s i = Inside op l \<Longrightarrow> result l = Some r \<Longrightarrow>
    lock_step early enter work result s (UnlockEv i)
      (s\<lparr>holder := None, threads := (threads s)(i := Idle), returned := returned s @ [(i, op, r)]\<rparr>)"

inductive_cases lock_stepE: "lock_step early enter work result s e s'"

definition lock_init :: "'s \<Rightarrow> ('s, 'op, 'loc, 'res) locked \<Rightarrow> bool" where
  "lock_init d s \<longleftrightarrow> shared s = d \<and> holder s = None \<and> threads s = (\<lambda>_. Idle) \<and> returned s = []"

text \<open>The calls that returned, as whole operations one after the other.\<close>

fun run_calls :: "('op \<Rightarrow> 's \<Rightarrow> 'res \<times> 's) \<Rightarrow> (nat \<times> 'op \<times> 'res) list \<Rightarrow> 's \<Rightarrow> 's option" where
  "run_calls whole [] d = Some d"
| "run_calls whole ((i, op, r) # cs) d = (if fst (whole op d) = r then run_calls whole cs (snd (whole op d)) else None)"

lemma run_calls_append:
  "run_calls whole (cs @ ds) d = Option.bind (run_calls whole cs d) (run_calls whole ds)"
  by (induction whole cs d rule: run_calls.induct) auto

section \<open>Guarded operations\<close>

text \<open>
  What the sections promise: \<open>during op d\<^sub>0 l d\<close> holds of the local state and the data while a section
  that found the data \<open>d\<^sub>0\<close> is under way, and once it is over the data are those of the whole
  operation. \<open>effort\<close> bounds the steps that are left.
\<close>

locale guarded =
  fixes early :: "'op \<Rightarrow> 'res option"
    and enter :: "'op \<Rightarrow> 'loc"
    and work :: "'op \<Rightarrow> 'loc \<Rightarrow> 's \<Rightarrow> 'loc \<Rightarrow> 's \<Rightarrow> bool"
    and result :: "'loc \<Rightarrow> 'res option"
    and whole :: "'op \<Rightarrow> 's \<Rightarrow> 'res \<times> 's"
    and good :: "'s \<Rightarrow> bool"
    and during :: "'op \<Rightarrow> 's \<Rightarrow> 'loc \<Rightarrow> 's \<Rightarrow> bool"
    and effort :: "'loc \<Rightarrow> 's \<Rightarrow> nat"
  assumes whole_early: "early op = Some r \<Longrightarrow> whole op d = (r, d)"
    and whole_good: "good d \<Longrightarrow> good (snd (whole op d))"
    and during_enter: "early op = None \<Longrightarrow> good d \<Longrightarrow> during op d (enter op) d"
    and during_work: "during op d0 l d \<Longrightarrow> work op l d l' d' \<Longrightarrow> during op d0 l' d'"
    and during_result: "during op d0 l d \<Longrightarrow> result l = Some r \<Longrightarrow> whole op d0 = (r, d)"
    and work_enabled: "during op d0 l d \<Longrightarrow> result l = None \<Longrightarrow> \<exists>l' d'. work op l d l' d'"
    and work_effort: "during op d0 l d \<Longrightarrow> work op l d l' d' \<Longrightarrow> effort l' d' < effort l d"
begin

abbreviation lstep :: "('s, 'op, 'loc, 'res) locked \<Rightarrow> 'op lock_event \<Rightarrow> ('s, 'op, 'loc, 'res) locked \<Rightarrow> bool" where
  "lstep \<equiv> lock_step early enter work result"

lemmas lstep_lock = lock_step.lock [where early = early and enter = enter and work = work and result = result]
lemmas lstep_work = lock_step.work [where early = early and enter = enter and work = work and result = result]
lemmas lstep_unlock = lock_step.unlock [where early = early and enter = enter and work = work and result = result]

text \<open>The data \<open>d\<close> before the section under way, if there is one, and the data otherwise.\<close>

definition settled_at :: "'s \<Rightarrow> ('s, 'op, 'loc, 'res) locked \<Rightarrow> bool" where
  "settled_at d s \<longleftrightarrow> (\<forall>i op. threads s i = Waiting op \<longrightarrow> early op = None) \<and> (case holder s of
     None \<Rightarrow> shared s = d \<and> (\<forall>i op l. threads s i \<noteq> Inside op l)
   | Some i \<Rightarrow> (\<exists>op l. threads s i = Inside op l \<and> during op d l (shared s))
       \<and> (\<forall>j op l. threads s j = Inside op l \<longrightarrow> j = i))"

definition lock_inv :: "'s \<Rightarrow> ('s, 'op, 'loc, 'res) locked \<Rightarrow> bool" where
  "lock_inv start s \<longleftrightarrow> (\<exists>d. good d \<and> run_calls whole (returned s) start = Some d \<and> settled_at d s)"

lemma settled_inside:
  assumes "settled_at d s" "threads s i = Inside op l"
  shows "holder s = Some i" "during op d l (shared s)" "threads s j = Inside op' l' \<Longrightarrow> j = i"
proof -
  have h: "holder s \<noteq> None" using assms by (auto simp: settled_at_def split: option.splits)
  then obtain k where k: "holder s = Some k" by blast
  with assms(1) have in_k: "\<exists>op l. threads s k = Inside op l \<and> during op d l (shared s)"
    "\<forall>j op l. threads s j = Inside op l \<longrightarrow> j = k" by (simp_all add: settled_at_def)
  then have "k = i" using assms(2) by blast
  with k in_k assms(2) show "holder s = Some i" "during op d l (shared s)" "threads s j = Inside op' l' \<Longrightarrow> j = i"
    by auto
qed

lemma settled_waiting: "settled_at d s \<Longrightarrow> threads s i = Waiting op \<Longrightarrow> early op = None"
  by (simp add: settled_at_def)

lemma settled_work:
  assumes "settled_at d s" "threads s i = Inside op l" "work op l (shared s) l' d'"
  shows "settled_at d (s\<lparr>shared := d', threads := (threads s)(i := Inside op l')\<rparr>)"
  using settled_inside [OF assms(1,2)] during_work [OF _ assms(3), of d] settled_waiting [OF assms(1)]
  by (auto simp: settled_at_def)

lemma settled_step:
  assumes "lstep s e s'" "good d" "settled_at d s" "run_calls whole (returned s) start = Some d"
  shows "\<exists>d'. good d' \<and> run_calls whole (returned s') start = Some d' \<and> settled_at d' s'"
  using assms
proof (induction rule: lock_step.induct)
  case (call s i op)
  then have "settled_at d (s\<lparr>threads := (threads s)(i := Waiting op)\<rparr>)"
    by (auto simp: settled_at_def split: option.splits)
  with call show ?case by auto
next
  case (call_early s i op r)
  then have "settled_at d (s\<lparr>returned := returned s @ [(i, op, r)]\<rparr>)"
    by (auto simp: settled_at_def split: option.splits)
  with call_early whole_early [OF call_early(2)] show ?case by (auto simp: run_calls_append)
next
  case (lock s i op)
  then have "settled_at d (s\<lparr>holder := Some i, threads := (threads s)(i := Inside op (enter op))\<rparr>)"
    using during_enter [of op d] by (auto simp: settled_at_def)
  with lock show ?case by auto
next
  case (work s i op l l' d')
  with settled_work [OF work(5,1,3)] show ?case by auto
next
  case (unlock s i op l r)
  note h = settled_inside [OF unlock(4,1)]
  note w = during_result [OF h(2) unlock(2)]
  have "settled_at (shared s) (s\<lparr>holder := None, threads := (threads s)(i := Idle), returned := returned s @ [(i, op, r)]\<rparr>)"
    using h(3) settled_waiting [OF unlock(4)] by (auto simp: settled_at_def)
  with whole_good [OF unlock(3), of op] w unlock show ?case by (auto simp: run_calls_append)
qed

lemma lock_inv_init: "good d \<Longrightarrow> lock_init d s \<Longrightarrow> lock_inv d s"
  by (auto simp: lock_init_def lock_inv_def settled_at_def)

lemma lock_inv_step: "lstep s e s' \<Longrightarrow> lock_inv start s \<Longrightarrow> lock_inv start s'"
  unfolding lock_inv_def using settled_step by blast

end

text \<open>Runs of the threads from data \<open>start\<close>.\<close>

sublocale guarded \<subseteq> locks: machine "lock_init start" lstep for start .

context guarded
begin

lemma lock_reachable_inv: "good start \<Longrightarrow> locks.reachable start s \<Longrightarrow> lock_inv start s"
  by (erule locks.reachable_invariant) (auto intro: lock_inv_init lock_inv_step)

text \<open>At most one thread is inside; the calls that returned are a sequence of whole operations; and
  when nobody holds the lock the data are what that sequence leaves.\<close>

lemma linearizable:
  assumes "good start" "locks.reachable start s"
  shows "\<exists>d. run_calls whole (returned s) start = Some d \<and> (holder s = None \<longrightarrow> shared s = d)"
  using lock_reachable_inv [OF assms] by (auto simp: lock_inv_def settled_at_def)

lemma exclusive:
  assumes "good start" "locks.reachable start s" "threads s i = Inside op l" "threads s j = Inside op' l'"
  shows "i = j"
  using lock_reachable_inv [OF assms(1,2)] settled_inside(3) [OF _ assms(3)] assms(4)
  unfolding lock_inv_def by blast

text \<open>As long as a call is under way, a thread that called can take a step.\<close>

lemma lock_progress:
  assumes "good start" "locks.reachable start s" "threads s i \<noteq> Idle"
  shows "\<exists>j t. lstep s (LockEv j) t \<or> lstep s (WorkEv j) t \<or> lstep s (UnlockEv j) t"
proof -
  obtain d where d: "settled_at d s" using lock_reachable_inv [OF assms(1,2)] by (auto simp: lock_inv_def)
  show ?thesis
  proof (cases "holder s")
    case None
    then obtain op where "threads s i = Waiting op"
      using assms(3) d by (cases "threads s i") (auto simp: settled_at_def)
    from lstep_lock [OF this None] show ?thesis by blast
  next
    case (Some j)
    then obtain op l where j: "threads s j = Inside op l" "during op d l (shared s)"
      using d by (auto simp: settled_at_def)
    show ?thesis
    proof (cases "result l")
      case None
      with work_enabled [OF j(2)] obtain l' d' where "work op l (shared s) l' d'" by blast
      from lstep_work [OF j(1) None this] show ?thesis by blast
    next
      case (Some r)
      from lstep_unlock [OF j(1) Some] show ?thesis by blast
    qed
  qed
qed

text \<open>A thread inside can finish on its own, and takes no more steps than its effort to do so: a
  section neither waits for another thread nor goes on for ever.\<close>

lemma section_ends:
  assumes "settled_at d s" "threads s i = Inside op l"
  shows "\<exists>n t. locks.run s (replicate n (WorkEv i) @ [UnlockEv i]) t \<and> holder t = None \<and> threads t i = Idle
    \<and> n \<le> effort l (shared s)"
  using assms
proof (induction "effort l (shared s)" arbitrary: s l rule: less_induct)
  case less
  note h = settled_inside [OF less.prems]
  show ?case
  proof (cases "result l")
    case (Some r)
    from lstep_unlock [OF less.prems(2) Some]
    have "locks.run s (replicate 0 (WorkEv i) @ [UnlockEv i])
      (s\<lparr>holder := None, threads := (threads s)(i := Idle), returned := returned s @ [(i, op, r)]\<rparr>)"
      by (simp add: locks.run_Cons_iff)
    then show ?thesis by (intro exI [of _ 0] exI conjI) auto
  next
    case None
    with work_enabled [OF h(2)] obtain l' d' where w: "work op l (shared s) l' d'" by blast
    let ?s = "s\<lparr>shared := d', threads := (threads s)(i := Inside op l')\<rparr>"
    have st: "lstep s (WorkEv i) ?s" by (rule lstep_work [OF less.prems(2) None w])
    have "settled_at d ?s" by (rule settled_work [OF less.prems w])
    moreover have eff: "effort l' (shared ?s) < effort l (shared s)" using work_effort [OF h(2) w] by simp
    ultimately obtain n t where t: "locks.run ?s (replicate n (WorkEv i) @ [UnlockEv i]) t" "holder t = None"
      "threads t i = Idle" "n \<le> effort l' (shared ?s)"
      using less.hyps [of l' ?s] by auto
    have "locks.run s (replicate (Suc n) (WorkEv i) @ [UnlockEv i]) t"
      using t(1) st by (auto simp: locks.run_Cons_iff)
    then show ?thesis using t eff by (intro exI [of _ "Suc n"] exI [of _ t]) simp
  qed
qed

end

end
