(* ===== verification/Dedupe_Locking.thy ===== *)
theory Dedupe_Locking
  imports Mutex Dedupe
begin

text \<open>
  \<open>Acquire\<close> under its mutex (\<open>operator/internal/server/dedupe.go\<close>), at the granularity of single map
  operations: the lookup, the stamp, the choice of an iteration order and one deletion at a time.
  \<open>Dedupe.Acquire\<close> and the interleaved server treat a call as one step; here any number of
  goroutines interleave their small steps, and the calls that returned are proved to be a sequence
  of whole calls. A call with an empty fingerprint returns before it takes the lock.
\<close>

section \<open>The critical section\<close>

datatype acquire_pc = AqCheck | AqStamp | AqRange | AqGc "string list" | AqDone bool

definition acquire_early :: "string \<times> instant \<Rightarrow> bool option" where
  "acquire_early op = (if fst op = '''' then Some True else None)"

definition recently :: "string \<times> instant \<Rightarrow> Dedupe \<Rightarrow> bool" where
  "recently op d \<longleftrightarrow> (case seen d (fst op) of Some t \<Rightarrow> time_sub (snd op) t < cooldown d | None \<Rightarrow> False)"

definition stamped :: "string \<times> instant \<Rightarrow> Dedupe \<Rightarrow> Dedupe" where
  "stamped op d = d\<lparr>seen := (seen d)(fst op \<mapsto> snd op)\<rparr>"

inductive acquire_work :: "string \<times> instant \<Rightarrow> acquire_pc \<Rightarrow> Dedupe \<Rightarrow> acquire_pc \<Rightarrow> Dedupe \<Rightarrow> bool" for op where
  recent: "recently op d \<Longrightarrow> acquire_work op AqCheck d (AqDone False) d"
| fresh: "\<not> recently op d \<Longrightarrow> acquire_work op AqCheck d AqStamp d"
| stamp: "acquire_work op AqStamp d AqRange (stamped op d)"
| range: "distinct fps \<Longrightarrow> set fps = dom (seen d) \<Longrightarrow> acquire_work op AqRange d (AqGc fps) d"
| gc: "acquire_work op (AqGc (fp # fps)) d (AqGc fps) (d\<lparr>seen := gc_range (snd op) (cooldown d) [fp] (seen d)\<rparr>)"
| gc_end: "acquire_work op (AqGc []) d (AqDone True) d"

inductive_cases acquire_workE: "acquire_work op l d l' d'"

fun acquire_result :: "acquire_pc \<Rightarrow> bool option" where
  "acquire_result (AqDone r) = Some r"
| "acquire_result _ = None"

section \<open>Lemmas\<close>

definition whole_acquire :: "string \<times> instant \<Rightarrow> Dedupe \<Rightarrow> bool \<times> Dedupe" where
  "whole_acquire op d = Acquire (fst op) (snd op) d"

text \<open>What holds in the middle of a section that found the gate \<open>d0\<close>.\<close>

fun acquire_during :: "string \<times> instant \<Rightarrow> Dedupe \<Rightarrow> acquire_pc \<Rightarrow> Dedupe \<Rightarrow> bool" where
  "acquire_during op d0 AqCheck d \<longleftrightarrow> finite (dom (seen d)) \<and> fst op \<noteq> '''' \<and> d = d0"
| "acquire_during op d0 AqStamp d \<longleftrightarrow> finite (dom (seen d)) \<and> fst op \<noteq> '''' \<and> \<not> recently op d0 \<and> d = d0"
| "acquire_during op d0 AqRange d \<longleftrightarrow> finite (dom (seen d)) \<and> fst op \<noteq> '''' \<and> \<not> recently op d0 \<and> d = stamped op d0"
| "acquire_during op d0 (AqGc fps) d \<longleftrightarrow> fst op \<noteq> '''' \<and> \<not> recently op d0 \<and> cooldown d = cooldown d0
     \<and> gc_range (snd op) (cooldown d0) fps (seen d) = seen (gcLocked (snd op) (stamped op d0))"
| "acquire_during op d0 (AqDone r) d \<longleftrightarrow> whole_acquire op d0 = (r, d)"

fun acquire_effort :: "acquire_pc \<Rightarrow> Dedupe \<Rightarrow> nat" where
  "acquire_effort AqCheck d = card (dom (seen d)) + 5"
| "acquire_effort AqStamp d = card (dom (seen d)) + 4"
| "acquire_effort AqRange d = card (dom (seen d)) + 2"
| "acquire_effort (AqGc fps) d = length fps + 1"
| "acquire_effort (AqDone r) d = 0"

lemma whole_acquire_cases:
  assumes "fst op \<noteq> ''''"
  shows "whole_acquire op d = (if recently op d then (False, d) else (True, gcLocked (snd op) (stamped op d)))"
  using assms by (simp add: whole_acquire_def Acquire_def recently_def stamped_def)

lemma finite_gcLocked: "finite (dom (seen d)) \<Longrightarrow> finite (dom (seen (gcLocked now d)))"
  by (rule finite_subset [of _ "dom (seen d)"]) (auto simp: gcLocked_def split: option.splits if_splits)

lemma during_acquire_work:
  assumes "acquire_during op d0 l d" "acquire_work op l d l' d'"
  shows "acquire_during op d0 l' d' \<and> acquire_effort l' d' < acquire_effort l d"
  using assms(2,1)
proof (induction rule: acquire_work.induct)
  case (stamp d)
  then show ?case by (auto simp: stamped_def card_insert_if)
next
  case (range fps d)
  have "cooldown (stamped op d0) = cooldown d0" by (simp add: stamped_def)
  with range gcLocked_any_order [OF range(2), of "snd op"] show ?case
    using distinct_card [OF range(1)] by simp
next
  case (gc_end d)
  then have "seen d = seen (gcLocked (snd op) (stamped op d0))"
    "cooldown d = cooldown (gcLocked (snd op) (stamped op d0))" by (simp_all add: stamped_def)
  then have "d = gcLocked (snd op) (stamped op d0)" by simp
  with gc_end show ?case by (simp add: whole_acquire_cases)
qed (auto simp: whole_acquire_cases)

interpretation aq: guarded acquire_early "\<lambda>_. AqCheck" acquire_work acquire_result whole_acquire
  "\<lambda>d. finite (dom (seen d))" acquire_during acquire_effort
proof unfold_locales
  fix op :: "string \<times> instant" and d :: Dedupe
  show "finite (dom (seen (snd (whole_acquire op d))))" if "finite (dom (seen d))"
    using that finite_gcLocked [of "stamped op d"]
    by (cases "fst op = ''''") (auto simp: whole_acquire_cases whole_acquire_def Acquire_def stamped_def)
next
  fix op d0 l d r
  assume "acquire_during op d0 l d" "acquire_result l = Some r"
  then show "whole_acquire op d0 = (r, d)" by (cases l) simp_all
next
  fix op d0 l d
  assume "acquire_during op d0 l d" "acquire_result l = None"
  then show "\<exists>l' d'. acquire_work op l d l' d'"
  proof (cases l)
    case AqRange
    have "finite (dom (seen d))" using \<open>acquire_during op d0 l d\<close> unfolding AqRange acquire_during.simps by (rule conjunct1)
    from finite_distinct_list [OF this] obtain fps where "set fps = dom (seen d)" "distinct fps" by (elim exE conjE)
    then have "acquire_work op AqRange d (AqGc fps) d" by (intro acquire_work.range)
    then show ?thesis unfolding AqRange by blast
  next
    case AqCheck
    then show ?thesis by (cases "recently op d") (auto intro: acquire_work.intros)
  next
    case (AqGc fps)
    then show ?thesis by (cases fps) (auto intro: acquire_work.intros)
  qed (auto intro: acquire_work.intros)
qed (auto simp: acquire_early_def whole_acquire_def Acquire_def dest: during_acquire_work split: if_splits)

text \<open>The calls that returned, as a log of the gate.\<close>

lemma run_calls_acquire:
  "run_calls whole_acquire cs d = Some d' \<Longrightarrow>
     acquire_log (map (\<lambda>(i, op, r). op) cs) d = (map (\<lambda>(i, (fp, now), r). (fp, now, r)) cs, d')"
  by (induction whole_acquire cs d rule: run_calls.induct)
    (auto simp: whole_acquire_def split: if_splits prod.splits)

section \<open>Properties\<close>

text \<open>
  C15: the gate is linearizable. In every interleaving of the small steps of any number of concurrent
  calls, for every iteration order of the map, at most one goroutine is inside; the calls that have
  returned are, in the order in which they released the lock, a sequence of whole \<open>Acquire\<close> calls
  with the answers they got, and when nobody holds the lock the map is what that sequence leaves;
  and as long as a call is under way some goroutine can go on, and the one inside can leave on its
  own after finitely many steps.
\<close>

theorem acquire_linearizable:
  assumes "aq.locks.reachable (NewDedupe c) s"
  shows "(\<exists>d. acquire_log (map (\<lambda>(i, op, r). op) (returned s)) (NewDedupe c) =
        (map (\<lambda>(i, (fp, now), r). (fp, now, r)) (returned s), d) \<and> (holder s = None \<longrightarrow> shared s = d))
    \<and> (\<forall>i j op l op' l'. threads s i = Inside op l \<and> threads s j = Inside op' l' \<longrightarrow> i = j)
    \<and> ((\<exists>i. threads s i \<noteq> Idle) \<longrightarrow> (\<exists>i t. aq.lstep s (LockEv i) t \<or> aq.lstep s (WorkEv i) t \<or> aq.lstep s (UnlockEv i) t))
    \<and> (\<forall>i op l. threads s i = Inside op l \<longrightarrow>
        (\<exists>n t. aq.locks.run s (replicate n (WorkEv i) @ [UnlockEv i]) t \<and> holder t = None \<and> threads t i = Idle))"
proof -
  have good: "finite (dom (seen (NewDedupe c)))" by (simp add: NewDedupe_def)
  note inv = aq.lock_reachable_inv [OF good assms]
  obtain d0 where d0: "aq.settled_at d0 s" using inv unfolding aq.lock_inv_def by (elim exE conjE)
  obtain d where d: "run_calls whole_acquire (returned s) (NewDedupe c) = Some d" "holder s = None \<longrightarrow> shared s = d"
    using aq.linearizable [OF good assms] by (elim exE conjE)
  show ?thesis
  proof (intro conjI)
    show "\<exists>d. acquire_log (map (\<lambda>(i, op, r). op) (returned s)) (NewDedupe c) =
        (map (\<lambda>(i, (fp, now), r). (fp, now, r)) (returned s), d) \<and> (holder s = None \<longrightarrow> shared s = d)"
      by (intro exI conjI) (rule run_calls_acquire [OF d(1)], rule d(2))
    show "\<forall>i j op l op' l'. threads s i = Inside op l \<and> threads s j = Inside op' l' \<longrightarrow> i = j"
      using aq.exclusive [OF good assms] by simp
    show "(\<exists>i. threads s i \<noteq> Idle) \<longrightarrow>
        (\<exists>i t. aq.lstep s (LockEv i) t \<or> aq.lstep s (WorkEv i) t \<or> aq.lstep s (UnlockEv i) t)"
      by (intro impI, elim exE) (rule aq.lock_progress [OF good assms])
    show "\<forall>i op l. threads s i = Inside op l \<longrightarrow>
        (\<exists>n t. aq.locks.run s (replicate n (WorkEv i) @ [UnlockEv i]) t \<and> holder t = None \<and> threads t i = Idle)"
      using aq.section_ends [OF d0] by fastforce
  qed
qed


text \<open>One goroutine is inside while another has returned early.\<close>

definition busy_gate :: "(Dedupe, string \<times> instant, acquire_pc, bool) locked" where
  "busy_gate = \<lparr>shared = NewDedupe minute, holder = Some 0, threads = (\<lambda>_. Idle)(0 := Inside (''a'', 7) AqCheck),
     returned = [(1, ('''', 9), True)]\<rparr>"

lemma busy_gate_reachable: "aq.locks.reachable (NewDedupe minute) busy_gate"
proof -
  let ?s0 = "\<lparr>shared = NewDedupe minute, holder = None, threads = \<lambda>_. Idle, returned = []\<rparr> ::
    (Dedupe, string \<times> instant, acquire_pc, bool) locked"
  let ?s1 = "?s0\<lparr>threads := (threads ?s0)(0 := Waiting (''a'', 7))\<rparr>"
  let ?s2 = "?s1\<lparr>holder := Some 0, threads := (threads ?s1)(0 := Inside (''a'', 7) AqCheck)\<rparr>"
  let ?s3 = "?s2\<lparr>returned := returned ?s2 @ [(1, ('''', 9), True)]\<rparr>"
  have r0: "aq.locks.reachable (NewDedupe minute) ?s0" by (rule aq.locks.reachable_init) (simp add: lock_init_def)
  have s1: "aq.lstep ?s0 (CallEv 0 (''a'', 7)) ?s1" by (rule lock_step.call) (simp_all add: acquire_early_def)
  have s2: "aq.lstep ?s1 (LockEv 0) ?s2" by (rule lock_step.lock) simp_all
  have s3: "aq.lstep ?s2 (CallEv 1 ('''', 9)) ?s3" by (rule lock_step.call_early) (simp_all add: acquire_early_def)
  from aq.locks.reachable_step [OF aq.locks.reachable_step [OF aq.locks.reachable_step [OF r0 s1] s2] s3] show ?thesis by (simp add: busy_gate_def)
qed

theorem acquire_linearizable_witness:
  "\<exists>d n t. acquire_log [('''', 9)] (NewDedupe minute) = ([('''', 9, True)], d)
    \<and> aq.locks.run busy_gate (replicate n (WorkEv 0) @ [UnlockEv 0]) t \<and> holder t = None"
proof -
  have in0: "threads busy_gate 0 = Inside (''a'', 7) AqCheck" by (simp add: busy_gate_def)
  note lin = acquire_linearizable [OF busy_gate_reachable]
  from lin obtain d where "acquire_log [('''', 9)] (NewDedupe minute) = ([('''', 9, True)], d)"
    by (auto simp: busy_gate_def)
  moreover from conjunct2 [OF conjunct2 [OF conjunct2 [OF lin]], rule_format, OF in0] obtain n t where
    "aq.locks.run busy_gate (replicate n (WorkEv 0) @ [UnlockEv 0]) t" "holder t = None"
    by (elim exE conjE)
  ultimately show ?thesis by (intro exI conjI)
qed

end
