(* ===== verification/Proto.thy ===== *)
theory Proto
  imports Lab_Prelude
begin

text \<open>
  The generated gRPC code (\<open>gen/go\<close>): messages as records, message pointers as options with
  the getters that accept nil, open enums as 32-bit words with their name tables, client
  stubs over a transport, server handlers with an optional interceptor, and the embedded
  servers that answer \<open>Unimplemented\<close>. The transport, \<open>grpc.ClientConnInterface.Invoke\<close>, is a
  parameter; \<open>at_most_once\<close> is what the services rely on from it. The protobuf reflection and
  descriptor code has no behaviour of its own and is left out.
\<close>

section \<open>Calls\<close>

datatype grpc_error = Unimplemented string | RpcError string

text \<open>What a Go method returns: a message pointer and an error.\<close>

type_synonym 'r rpc_result = "'r option \<times> grpc_error option"

type_synonym ('q, 'r, 's) rpc_method = "'q option \<Rightarrow> 's \<Rightarrow> 'r rpc_result \<times> 's"

text \<open>\<open>Invoke\<close> with the method's full name: an error, or nil with the reply filled in.\<close>

type_synonym ('q, 'r, 's) transport = "string \<Rightarrow> 'q option \<Rightarrow> 's \<Rightarrow> (grpc_error + 'r) \<times> 's"

definition unary_call :: "string \<Rightarrow> ('q, 'r, 's) transport \<Rightarrow> ('q, 'r, 's) rpc_method" where
  "unary_call full_method invoke inp s =
    (let (r, s1) = invoke full_method inp s
     in case r of Inl e \<Rightarrow> ((None, Some e), s1) | Inr out \<Rightarrow> ((Some out, None), s1))"

text \<open>A server handler: decode into a new message, then the method, through the interceptor if
  there is one.\<close>

type_synonym ('q, 'r, 's) interceptor =
  "'q option \<Rightarrow> string \<Rightarrow> ('q, 'r, 's) rpc_method \<Rightarrow> 's \<Rightarrow> 'r rpc_result \<times> 's"

definition unary_handler :: "string \<Rightarrow> 'q \<Rightarrow> ('q, 'r, 's) rpc_method \<Rightarrow> ('q \<Rightarrow> grpc_error + 'q) \<Rightarrow>
    ('q, 'r, 's) interceptor option \<Rightarrow> 's \<Rightarrow> 'r rpc_result \<times> 's" where
  "unary_handler full_method zero srv dec interceptor s =
    (case dec zero of
       Inl e \<Rightarrow> ((None, Some e), s)
     | Inr inp \<Rightarrow>
        (case interceptor of
           None \<Rightarrow> srv (Some inp) s
         | Some i \<Rightarrow> i (Some inp) full_method srv s))"

section \<open>Payments\<close>

type_synonym ChargeResponse_Status = int32

definition ChargeResponse_STATUS_UNSPECIFIED :: ChargeResponse_Status where
  "ChargeResponse_STATUS_UNSPECIFIED = 0"
definition ChargeResponse_STATUS_AUTHORIZED :: ChargeResponse_Status where
  "ChargeResponse_STATUS_AUTHORIZED = 1"
definition ChargeResponse_STATUS_DECLINED :: ChargeResponse_Status where
  "ChargeResponse_STATUS_DECLINED = 2"

definition ChargeResponse_Status_name :: "int32 \<rightharpoonup> string" where
  "ChargeResponse_Status_name =
    [0 \<mapsto> ''STATUS_UNSPECIFIED'', 1 \<mapsto> ''STATUS_AUTHORIZED'', 2 \<mapsto> ''STATUS_DECLINED'']"

definition ChargeResponse_Status_value :: "string \<rightharpoonup> int32" where
  "ChargeResponse_Status_value =
    [''STATUS_UNSPECIFIED'' \<mapsto> 0, ''STATUS_AUTHORIZED'' \<mapsto> 1, ''STATUS_DECLINED'' \<mapsto> 2]"

record ChargeRequest =
  charge_OrderId :: string
  charge_CustomerId :: string
  charge_AmountMinor :: int64
  charge_Currency :: string

record ChargeResponse =
  charge_PaymentId :: string
  charge_Status :: ChargeResponse_Status
  charge_DeclineReason :: string

definition ChargeRequest_Reset :: ChargeRequest where
  "ChargeRequest_Reset = \<lparr>charge_OrderId = '''', charge_CustomerId = '''', charge_AmountMinor = 0,
     charge_Currency = ''''\<rparr>"

definition ChargeRequest_GetOrderId :: "ChargeRequest option \<Rightarrow> string" where
  "ChargeRequest_GetOrderId x = (case x of Some m \<Rightarrow> charge_OrderId m | None \<Rightarrow> '''')"
definition ChargeRequest_GetCustomerId :: "ChargeRequest option \<Rightarrow> string" where
  "ChargeRequest_GetCustomerId x = (case x of Some m \<Rightarrow> charge_CustomerId m | None \<Rightarrow> '''')"
definition ChargeRequest_GetAmountMinor :: "ChargeRequest option \<Rightarrow> int64" where
  "ChargeRequest_GetAmountMinor x = (case x of Some m \<Rightarrow> charge_AmountMinor m | None \<Rightarrow> 0)"
definition ChargeRequest_GetCurrency :: "ChargeRequest option \<Rightarrow> string" where
  "ChargeRequest_GetCurrency x = (case x of Some m \<Rightarrow> charge_Currency m | None \<Rightarrow> '''')"
definition ChargeResponse_GetPaymentId :: "ChargeResponse option \<Rightarrow> string" where
  "ChargeResponse_GetPaymentId x = (case x of Some m \<Rightarrow> charge_PaymentId m | None \<Rightarrow> '''')"
definition ChargeResponse_GetStatus :: "ChargeResponse option \<Rightarrow> ChargeResponse_Status" where
  "ChargeResponse_GetStatus x =
    (case x of Some m \<Rightarrow> charge_Status m | None \<Rightarrow> ChargeResponse_STATUS_UNSPECIFIED)"
definition ChargeResponse_GetDeclineReason :: "ChargeResponse option \<Rightarrow> string" where
  "ChargeResponse_GetDeclineReason x = (case x of Some m \<Rightarrow> charge_DeclineReason m | None \<Rightarrow> '''')"

definition PaymentsService_Charge_FullMethodName :: string where
  "PaymentsService_Charge_FullMethodName = ''/payments.v1.PaymentsService/Charge''"

definition paymentsServiceClient_Charge ::
    "(ChargeRequest, ChargeResponse, 's) transport \<Rightarrow> (ChargeRequest, ChargeResponse, 's) rpc_method" where
  "paymentsServiceClient_Charge = unary_call PaymentsService_Charge_FullMethodName"

definition PaymentsService_Charge_Handler where
  "PaymentsService_Charge_Handler (srv :: (ChargeRequest, ChargeResponse, 's) rpc_method) =
     unary_handler PaymentsService_Charge_FullMethodName ChargeRequest_Reset srv"

definition UnimplementedPaymentsServiceServer_Charge ::
    "(ChargeRequest, ChargeResponse, 's) rpc_method" where
  "UnimplementedPaymentsServiceServer_Charge inp s =
     ((None, Some (Unimplemented ''method Charge not implemented'')), s)"

section \<open>Inventory\<close>

type_synonym ReserveResponse_Status = int32

definition ReserveResponse_STATUS_UNSPECIFIED :: ReserveResponse_Status where
  "ReserveResponse_STATUS_UNSPECIFIED = 0"
definition ReserveResponse_STATUS_OK :: ReserveResponse_Status where
  "ReserveResponse_STATUS_OK = 1"
definition ReserveResponse_STATUS_OUT_OF_STOCK :: ReserveResponse_Status where
  "ReserveResponse_STATUS_OUT_OF_STOCK = 2"

definition ReserveResponse_Status_name :: "int32 \<rightharpoonup> string" where
  "ReserveResponse_Status_name =
    [0 \<mapsto> ''STATUS_UNSPECIFIED'', 1 \<mapsto> ''STATUS_OK'', 2 \<mapsto> ''STATUS_OUT_OF_STOCK'']"

definition ReserveResponse_Status_value :: "string \<rightharpoonup> int32" where
  "ReserveResponse_Status_value =
    [''STATUS_UNSPECIFIED'' \<mapsto> 0, ''STATUS_OK'' \<mapsto> 1, ''STATUS_OUT_OF_STOCK'' \<mapsto> 2]"

record LineItem =
  item_Sku :: string
  item_Quantity :: int32

record ReserveRequest =
  reserve_OrderId :: string
  reserve_Items :: "LineItem option list"

record ReserveResponse =
  reserve_ReservationId :: string
  reserve_Status :: ReserveResponse_Status

record ReleaseRequest =
  release_ReservationId :: string

record ReleaseResponse =
  release_Released :: bool

definition ReserveRequest_Reset :: ReserveRequest where
  "ReserveRequest_Reset = \<lparr>reserve_OrderId = '''', reserve_Items = []\<rparr>"
definition ReleaseRequest_Reset :: ReleaseRequest where
  "ReleaseRequest_Reset = \<lparr>release_ReservationId = ''''\<rparr>"

definition ReserveRequest_GetOrderId :: "ReserveRequest option \<Rightarrow> string" where
  "ReserveRequest_GetOrderId x = (case x of Some m \<Rightarrow> reserve_OrderId m | None \<Rightarrow> '''')"
definition ReserveRequest_GetItems :: "ReserveRequest option \<Rightarrow> LineItem option list" where
  "ReserveRequest_GetItems x = (case x of Some m \<Rightarrow> reserve_Items m | None \<Rightarrow> [])"
definition ReserveResponse_GetReservationId :: "ReserveResponse option \<Rightarrow> string" where
  "ReserveResponse_GetReservationId x = (case x of Some m \<Rightarrow> reserve_ReservationId m | None \<Rightarrow> '''')"
definition ReserveResponse_GetStatus :: "ReserveResponse option \<Rightarrow> ReserveResponse_Status" where
  "ReserveResponse_GetStatus x =
    (case x of Some m \<Rightarrow> reserve_Status m | None \<Rightarrow> ReserveResponse_STATUS_UNSPECIFIED)"
definition ReleaseRequest_GetReservationId :: "ReleaseRequest option \<Rightarrow> string" where
  "ReleaseRequest_GetReservationId x = (case x of Some m \<Rightarrow> release_ReservationId m | None \<Rightarrow> '''')"
definition ReleaseResponse_GetReleased :: "ReleaseResponse option \<Rightarrow> bool" where
  "ReleaseResponse_GetReleased x = (case x of Some m \<Rightarrow> release_Released m | None \<Rightarrow> False)"
definition LineItem_GetSku :: "LineItem option \<Rightarrow> string" where
  "LineItem_GetSku x = (case x of Some m \<Rightarrow> item_Sku m | None \<Rightarrow> '''')"
definition LineItem_GetQuantity :: "LineItem option \<Rightarrow> int32" where
  "LineItem_GetQuantity x = (case x of Some m \<Rightarrow> item_Quantity m | None \<Rightarrow> 0)"

definition InventoryService_Reserve_FullMethodName :: string where
  "InventoryService_Reserve_FullMethodName = ''/inventory.v1.InventoryService/Reserve''"
definition InventoryService_Release_FullMethodName :: string where
  "InventoryService_Release_FullMethodName = ''/inventory.v1.InventoryService/Release''"

definition inventoryServiceClient_Reserve ::
    "(ReserveRequest, ReserveResponse, 's) transport \<Rightarrow> (ReserveRequest, ReserveResponse, 's) rpc_method"
  where
  "inventoryServiceClient_Reserve = unary_call InventoryService_Reserve_FullMethodName"

definition inventoryServiceClient_Release ::
    "(ReleaseRequest, ReleaseResponse, 's) transport \<Rightarrow> (ReleaseRequest, ReleaseResponse, 's) rpc_method"
  where
  "inventoryServiceClient_Release = unary_call InventoryService_Release_FullMethodName"

definition InventoryService_Reserve_Handler where
  "InventoryService_Reserve_Handler (srv :: (ReserveRequest, ReserveResponse, 's) rpc_method) =
     unary_handler InventoryService_Reserve_FullMethodName ReserveRequest_Reset srv"

definition InventoryService_Release_Handler where
  "InventoryService_Release_Handler (srv :: (ReleaseRequest, ReleaseResponse, 's) rpc_method) =
     unary_handler InventoryService_Release_FullMethodName ReleaseRequest_Reset srv"

definition UnimplementedInventoryServiceServer_Reserve ::
    "(ReserveRequest, ReserveResponse, 's) rpc_method" where
  "UnimplementedInventoryServiceServer_Reserve inp s =
     ((None, Some (Unimplemented ''method Reserve not implemented'')), s)"

definition UnimplementedInventoryServiceServer_Release ::
    "(ReleaseRequest, ReleaseResponse, 's) rpc_method" where
  "UnimplementedInventoryServiceServer_Release inp s =
     ((None, Some (Unimplemented ''method Release not implemented'')), s)"

lemmas getter_defs =
  ChargeRequest_GetOrderId_def ChargeRequest_GetCustomerId_def ChargeRequest_GetAmountMinor_def
  ChargeRequest_GetCurrency_def ChargeResponse_GetPaymentId_def ChargeResponse_GetStatus_def
  ChargeResponse_GetDeclineReason_def ReserveRequest_GetOrderId_def ReserveRequest_GetItems_def
  ReserveResponse_GetReservationId_def ReserveResponse_GetStatus_def
  ReleaseRequest_GetReservationId_def ReleaseResponse_GetReleased_def LineItem_GetSku_def
  LineItem_GetQuantity_def

lemmas charge_status_defs =
  ChargeResponse_STATUS_UNSPECIFIED_def ChargeResponse_STATUS_AUTHORIZED_def
  ChargeResponse_STATUS_DECLINED_def

lemmas reserve_status_defs =
  ReserveResponse_STATUS_UNSPECIFIED_def ReserveResponse_STATUS_OK_def
  ReserveResponse_STATUS_OUT_OF_STOCK_def

section \<open>What the services rely on from the transport\<close>

text \<open>
  A unary call without retries reaches the server at most once: a reply is the server's reply
  to this request, and when an error is returned the server either never saw the request or
  handled it once. An error of the server's method is returned as an error.
\<close>

definition at_most_once :: "string \<Rightarrow> ('q, 'r, 's) rpc_method \<Rightarrow> ('q, 'r, 's) transport \<Rightarrow> bool" where
  "at_most_once full_method srv invoke \<longleftrightarrow> (\<forall>inp s.
     case invoke full_method inp s of
       (Inr out, s') \<Rightarrow> srv inp s = ((Some out, None), s')
     | (Inl e, s') \<Rightarrow> s' = s \<or> s' = snd (srv inp s))"

text \<open>A transport that calls the server's handler in the same process.\<close>

definition local_transport :: "('q, 'r, 's) rpc_method \<Rightarrow> ('q, 'r, 's) transport" where
  "local_transport srv full_method inp s =
    (case srv inp s of
       ((Some out, None), s') \<Rightarrow> (Inr out, s')
     | ((_, Some e), s') \<Rightarrow> (Inl e, s')
     | ((None, None), s') \<Rightarrow> (Inl (RpcError ''grpc: nil reply''), s'))"

text \<open>A transport that loses every request.\<close>

definition down_transport :: "('q, 'r, 's) transport" where
  "down_transport full_method inp s = (Inl (RpcError ''unavailable''), s)"

lemma at_most_once_local: "at_most_once m srv (local_transport srv)"
  by (auto simp: at_most_once_def local_transport_def split: prod.splits option.splits)

lemma at_most_once_down: "at_most_once m srv down_transport"
  by (simp add: at_most_once_def down_transport_def)

lemma at_most_onceD:
  assumes "at_most_once m srv invoke"
  shows "invoke m inp s = (Inr out, s') \<Longrightarrow> srv inp s = ((Some out, None), s')"
    and "invoke m inp s = (Inl e, s') \<Longrightarrow> s' = s \<or> s' = snd (srv inp s)"
  using assms unfolding at_most_once_def by (auto dest!: spec [of _ inp] spec [of _ s])

lemma unary_call_cases:
  assumes "at_most_once m srv invoke" "unary_call m invoke inp s = ((resp, err), s')"
  obtains (reply) out where "resp = Some out" "err = None" "srv inp s = ((Some out, None), s')"
  | (failed) e where "resp = None" "err = Some e" "s' = s \<or> s' = snd (srv inp s)"
proof (cases "invoke m inp s")
  case (Pair r s1)
  show thesis
    using at_most_onceD [OF assms(1)] assms(2) that Pair by (cases r) (auto simp: unary_call_def)
qed

lemma unary_handler_local:
  "dec zero = Inr inp \<Longrightarrow> unary_handler m zero srv dec None s = srv (Some inp) s"
  by (simp add: unary_handler_def)

section \<open>Enum tables\<close>

text \<open>
  The enum tables are inverse to each other: for both status enums every listed number
  maps to a name that maps back to it, every listed name to a number that maps back to it,
  and the named constants are the numbers of the tables.
\<close>

lemma status_tables_inverse:
  "(ChargeResponse_Status_name n = Some name \<longleftrightarrow> ChargeResponse_Status_value name = Some n)
   \<and> (ReserveResponse_Status_name n = Some name \<longleftrightarrow> ReserveResponse_Status_value name = Some n)
   \<and> ChargeResponse_Status_value ''STATUS_AUTHORIZED'' = Some ChargeResponse_STATUS_AUTHORIZED
   \<and> ChargeResponse_Status_value ''STATUS_DECLINED'' = Some ChargeResponse_STATUS_DECLINED
   \<and> ReserveResponse_Status_value ''STATUS_OK'' = Some ReserveResponse_STATUS_OK
   \<and> ReserveResponse_Status_value ''STATUS_OUT_OF_STOCK'' = Some ReserveResponse_STATUS_OUT_OF_STOCK"
  by (auto simp: ChargeResponse_Status_name_def ChargeResponse_Status_value_def
      ReserveResponse_Status_name_def ReserveResponse_Status_value_def charge_status_defs
      reserve_status_defs split: if_splits)

section \<open>Services over the wire\<close>

text \<open>A service descriptor: the service's name and its methods with their handlers.\<close>

record ('q, 'r, 's) ServiceDesc =
  ServiceName :: string
  Methods :: "(string \<times> ((('q \<Rightarrow> grpc_error + 'q) \<Rightarrow> ('q, 'r, 's) interceptor option \<Rightarrow> 's \<Rightarrow> 'r rpc_result \<times> 's))) list"

definition PaymentsService_ServiceDesc ::
    "(ChargeRequest, ChargeResponse, 's) rpc_method \<Rightarrow> (ChargeRequest, ChargeResponse, 's) ServiceDesc" where
  "PaymentsService_ServiceDesc srv = \<lparr>ServiceName = ''payments.v1.PaymentsService'',
     Methods = [(''Charge'', PaymentsService_Charge_Handler srv)]\<rparr>"

text \<open>The two methods of the inventory service have different message types; one descriptor for
  each of them.\<close>

definition InventoryService_Reserve_Desc ::
    "(ReserveRequest, ReserveResponse, 's) rpc_method \<Rightarrow> (ReserveRequest, ReserveResponse, 's) ServiceDesc" where
  "InventoryService_Reserve_Desc srv = \<lparr>ServiceName = ''inventory.v1.InventoryService'',
     Methods = [(''Reserve'', InventoryService_Reserve_Handler srv)]\<rparr>"

definition InventoryService_Release_Desc ::
    "(ReleaseRequest, ReleaseResponse, 's) rpc_method \<Rightarrow> (ReleaseRequest, ReleaseResponse, 's) ServiceDesc" where
  "InventoryService_Release_Desc srv = \<lparr>ServiceName = ''inventory.v1.InventoryService'',
     Methods = [(''Release'', InventoryService_Release_Handler srv)]\<rparr>"

text \<open>
  What a connection to a server does, by gRPC's documentation, when nothing fails on the way: the
  path \<open>/service/method\<close> reaches that method's handler in the registered descriptor, without an
  interceptor, the handler's \<open>dec\<close> fills its message from the bytes the client's message was
  marshalled to (a nil message is marshalled as an empty one), and a reply is read back from the
  bytes it was marshalled to. \<open>codec\<close> is what a message becomes on its way through the bytes.
\<close>

definition delivers :: "('q, 'r, 's) ServiceDesc \<Rightarrow> ('q \<Rightarrow> grpc_error + 'q) \<Rightarrow> ('r \<Rightarrow> grpc_error + 'r) \<Rightarrow>
    'q \<Rightarrow> ('q, 'r, 's) transport \<Rightarrow> bool" where
  "delivers desc codec_q codec_r zero invoke \<longleftrightarrow> (\<forall>(name, h) \<in> set (Methods desc). \<forall>inp s.
     invoke (CHR ''/'' # ServiceName desc @ CHR ''/'' # name) inp s =
       (case h (\<lambda>_. codec_q (case inp of None \<Rightarrow> zero | Some m \<Rightarrow> m)) None s of
          ((Some out, None), s') \<Rightarrow> (codec_r out, s')
        | ((_, Some e), s') \<Rightarrow> (Inl e, s')
        | ((None, None), s') \<Rightarrow> (Inl (RpcError ''grpc: nil reply''), s')))"

text \<open>Such a connection in one process, with a codec that loses nothing.\<close>

definition wire_transport :: "('q, 'r, 's) ServiceDesc \<Rightarrow> 'q \<Rightarrow> ('q, 'r, 's) transport" where
  "wire_transport desc zero path inp s =
    (case map_of (map (\<lambda>(name, h). (CHR ''/'' # ServiceName desc @ CHR ''/'' # name, h)) (Methods desc)) path of
       None \<Rightarrow> (Inl (Unimplemented ''unknown method''), s)
     | Some h \<Rightarrow>
        (case h (\<lambda>_. Inr (case inp of None \<Rightarrow> zero | Some m \<Rightarrow> m)) None s of
          ((Some out, None), s') \<Rightarrow> (Inr out, s')
        | ((_, Some e), s') \<Rightarrow> (Inl e, s')
        | ((None, None), s') \<Rightarrow> (Inl (RpcError ''grpc: nil reply''), s')))"

lemma full_method_names:
  "PaymentsService_Charge_FullMethodName = CHR ''/'' # ''payments.v1.PaymentsService'' @ CHR ''/'' # ''Charge''"
  "InventoryService_Reserve_FullMethodName = CHR ''/'' # ''inventory.v1.InventoryService'' @ CHR ''/'' # ''Reserve''"
  "InventoryService_Release_FullMethodName = CHR ''/'' # ''inventory.v1.InventoryService'' @ CHR ''/'' # ''Release''"
  by (simp_all add: PaymentsService_Charge_FullMethodName_def InventoryService_Reserve_FullMethodName_def
      InventoryService_Release_FullMethodName_def)

lemma unary_wire:
  assumes "delivers \<lparr>ServiceName = sn, Methods = [(name, unary_handler full zero srv)]\<rparr> codec_q codec_r zero invoke"
    and "full = CHR ''/'' # sn @ CHR ''/'' # name"
    and "codec_q (case inp of None \<Rightarrow> zero | Some m \<Rightarrow> m) = Inr (case inp of None \<Rightarrow> zero | Some m \<Rightarrow> m)"
    and "srv (Some (case inp of None \<Rightarrow> zero | Some m \<Rightarrow> m)) s = ((Some out, None), s')" "codec_r out = Inr out"
  shows "unary_call full invoke inp s = ((Some out, None), s')"
proof -
  have "invoke full inp s = (case unary_handler full zero srv (\<lambda>_. codec_q (case inp of None \<Rightarrow> zero | Some m \<Rightarrow> m)) None s of
      ((Some out, None), s') \<Rightarrow> (codec_r out, s') | ((_, Some e), s') \<Rightarrow> (Inl e, s')
    | ((None, None), s') \<Rightarrow> (Inl (RpcError ''grpc: nil reply''), s'))"
    using assms(1) unfolding delivers_def assms(2) by simp
  then show ?thesis using assms(3-5) by (simp add: unary_handler_def unary_call_def)
qed

lemma map_of_paths:
  "map_of (map (\<lambda>(name, h). (CHR ''/'' # sn @ CHR ''/'' # name, h)) ms) (CHR ''/'' # sn @ CHR ''/'' # name) =
   map_of ms name"
  by (induction ms) auto

lemma delivers_wire:
  assumes "distinct (map fst (Methods desc))"
  shows "delivers desc Inr Inr zero (wire_transport desc zero)"
  using map_of_is_SomeI [OF assms] by (auto simp: delivers_def wire_transport_def map_of_paths)

end
