(* ===== verification/Obs.thy ===== *)
theory Obs
  imports Complex_Main Go_Mux Serve_Machine
begin

text \<open>
  The observability package every service uses (\<open>pkg/obs\<close>): log level, health flags, the mux with
  its probe handlers, \<open>Serve\<close> as an instance of the serving machine, the RED metrics middleware with its status recorder, and the
  decisions of the tracing set-up. The Prometheus handler behind \<open>/metrics\<close>, the OTLP exporter
  and \<open>fmt.Sscanf\<close> on floating-point text are parameters. The lemmas show what the probes
  answer in every state of the flags, that the middleware is transparent and counts each
  request once, when its code label is the status the client got, and what the sampling ratio
  can be.
\<close>

section \<open>Environment, logging and health\<close>

text \<open>\<open>os.Getenv\<close>: an unset variable reads as the empty string.\<close>

type_synonym environment = "string \<Rightarrow> string"

definition envOr :: "environment \<Rightarrow> string \<Rightarrow> string \<Rightarrow> string" where
  "envOr env k def = (if env k \<noteq> '''' then env k else def)"

definition Logger_level :: "environment \<Rightarrow> log_level" where
  "Logger_level env = (if env ''LOG_LEVEL'' = ''debug'' then LevelDebug else LevelInfo)"

text \<open>The records a service's logger emits: those at or above its level.\<close>

definition log_enabled :: "environment \<Rightarrow> log_level \<Rightarrow> bool" where
  "log_enabled env l \<longleftrightarrow> Logger_level env \<le> l"

record Health =
  ready :: bool
  live :: bool

definition NewHealth :: Health where
  "NewHealth = \<lparr>ready = False, live = True\<rparr>"

definition Ready :: "Health \<Rightarrow> Health" where "Ready h = h\<lparr>ready := True\<rparr>"
definition NotReady :: "Health \<Rightarrow> Health" where "NotReady h = h\<lparr>ready := False\<rparr>"
definition Down :: "Health \<Rightarrow> Health" where "Down h = h\<lparr>live := False\<rparr>"

section \<open>The probe mux and Serve\<close>

datatype obs_handler = OMetrics | OHealthz | OReadyz

definition obs_routes :: "(string \<times> obs_handler) list" where
  "obs_routes = [(''/metrics'', OMetrics), (''/healthz'', OHealthz), (''/readyz'', OReadyz)]"

definition Mux :: "(pattern \<times> obs_handler) list option" where
  "Mux = handle_all obs_routes []"

definition serve_obs :: "wcall list \<Rightarrow> Health \<Rightarrow> obs_handler \<Rightarrow> wcall list" where
  "serve_obs metrics h x = (case x of
     OMetrics \<Rightarrow> metrics
   | OHealthz \<Rightarrow> if live h then [WriteHeader StatusOK, Write ''ok'']
                 else [WriteHeader StatusServiceUnavailable]
   | OReadyz \<Rightarrow> if ready h then [WriteHeader StatusOK, Write ''ready'']
                else [WriteHeader StatusServiceUnavailable])"

definition Serve :: "serving \<Rightarrow> serving_event \<Rightarrow> serving \<Rightarrow> bool" where
  "Serve = serve_step ''http server listening'' ''http server shutting down''"

section \<open>RED metrics\<close>

record statusRecorder =
  rec_code :: int
  wroteHeader :: bool

fun record_call :: "wcall \<Rightarrow> statusRecorder \<Rightarrow> statusRecorder" where
  "record_call (WriteHeader c) r =
    (if wroteHeader r then r else r\<lparr>rec_code := c, wroteHeader := True\<rparr>)"
| "record_call _ r = r"

definition recorded_code :: "wcall list \<Rightarrow> int" where
  "recorded_code ops = rec_code (fold record_call ops \<lparr>rec_code = StatusOK, wroteHeader = False\<rparr>)"

text \<open>The two vectors, by their labels \<open>(handler, method, code)\<close>: how many requests were
  counted and which durations were observed.\<close>

type_synonym red_labels = "string \<times> string \<times> string"

record HTTPMetrics =
  requests_total :: "red_labels \<Rightarrow> nat"
  durations :: "red_labels \<Rightarrow> duration list"

definition NewHTTPMetrics :: HTTPMetrics where
  "NewHTTPMetrics = \<lparr>requests_total = (\<lambda>_. 0), durations = (\<lambda>_. [])\<rparr>"

definition Wrap :: "string \<Rightarrow> string \<Rightarrow> duration \<Rightarrow> wcall list \<Rightarrow> HTTPMetrics \<Rightarrow> wcall list \<times> HTTPMetrics" where
  "Wrap handler method elapsed ops m =
    (let ls = (handler, method, Itoa (recorded_code ops))
     in (ops, m\<lparr>requests_total := (requests_total m)(ls := requests_total m ls + 1),
                durations := (durations m)(ls := durations m ls @ [elapsed])\<rparr>))"

section \<open>Tracing\<close>

definition stripScheme :: "string \<Rightarrow> string" where
  "stripScheme ep =
    (case List.find (\<lambda>p. length p < length ep \<and> take (length p) ep = p)
            [''http://'', ''https://'', ''grpc://''] of
       Some p \<Rightarrow> drop (length p) ep
     | None \<Rightarrow> ep)"

text \<open>A float64: not a number, an infinity, or a finite value.\<close>

datatype float64 = NaN | PosInf | NegInf | Fin rat

definition float_le_0 :: "float64 \<Rightarrow> bool" where
  "float_le_0 r = (case r of Fin q \<Rightarrow> q \<le> 0 | NegInf \<Rightarrow> True | _ \<Rightarrow> False)"

definition float_gt_1 :: "float64 \<Rightarrow> bool" where
  "float_gt_1 r = (case r of Fin q \<Rightarrow> 1 < q | PosInf \<Rightarrow> True | _ \<Rightarrow> False)"

definition samplingRatio :: "(string \<Rightarrow> float64 option) \<Rightarrow> environment \<Rightarrow> float64" where
  "samplingRatio sscanf env =
    (let v = env ''OTEL_TRACES_SAMPLER_ARG''
     in if v = '''' then Fin 1
        else case sscanf v of
               None \<Rightarrow> Fin 1
             | Some r \<Rightarrow> if float_le_0 r then Fin 1 else if float_gt_1 r then Fin 1 else r)"

text \<open>The SDK's provider: without exporter, or one exporting to an endpoint with a sampling
  ratio. The state of the package \<open>otel\<close>: the propagators, none of them before the first call, and the provider with
  the service and version it reports. \<open>InitTracing\<close> sets both; its two calls that can fail are
  parameters, and the propagators stay set where the second one fails.\<close>

datatype tracing = NoExporter | Exporter string float64

datatype tracing_error = ResourceError string | ExporterError string

datatype propagator = TraceContext | Baggage

record otel =
  text_map :: "propagator list"
  provider :: "(string \<times> string \<times> tracing) option"

definition otel_initial :: otel where
  "otel_initial = \<lparr>text_map = [], provider = None\<rparr>"

definition InitTracing :: "string option \<Rightarrow> (string \<Rightarrow> string option) \<Rightarrow>
    (string \<Rightarrow> float64 option) \<Rightarrow> environment \<Rightarrow> string \<Rightarrow> string \<Rightarrow> otel \<Rightarrow> (tracing_error + tracing) \<times> otel" where
  "InitTracing new_resource new_exporter sscanf env service version g = (case new_resource of
     Some e \<Rightarrow> (Inl (ResourceError e), g)
   | None \<Rightarrow>
      (let g1 = g\<lparr>text_map := [TraceContext, Baggage]\<rparr>;
           endpoint = env ''OTEL_EXPORTER_OTLP_ENDPOINT''
       in if endpoint = '''' then (Inr NoExporter, g1\<lparr>provider := Some (service, version, NoExporter)\<rparr>)
          else case new_exporter (stripScheme endpoint) of
                 Some e \<Rightarrow> (Inl (ExporterError e), g1)
               | None \<Rightarrow>
                  (let tp = Exporter (stripScheme endpoint) (samplingRatio sscanf env)
                   in (Inr tp, g1\<lparr>provider := Some (service, version, tp)\<rparr>))))"

section \<open>Lemmas\<close>

lemma log_enabled_levels:
  "log_enabled env LevelInfo" "log_enabled env LevelError"
  "log_enabled env LevelDebug \<longleftrightarrow> env ''LOG_LEVEL'' = ''debug''"
  by (simp_all add: log_enabled_def Logger_level_def less_eq_log_level_def level_rank_def)

lemma obs_mux_eq: "Mux = Some [(\<lparr>pmethod = '''', segments = [Lit ''metrics'']\<rparr>, OMetrics),
    (\<lparr>pmethod = '''', segments = [Lit ''healthz'']\<rparr>, OHealthz),
    (\<lparr>pmethod = '''', segments = [Lit ''readyz'']\<rparr>, OReadyz)]"
  by code_simp

lemma obs_route:
  assumes "Mux = Some mux"
  shows "route mux m (CHR ''/'' # p) =
    (if p = ''metrics'' then Routed OMetrics else if p = ''healthz'' then Routed OHealthz
     else if p = ''readyz'' then Routed OReadyz else PageNotFound)"
proof -
  have mux: "mux = [(\<lparr>pmethod = '''', segments = [Lit ''metrics'']\<rparr>, OMetrics),
      (\<lparr>pmethod = '''', segments = [Lit ''healthz'']\<rparr>, OHealthz),
      (\<lparr>pmethod = '''', segments = [Lit ''readyz'']\<rparr>, OReadyz)]"
    using assms obs_mux_eq by (metis option.inject)
  obtain xs where xs: "split_path (CHR ''/'' # p) = xs" by blast
  have split: "xs = [''metrics''] \<longleftrightarrow> p = ''metrics''" "xs = [''healthz''] \<longleftrightarrow> p = ''healthz''"
    "xs = [''readyz''] \<longleftrightarrow> p = ''readyz''"
    unfolding xs [symmetric] by (simp_all add: split_path_one)
  consider "p = ''metrics''" | "p = ''healthz''" | "p = ''readyz''"
    | "p \<noteq> ''metrics''" "p \<noteq> ''healthz''" "p \<noteq> ''readyz''" by blast
  then show ?thesis
    unfolding mux by cases (simp_all add: xs route_defs split split_path_one)
qed

text \<open>A sequence of writer calls that the status recorder labels correctly: no informational
  header, and no header after the first write.\<close>

fun headers_before_writes :: "wcall list \<Rightarrow> bool" where
  "headers_before_writes [] \<longleftrightarrow> True"
| "headers_before_writes (WriteHeader c # ops) \<longleftrightarrow> \<not> informational c"
| "headers_before_writes (Write s # ops) \<longleftrightarrow> list_all (\<lambda>op. \<forall>c. op \<noteq> WriteHeader c) ops"
| "headers_before_writes (op # ops) \<longleftrightarrow> headers_before_writes ops"

lemma rec_code_kept: "wroteHeader r \<Longrightarrow> fold record_call ops r = r"
proof (induction ops)
  case (Cons op ops)
  then show ?case by (cases op) simp_all
qed simp

lemma rec_code_no_header: "list_all (\<lambda>op. \<forall>c. op \<noteq> WriteHeader c) ops \<Longrightarrow> fold record_call ops r = r"
proof (induction ops)
  case (Cons op ops)
  then show ?case by (cases op) simp_all
qed simp

lemma recorded_code_sent:
  assumes "headers_before_writes ops" "status r = None"
  shows "status (send_header 200 (fold write_op ops r)) = Some (recorded_code ops)"
  using assms
proof (induction ops arbitrary: r rule: headers_before_writes.induct)
  case (2 c ops)
  then show ?case
    by (simp add: recorded_code_def rec_code_kept status_send_header
        status_kept [of "send_header c r" c])
next
  case (3 s ops)
  then show ?case
    by (simp add: recorded_code_def rec_code_no_header status_send_header informational_def Let_def
        status_kept [of _ 200])
qed (auto simp: recorded_code_def status_send_header informational_def)

lemma stripScheme_prefix:
  "p \<in> {''http://'', ''https://'', ''grpc://''} \<Longrightarrow> rest \<noteq> '''' \<Longrightarrow> stripScheme (p @ rest) = rest"
  by (auto simp: stripScheme_def)

lemma stripScheme_other:
  assumes "\<And>p rest. p \<in> {''http://'', ''https://'', ''grpc://''} \<Longrightarrow> rest \<noteq> '''' \<Longrightarrow> ep \<noteq> p @ rest"
  shows "stripScheme ep = ep"
proof -
  have "\<not> (length p < length ep \<and> take (length p) ep = p)"
    if "p \<in> {''http://'', ''https://'', ''grpc://''}" for p
    using assms [OF that, of "drop (length p) ep"] by (metis append_take_drop_id drop_eq_Nil not_le)
  then have "List.find (\<lambda>p. length p < length ep \<and> take (length p) ep = p)
      [''http://'', ''https://'', ''grpc://''] = None"
    unfolding find_None_iff by auto
  then show ?thesis by (simp only: stripScheme_def option.case)
qed

lemma recorded_code_is: "headers_before_writes ops \<Longrightarrow> recorded_code ops = code ops"
  using recorded_code_sent [of ops new_response] status_respond [of ops]
  by (simp add: respond_def new_response_def)

lemma wrap_label:
  assumes "headers_before_writes ops"
  shows "requests_total (snd (Wrap handler method elapsed ops m)) (handler, method, Itoa c) =
     requests_total m (handler, method, Itoa c) + (if c = code ops then 1 else 0)"
  using recorded_code_is [OF assms] by (simp add: Wrap_def Let_def Itoa_inj)

text \<open>
  The RED middleware is transparent and counts each request exactly once. The client gets
  the calls of the wrapped handler unchanged; exactly one counter, the one labelled with the
  route, the method and the recorded code, grows by one, and exactly one duration is observed.
\<close>

lemma Wrap_counts_once:
  "fst (Wrap handler method elapsed ops m) = ops
   \<and> requests_total (snd (Wrap handler method elapsed ops m)) ls = requests_total m ls +
       (if ls = (handler, method, Itoa (recorded_code ops)) then 1 else 0)
   \<and> durations (snd (Wrap handler method elapsed ops m)) ls = durations m ls @
       (if ls = (handler, method, Itoa (recorded_code ops)) then [elapsed] else [])"
  by (simp add: Wrap_def Let_def)

text \<open>
  \<open>stripScheme\<close> removes exactly one of the three known schemes, and only when something
  follows it; every other endpoint is kept as it is.
\<close>

lemma stripScheme_spec:
  "(\<exists>p \<in> {''http://'', ''https://'', ''grpc://''}. ep = p @ stripScheme ep \<and> stripScheme ep \<noteq> '''')
   \<or> stripScheme ep = ep
     \<and> (\<nexists>p rest. p \<in> {''http://'', ''https://'', ''grpc://''} \<and> rest \<noteq> '''' \<and> ep = p @ rest)"
proof (cases "\<exists>p rest. p \<in> {''http://'', ''https://'', ''grpc://''} \<and> rest \<noteq> '''' \<and> ep = p @ rest")
  case True
  then obtain p rest where p: "p \<in> {''http://'', ''https://'', ''grpc://''}" "rest \<noteq> ''''" "ep = p @ rest"
    by blast
  then show ?thesis using stripScheme_prefix [OF p(1,2)] by metis
next
  case False
  then show ?thesis using stripScheme_other by metis
qed

section \<open>Properties\<close>

text \<open>
  The probes. The three registrations of \<open>Mux\<close> do not conflict; for every method,
  \<open>/healthz\<close> answers 200 exactly while the process is live and \<open>/readyz\<close> 200 exactly while it is
  ready, both 503 otherwise, and any path but the three is answered 404. A new \<open>Health\<close> is
  live and not ready, \<open>Ready\<close> and \<open>NotReady\<close> only move the readiness answer and \<open>Down\<close> only the
  liveness answer.
\<close>

theorem Mux_probes:
  "\<exists>mux. Mux = Some mux
   \<and> code (serve_mux (serve_obs metrics h) (route mux m ''/healthz'')) =
       (if live h then StatusOK else StatusServiceUnavailable)
   \<and> code (serve_mux (serve_obs metrics h) (route mux m ''/readyz'')) =
       (if ready h then StatusOK else StatusServiceUnavailable)
   \<and> serve_mux (serve_obs metrics h) (route mux m ''/metrics'') = metrics
   \<and> (p \<in> {''metrics'', ''healthz'', ''readyz''}
       \<or> code (serve_mux (serve_obs metrics h) (route mux m (CHR ''/'' # p))) = 404)
   \<and> (live NewHealth, ready NewHealth) = (True, False)
   \<and> (live (Ready h), ready (Ready h)) = (live h, True)
   \<and> (live (NotReady h), ready (NotReady h)) = (live h, False)
   \<and> (live (Down h), ready (Down h)) = (False, ready h)"
proof -
  obtain mux where mux: "Mux = Some mux" using obs_mux_eq by blast
  have ok: "code [WriteHeader 200, Write s] = 200" for s
    by (simp add: code_def respond_def new_response_def status_send_header informational_def Let_def)
  show ?thesis
    using mux by (intro exI [of _ mux])
      (auto simp: obs_route serve_mux_def serve_obs_def ok informational_def NewHealth_def
        Ready_def NotReady_def Down_def)
qed

text \<open>
  The code label is the status on the wire. For a handler that sends no informational
  header and no header after its first write, the label under which the request is counted is
  the decimal text of the status the client received, and of no other status.
\<close>

theorem Wrap_label_is_status:
  assumes "headers_before_writes ops"
  shows "requests_total (snd (Wrap handler method elapsed ops m)) (handler, method, Itoa c) =
     requests_total m (handler, method, Itoa c) + (if c = code ops then 1 else 0)"
  using assms by (rule wrap_label)

theorem Wrap_label_is_status_witness:
  "requests_total (snd (Wrap ''post_orders'' ''POST'' 7 (http_Error ''invalid json'' 400) NewHTTPMetrics))
     (''post_orders'', ''POST'', Itoa 400) = 1"
proof -
  have "headers_before_writes (http_Error ''invalid json'' 400)"
    by (simp add: http_Error_def informational_def)
  from Wrap_label_is_status [OF this, of "''post_orders''" "''POST''" 7 NewHTTPMetrics 400]
  show ?thesis by (simp add: NewHTTPMetrics_def informational_def)
qed

text \<open>
  Where the label is wrong. A handler that writes a body and then calls \<open>WriteHeader\<close> is
  counted under the code of that late call, although the client received 200.
\<close>

theorem Wrap_late_header_mislabelled:
  "code [Write s, WriteHeader 500] = 200
   \<and> requests_total (snd (Wrap handler method elapsed [Write s, WriteHeader 500] NewHTTPMetrics))
       (handler, method, Itoa 500) = 1
   \<and> requests_total (snd (Wrap handler method elapsed [Write s, WriteHeader 500] NewHTTPMetrics))
       (handler, method, Itoa 200) = 0"
proof -
  have "Itoa 200 \<noteq> Itoa 500" using Itoa_inj [of 200 500] by auto
  moreover have "code [Write s, WriteHeader 500] = 200"
    by (simp add: code_def respond_def new_response_def status_send_header informational_def Let_def)
  ultimately show ?thesis
    by (simp add: Wrap_def Let_def recorded_code_def NewHTTPMetrics_def)
qed

text \<open>
  Tracing set-up. Without an endpoint no exporter is created, whatever else is set; with
  one, the exporter gets the endpoint with its scheme removed, and the sampling ratio is 1 or a
  parsed value above 0 and at most 1, or not a number, which happens exactly when the
  variable's text parses to NaN. Set-up fails only where one of its two calls fails.
\<close>

theorem InitTracing_result:
  "case fst (InitTracing new_resource new_exporter sscanf env service version g) of
     Inl (ResourceError e) \<Rightarrow> new_resource = Some e
   | Inl (ExporterError e) \<Rightarrow> env ''OTEL_EXPORTER_OTLP_ENDPOINT'' \<noteq> ''''
       \<and> new_exporter (stripScheme (env ''OTEL_EXPORTER_OTLP_ENDPOINT'')) = Some e
   | Inr NoExporter \<Rightarrow> env ''OTEL_EXPORTER_OTLP_ENDPOINT'' = ''''
   | Inr (Exporter ep r) \<Rightarrow> ep = stripScheme (env ''OTEL_EXPORTER_OTLP_ENDPOINT'')
       \<and> (r = NaN \<longleftrightarrow> env ''OTEL_TRACES_SAMPLER_ARG'' \<noteq> ''''
            \<and> sscanf (env ''OTEL_TRACES_SAMPLER_ARG'') = Some NaN)
       \<and> (r = NaN \<or> (\<exists>q. r = Fin q \<and> 0 < q \<and> q \<le> 1
            \<and> (q = 1 \<or> sscanf (env ''OTEL_TRACES_SAMPLER_ARG'') = Some (Fin q))))"
  by (auto simp: InitTracing_def samplingRatio_def Let_def float_le_0_def float_gt_1_def
      split: option.splits float64.splits)

end
