(* ===== verification/Service_Lifecycle.thy ===== *)
theory Service_Lifecycle
  imports Obs
begin

text \<open>
  Start-up and shutdown of the gRPC services. The \<open>main\<close> functions of \<open>payments-svc\<close> and
  \<open>inventory-svc\<close> have the same shape: a sequence of set-up calls that can each end the
  process, then two goroutines (the gRPC server, which marks the process ready, and the probe
  server) beside the main goroutine, which waits for the context, marks the process not ready
  and stops. \<open>startup\<close> is the outcome of the set-up, and the state machine \<open>life_step\<close>
  interleaves the three goroutines. The gRPC library is left open: \<open>Serve\<close> may return at any time,
  with or without an error, and \<open>GracefulStop\<close> may return at any time or never, so that what is shown
  holds of every server. The lemmas show that liveness never drops, that readiness
  is reported only once the server was started, and that it stays withdrawn after shutdown
  began, unless the start of the gRPC goroutine was delayed past it.
\<close>

datatype 'a startup = Exit nat "log_record list" | Panic string | Started 'a

section \<open>The machine\<close>

datatype grpc_state = GStart | GServing | GDone
datatype main_state = MWait | MStopping | MExited

record life =
  health :: Health
  ctx_done :: bool
  grpc_pc :: grpc_state
  probes_up :: bool
  main_pc :: main_state
  life_logs :: "log_record list"

definition life_init :: life where
  "life_init = \<lparr>health = NewHealth, ctx_done = False, grpc_pc = GStart, probes_up = True,
     main_pc = MWait, life_logs = []\<rparr>"

definition life_log :: "log_level \<Rightarrow> string \<Rightarrow> life \<Rightarrow> life" where
  "life_log l m s = s\<lparr>life_logs := life_logs s @ [(l, m)]\<rparr>"

datatype life_event =
  EvSignal
| EvGrpcReady
| EvGrpcFailed
| EvGrpcStopped
| EvProbesEnded "net_error option"
| EvShutdown
| EvExit

text \<open>
  The first signal cancels the context; later ones change nothing and are left out. Nothing happens
  once the main goroutine has returned: the process is gone.
\<close>

inductive life_step :: "life \<Rightarrow> life_event \<Rightarrow> life \<Rightarrow> bool" where
  signal: "\<not> ctx_done s \<Longrightarrow> main_pc s \<noteq> MExited \<Longrightarrow> life_step s EvSignal (s\<lparr>ctx_done := True\<rparr>)"
| grpc_ready: "grpc_pc s = GStart \<Longrightarrow> main_pc s \<noteq> MExited \<Longrightarrow> life_step s EvGrpcReady
    ((life_log LevelInfo ''grpc listening'' s)\<lparr>health := Ready (health s), grpc_pc := GServing\<rparr>)"
| grpc_failed: "grpc_pc s = GServing \<Longrightarrow> main_pc s \<noteq> MExited \<Longrightarrow> life_step s EvGrpcFailed
    ((life_log LevelError ''grpc serve'' s)\<lparr>ctx_done := True, grpc_pc := GDone\<rparr>)"
| grpc_stopped: "grpc_pc s = GServing \<Longrightarrow> main_pc s \<noteq> MExited \<Longrightarrow>
    life_step s EvGrpcStopped (s\<lparr>grpc_pc := GDone\<rparr>)"
| probes_ended: "probes_up s \<Longrightarrow> main_pc s \<noteq> MExited \<Longrightarrow> life_step s (EvProbesEnded err)
    ((case err of Some _ \<Rightarrow> life_log LevelError ''http serve'' s | None \<Rightarrow> s)\<lparr>probes_up := False\<rparr>)"
| shutdown: "main_pc s = MWait \<Longrightarrow> ctx_done s \<Longrightarrow> life_step s EvShutdown
    ((life_log LevelInfo ''shutting down'' s)\<lparr>health := NotReady (health s), main_pc := MStopping\<rparr>)"
| exited: "main_pc s = MStopping \<Longrightarrow> life_step s EvExit (s\<lparr>main_pc := MExited\<rparr>)"

inductive_cases life_stepE: "life_step s e s'"
inductive_simps life_step_shutdown: "life_step s EvShutdown s'"
inductive_simps life_step_signal: "life_step s EvSignal s'"
inductive_simps life_step_ready: "life_step s EvGrpcReady s'"

lemma life_log_sel [simp]:
  "health (life_log l m s) = health s" "ctx_done (life_log l m s) = ctx_done s"
  "grpc_pc (life_log l m s) = grpc_pc s" "main_pc (life_log l m s) = main_pc s"
  "probes_up (life_log l m s) = probes_up s"
  by (simp_all add: life_log_def)

interpretation life: machine "\<lambda>s. s = life_init" life_step .

section \<open>Lemmas\<close>

lemmas health_defs = NewHealth_def Ready_def NotReady_def Down_def

lemma life_live: "life.reachable s \<Longrightarrow> live (health s)"
  by (erule life.reachable_invariant)
    (auto simp: life_init_def health_defs elim!: life_stepE split: option.splits)

lemma life_ready_started: "life.reachable s \<Longrightarrow> ready (health s) \<Longrightarrow> grpc_pc s \<noteq> GStart"
proof -
  assume "life.reachable s"
  then have "ready (health s) \<longrightarrow> grpc_pc s \<noteq> GStart"
    by (rule life.reachable_invariant)
      (auto simp: life_init_def health_defs elim!: life_stepE split: option.splits)
  then show "ready (health s) \<Longrightarrow> grpc_pc s \<noteq> GStart" by blast
qed

lemma life_stops_done: "life.reachable s \<Longrightarrow> main_pc s \<noteq> MWait \<longrightarrow> ctx_done s"
  by (erule life.reachable_invariant) (auto simp: life_init_def elim!: life_stepE split: option.splits)

text \<open>Once the gRPC goroutine has run and shutdown has begun, readiness stays withdrawn.\<close>

lemma life_not_ready_kept:
  assumes "life.run s es t" "grpc_pc s \<noteq> GStart" "main_pc s \<noteq> MWait" "\<not> ready (health s)"
  shows "grpc_pc t \<noteq> GStart \<and> main_pc t \<noteq> MWait \<and> \<not> ready (health t)"
  using assms(1)
  by (rule life.run_invariant) (use assms in \<open>auto elim!: life_stepE split: option.splits\<close>)

section \<open>Properties\<close>

text \<open>
  The probes over the life of a gRPC service, in every interleaving of its goroutines and
  whatever the gRPC library does. The liveness flag is never dropped; the process reports ready only
  after the gRPC goroutine has started; it stops only after a signal or a failure of the server; and
  once shutdown has begun after the goroutine started, it reports not ready for the rest of its life.
\<close>

lemma life_probes:
  assumes "life.reachable s"
  shows "live (health s) \<and> (ready (health s) \<longrightarrow> grpc_pc s \<noteq> GStart)
    \<and> (main_pc s \<noteq> MWait \<longrightarrow> ctx_done s)
    \<and> (\<forall>s1 es t. life_step s EvShutdown s1 \<and> grpc_pc s \<noteq> GStart \<and> life.run s1 es t \<longrightarrow>
         \<not> ready (health t))"
proof -
  have "\<not> ready (health t)"
    if "life_step s EvShutdown s1" "grpc_pc s \<noteq> GStart" "life.run s1 es t" for s1 es t
    using life_not_ready_kept [OF that(3)] that(1,2)
    by (auto simp: life_step_shutdown health_defs)
  then show ?thesis
    using life_live [OF assms] life_ready_started [OF assms] life_stops_done [OF assms] by blast
qed

lemma life_probes_witness:
  "\<exists>s s1. life.reachable s \<and> ready (health s) \<and> life_step s EvShutdown s1 \<and> \<not> ready (health s1)"
proof -
  let ?g = "(life_log LevelInfo ''grpc listening'' life_init)\<lparr>health := Ready (health life_init),
    grpc_pc := GServing\<rparr>"
  let ?s = "?g\<lparr>ctx_done := True\<rparr>"
  let ?s1 = "(life_log LevelInfo ''shutting down'' ?s)\<lparr>health := NotReady (health ?s), main_pc := MStopping\<rparr>"
  have "life_step life_init EvGrpcReady ?g" by (simp add: life_step_ready life_init_def)
  moreover have "life_step ?g EvSignal ?s" by (simp add: life_step_signal life_init_def)
  ultimately have r: "life.reachable ?s"
    using life.reachable_init [of life_init] life.reachable_step by blast
  have st: "life_step ?s EvShutdown ?s1" by (simp add: life_step_shutdown life_init_def)
  have "\<not> ready (health ?s1)"
    using life_probes [OF r, THEN conjunct2, THEN conjunct2, THEN conjunct2, rule_format, of ?s1 "[]" ?s1] st by simp
  moreover have "ready (health ?s)" by (simp add: health_defs)
  ultimately show ?thesis using r st by blast
qed

text \<open>
  Readiness can outlive the start of shutdown. Because the process is marked ready inside
  the gRPC goroutine, a signal that arrives before that goroutine runs leads to a reachable
  state in which the main goroutine is stopping and \<open>/readyz\<close> reports ready.
\<close>

theorem life_late_ready:
  "\<exists>s. life.reachable s \<and> main_pc s = MStopping \<and> ready (health s)"
proof -
  let ?s1 = "life_init\<lparr>ctx_done := True\<rparr>"
  let ?s2 = "(life_log LevelInfo ''shutting down'' ?s1)\<lparr>health := NotReady (health ?s1), main_pc := MStopping\<rparr>"
  let ?s3 = "(life_log LevelInfo ''grpc listening'' ?s2)\<lparr>health := Ready (health ?s2), grpc_pc := GServing\<rparr>"
  have "life_step life_init EvSignal ?s1" by (simp add: life_step_signal life_init_def)
  then have "life.reachable ?s1"
    using life.reachable_step [OF life.reachable_init] by blast
  moreover have "life_step ?s1 EvShutdown ?s2" by (simp add: life_step_shutdown life_init_def)
  moreover have "life_step ?s2 EvGrpcReady ?s3" by (simp add: life_step_ready life_init_def)
  ultimately have "life.reachable ?s3" using life.reachable_step by blast
  moreover have "main_pc ?s3 = MStopping \<and> ready (health ?s3)" by (simp add: health_defs)
  ultimately show ?thesis by blast
qed

end
