(* ===== verification/Inventory_Svc.thy ===== *)
theory Inventory_Svc
  imports Proto Service_Lifecycle
begin

text \<open>
  The inventory service (\<open>services/inventory-svc\<close>): a map of reservations behind a mutex, so that
  concurrent calls are sequences of whole operations. Identifiers drawn by \<open>uuid.NewString\<close>
  are arguments. The locale \<open>reservation_store\<close> states what a client of the store relies on;
  its lemmas show that reservations are conserved: each one is released at most once, and
  those not released are still held.
\<close>

section \<open>Model\<close>

type_synonym items = "LineItem option list"

record inventory_server =
  store :: "string \<rightharpoonup> items"

definition new_inventory :: inventory_server where
  "new_inventory = \<lparr>store = (\<lambda>_. None)\<rparr>"

definition Reserve :: "string \<Rightarrow> (ReserveRequest, ReserveResponse, inventory_server) rpc_method" where
  "Reserve uuid req s =
    ((Some \<lparr>reserve_ReservationId = uuid, reserve_Status = ReserveResponse_STATUS_OK\<rparr>, None),
     s\<lparr>store := (store s)(uuid \<mapsto> ReserveRequest_GetItems req)\<rparr>)"

definition Release :: "(ReleaseRequest, ReleaseResponse, inventory_server) rpc_method" where
  "Release req s =
    (let ok = (store s (ReleaseRequest_GetReservationId req) \<noteq> None);
         s1 = s\<lparr>store := (store s)(ReleaseRequest_GetReservationId req := None)\<rparr>
     in ((Some \<lparr>release_Released = ok\<rparr>, None), s1))"

text \<open>The two calls as a client of the store sees them.\<close>

definition inv_reserve :: "string \<Rightarrow> items \<Rightarrow> inventory_server \<Rightarrow> inventory_server" where
  "inv_reserve uuid its s = snd (Reserve uuid (Some \<lparr>reserve_OrderId = '''', reserve_Items = its\<rparr>) s)"

definition inv_release :: "string \<Rightarrow> inventory_server \<Rightarrow> bool \<times> inventory_server" where
  "inv_release uuid s =
    (let (res, s1) = Release (Some \<lparr>release_ReservationId = uuid\<rparr>) s
     in (ReleaseResponse_GetReleased (fst res), s1))"

section \<open>Histories of a reservation store\<close>

datatype 'i store_op = ReserveOp string 'i | ReleaseOp string

fun run_store :: "(string \<Rightarrow> 'i \<Rightarrow> 's \<Rightarrow> 's) \<Rightarrow> (string \<Rightarrow> 's \<Rightarrow> bool \<times> 's) \<Rightarrow> 'i store_op list \<Rightarrow> 's \<Rightarrow>
    (string \<times> bool) list \<times> 's" where
  "run_store reserve release [] s = ([], s)"
| "run_store reserve release (ReserveOp uuid its # ops) s = run_store reserve release ops (reserve uuid its s)"
| "run_store reserve release (ReleaseOp uuid # ops) s =
    (let (ok, s1) = release uuid s; (as, s2) = run_store reserve release ops s1 in ((uuid, ok) # as, s2))"

fun reserved_ids :: "'i store_op list \<Rightarrow> string list" where
  "reserved_ids [] = []"
| "reserved_ids (ReserveOp uuid its # ops) = uuid # reserved_ids ops"
| "reserved_ids (ReleaseOp uuid # ops) = reserved_ids ops"

locale reservation_store =
  fixes reserve :: "string \<Rightarrow> 'i \<Rightarrow> 's \<Rightarrow> 's"
    and release :: "string \<Rightarrow> 's \<Rightarrow> bool \<times> 's"
    and held :: "'s \<Rightarrow> string \<rightharpoonup> 'i"
  assumes held_reserve: "held (reserve uuid its s) = (held s)(uuid \<mapsto> its)"
    and release_answer: "fst (release uuid s) \<longleftrightarrow> held s uuid \<noteq> None"
    and held_release: "held (snd (release uuid s)) = (held s)(uuid := None)"
begin

text \<open>With identifiers that are drawn once and not held before, every reservation is released
  exactly once or still held at the end.\<close>

lemma conserved:
  assumes "run_store reserve release ops s = (as, s')"
    and "distinct (reserved_ids ops)" "set (reserved_ids ops) \<inter> dom (held s) = {}"
  shows "count_list as (uuid, True) + (if uuid \<in> dom (held s') then 1 else 0) =
    count_list (reserved_ids ops) uuid + (if uuid \<in> dom (held s) then 1 else (0::nat))"
  using assms
proof (induction ops arbitrary: s as)
  case Nil
  then show ?case by simp
next
  case (Cons op ops)
  show ?case
  proof (cases op)
    case (ReserveOp u its)
    have "set (reserved_ids ops) \<inter> dom (held (reserve u its s)) = {}"
      using Cons.prems(2,3) by (auto simp: ReserveOp held_reserve)
    from Cons.IH [OF _ _ this, of as] Cons.prems show ?thesis
      by (auto simp: ReserveOp held_reserve split: if_splits)
  next
    case (ReleaseOp u)
    obtain ok s1 where r: "release u s = (ok, s1)" by (cases "release u s")
    obtain as1 where l: "run_store reserve release ops s1 = (as1, s')" "as = (u, ok) # as1"
      using Cons.prems(1) r by (auto simp: ReleaseOp split: prod.splits)
    have h: "held s1 = (held s)(u := None)" "ok \<longleftrightarrow> u \<in> dom (held s)"
      using held_release [of u s] release_answer [of u s] r by auto
    have "set (reserved_ids ops) \<inter> dom (held s1) = {}"
      using Cons.prems(3) by (auto simp: ReleaseOp h)
    from Cons.IH [OF l(1) _ this] Cons.prems(2) show ?thesis
      by (auto simp: ReleaseOp h l(2) split: if_splits)
  qed
qed

lemma held_items:
  assumes "run_store reserve release ops s = (as, s')" "held s' uuid = Some its"
  shows "held s uuid = Some its \<or> ReserveOp uuid its \<in> set ops"
  using assms
proof (induction ops arbitrary: s as)
  case (Cons op ops)
  show ?case
  proof (cases op)
    case (ReserveOp u its')
    with Cons.IH [of "reserve u its' s" as] Cons.prems show ?thesis
      by (auto simp: held_reserve split: if_splits)
  next
    case (ReleaseOp u)
    obtain ok s1 where r: "release u s = (ok, s1)" by (cases "release u s")
    obtain as1 where "run_store reserve release ops s1 = (as1, s')"
      using Cons.prems(1) r by (auto simp: ReleaseOp split: prod.splits)
    from Cons.IH [OF this Cons.prems(2)] show ?thesis
      using held_release [of u s] r by (auto simp: ReleaseOp split: if_splits)
  qed
qed simp

end

interpretation inv: reservation_store inv_reserve inv_release store
  by unfold_locales
    (simp_all add: inv_reserve_def inv_release_def Reserve_def Release_def getter_defs Let_def)

section \<open>Start-up\<close>

text \<open>The set-up calls of \<open>main\<close> that can fail; \<open>init_tracing\<close> is the error of \<open>InitTracing\<close>.\<close>

record inventory_env =
  inv_env :: environment
  inv_tracing :: "tracing_error option"
  inv_listen :: "string \<Rightarrow> string option"

text \<open>The address the gRPC server listens on, the address of the probes, the server's state, and
  the state in which the goroutines start.\<close>

definition inventory_main ::
    "inventory_env \<Rightarrow> (string \<times> string \<times> inventory_server \<times> life) startup" where
  "inventory_main e =
    (let grpcAddr = envOr (inv_env e) ''LISTEN_ADDR_GRPC'' '':9000'';
         httpAddr = envOr (inv_env e) ''LISTEN_ADDR_HTTP'' '':8080''
     in case inv_tracing e of
          Some _ \<Rightarrow> Exit 1 [(LevelError, ''init tracing'')]
        | None \<Rightarrow>
       (case inv_listen e grpcAddr of
          Some _ \<Rightarrow> Exit 1 [(LevelError, ''listen'')]
        | None \<Rightarrow> Started (grpcAddr, httpAddr, new_inventory, life_init)))"

text \<open>
  \<open>Reserve\<close> and \<open>Release\<close> on every input, a nil request included. \<open>Reserve\<close> never fails
  and always answers \<open>STATUS_OK\<close> with the new identifier, under which it stores the request's
  items; it never reports that stock ran out. \<open>Release\<close> answers whether the identifier was
  held, removes exactly it, and releasing twice answers false the second time.
\<close>

lemma inventory_calls:
  "(\<exists>resp. fst (Reserve uuid req s) = (Some resp, None)
     \<and> ReserveResponse_GetStatus (Some resp) = ReserveResponse_STATUS_OK
     \<and> ReserveResponse_GetReservationId (Some resp) = uuid)
   \<and> store (snd (Reserve uuid req s)) = (store s)(uuid \<mapsto> ReserveRequest_GetItems req)
   \<and> (\<exists>resp. fst (Release rel s) = (Some resp, None)
     \<and> (ReleaseResponse_GetReleased (Some resp) \<longleftrightarrow>
          ReleaseRequest_GetReservationId rel \<in> dom (store s)))
   \<and> store (snd (Release rel s)) = (store s)(ReleaseRequest_GetReservationId rel := None)
   \<and> fst (Release rel (snd (Release rel s))) = (Some \<lparr>release_Released = False\<rparr>, None)"
  by (auto simp: Reserve_def Release_def Let_def getter_defs)

section \<open>Properties\<close>

text \<open>
  Reservations are conserved. In any sequence of calls to the inventory service, in which
  the drawn identifiers are new, each reservation is answered \<open>Released: true\<close> exactly once
  or is still in the store at the end, never both, and no other identifier is ever answered
  true; what the store holds under an identifier is what was reserved under it.
\<close>

theorem reservations_conserved:
  assumes "run_store inv_reserve inv_release ops new_inventory = (as, s')"
    and "distinct (reserved_ids ops)"
  shows "count_list as (uuid, True) + (if uuid \<in> dom (store s') then 1 else 0) =
      (if uuid \<in> set (reserved_ids ops) then 1 else (0::nat))
    \<and> (\<forall>its. store s' uuid = Some its \<longrightarrow> ReserveOp uuid its \<in> set ops)"
proof -
  have "count_list (reserved_ids ops) uuid = (if uuid \<in> set (reserved_ids ops) then 1 else 0)"
    using assms(2) by (rule count_list_distinct)
  moreover have "count_list as (uuid, True) + (if uuid \<in> dom (store s') then 1 else 0) =
      count_list (reserved_ids ops) uuid"
    using inv.conserved [OF assms] by (simp add: new_inventory_def)
  ultimately show ?thesis
    using inv.held_items [OF assms(1)] by (auto simp: new_inventory_def)
qed

theorem reservations_conserved_witness:
  "count_list [(''r1'', True), (''r1'', False)] (''r1'', True) + 0 = (1::nat)
   \<and> fst (run_store inv_reserve inv_release
       [ReserveOp ''r1'' [], ReserveOp ''r2'' [], ReleaseOp ''r1'', ReleaseOp ''r1''] new_inventory) =
     [(''r1'', True), (''r1'', False)]"
proof -
  let ?ops = "[ReserveOp ''r1'' [], ReserveOp ''r2'' [], ReleaseOp ''r1'', ReleaseOp ''r1'']"
  let ?s = "\<lparr>store = [''r2'' \<mapsto> []]\<rparr>"
  have run: "run_store inv_reserve inv_release ?ops new_inventory =
      ([(''r1'', True), (''r1'', False)], ?s)"
    by (auto simp: inv_reserve_def inv_release_def Reserve_def Release_def getter_defs Let_def
        new_inventory_def)
  from reservations_conserved [OF run, of "''r1''"] run show ?thesis by simp
qed

end
