(* ===== verification/Inventory_Locking.thy ===== *)
theory Inventory_Locking
  imports Mutex Inventory_Svc
begin

text \<open>
  The inventory's store under its mutex (\<open>services/inventory-svc/main.go\<close>): concurrent \<open>Reserve\<close> and
  \<open>Release\<close> calls at the granularity of single map operations. A \<open>Reserve\<close> writes once between \<open>Lock\<close>
  and \<open>Unlock\<close>, a \<open>Release\<close> looks the reservation up and deletes it. The calls that returned are
  proved to be a sequence of whole calls, so that reservations are conserved in every interleaving.
\<close>

section \<open>The critical sections\<close>

datatype inv_call = ReserveCall string "ReserveRequest option" | ReleaseCall "ReleaseRequest option"

type_synonym inv_reply = "ReserveResponse rpc_result + ReleaseResponse rpc_result"

datatype inv_pc = IvStart | IvLooked bool | IvDone inv_reply

inductive inv_work :: "inv_call \<Rightarrow> inv_pc \<Rightarrow> inventory_server \<Rightarrow> inv_pc \<Rightarrow> inventory_server \<Rightarrow> bool" where
  reserve: "inv_work (ReserveCall uuid req) IvStart s
    (IvDone (Inl (Some \<lparr>reserve_ReservationId = uuid, reserve_Status = ReserveResponse_STATUS_OK\<rparr>, None)))
    (s\<lparr>store := (store s)(uuid \<mapsto> ReserveRequest_GetItems req)\<rparr>)"
| look: "inv_work (ReleaseCall req) IvStart s (IvLooked (store s (ReleaseRequest_GetReservationId req) \<noteq> None)) s"
| delete: "inv_work (ReleaseCall req) (IvLooked ok) s (IvDone (Inr (Some \<lparr>release_Released = ok\<rparr>, None)))
    (s\<lparr>store := (store s)(ReleaseRequest_GetReservationId req := None)\<rparr>)"

inductive_cases inv_workE: "inv_work op l s l' s'"

fun inv_result :: "inv_pc \<Rightarrow> inv_reply option" where
  "inv_result (IvDone r) = Some r"
| "inv_result _ = None"

section \<open>Lemmas\<close>

fun whole_inv :: "inv_call \<Rightarrow> inventory_server \<Rightarrow> inv_reply \<times> inventory_server" where
  "whole_inv (ReserveCall uuid req) s = (let (res, s1) = Reserve uuid req s in (Inl res, s1))"
| "whole_inv (ReleaseCall req) s = (let (res, s1) = Release req s in (Inr res, s1))"

fun inv_during :: "inv_call \<Rightarrow> inventory_server \<Rightarrow> inv_pc \<Rightarrow> inventory_server \<Rightarrow> bool" where
  "inv_during op s0 IvStart s \<longleftrightarrow> s = s0"
| "inv_during op s0 (IvLooked ok) s \<longleftrightarrow> s = s0 \<and>
     (\<exists>req. op = ReleaseCall req \<and> (ok \<longleftrightarrow> store s0 (ReleaseRequest_GetReservationId req) \<noteq> None))"
| "inv_during op s0 (IvDone r) s \<longleftrightarrow> whole_inv op s0 = (r, s)"

fun inv_effort :: "inv_pc \<Rightarrow> nat" where
  "inv_effort IvStart = 2"
| "inv_effort (IvLooked ok) = 1"
| "inv_effort (IvDone r) = 0"

interpretation iv: guarded "\<lambda>_. None" "\<lambda>_. IvStart" inv_work inv_result whole_inv "\<lambda>_. True" inv_during
  "\<lambda>l _. inv_effort l"
proof unfold_locales
  fix op s0 l s l' s'
  assume "inv_during op s0 l s" "inv_work op l s l' s'"
  then show "inv_during op s0 l' s'" "inv_effort l' < inv_effort l"
    by (auto elim!: inv_workE simp: Reserve_def Release_def)
next
  fix op s0 l s
  assume "inv_during op s0 l s" "inv_result l = None"
  then show "\<exists>l' s'. inv_work op l s l' s'"
    by (cases l; cases op) (auto intro: inv_work.intros)
next
  fix op s0 l s r
  assume "inv_during op s0 l s" "inv_result l = Some r"
  then show "whole_inv op s0 = (r, s)" by (cases l) auto
qed auto

text \<open>The calls that returned as operations of the store, and the answers to the releases.\<close>

fun store_op_of :: "inv_call \<Rightarrow> items store_op" where
  "store_op_of (ReserveCall uuid req) = ReserveOp uuid (ReserveRequest_GetItems req)"
| "store_op_of (ReleaseCall req) = ReleaseOp (ReleaseRequest_GetReservationId req)"

fun release_answers :: "(nat \<times> inv_call \<times> inv_reply) list \<Rightarrow> (string \<times> bool) list" where
  "release_answers [] = []"
| "release_answers ((i, ReleaseCall req, Inr res) # cs) =
    (ReleaseRequest_GetReservationId req, ReleaseResponse_GetReleased (fst res)) # release_answers cs"
| "release_answers (c # cs) = release_answers cs"

lemma run_calls_store:
  "run_calls whole_inv cs s = Some s' \<Longrightarrow>
     run_store inv_reserve inv_release (map (\<lambda>(i, op, r). store_op_of op) cs) s = (release_answers cs, s')"
proof (induction cs arbitrary: s)
  case (Cons c cs)
  obtain i op r where c: "c = (i, op, r)" by (cases c)
  show ?case
  proof (cases op)
    case (ReserveCall uuid req)
    with Cons c show ?thesis
      by (auto simp: Reserve_def inv_reserve_def getter_defs split: if_splits)
  next
    case (ReleaseCall req)
    with Cons c show ?thesis
      by (auto simp: Release_def inv_release_def getter_defs split: if_splits option.splits)
  qed
qed simp


lemma store_op_reserve:
  "store_op_of op = ReserveOp uuid its \<longleftrightarrow> (\<exists>req. op = ReserveCall uuid req \<and> ReserveRequest_GetItems req = its)"
  by (cases op) auto

section \<open>Properties\<close>

text \<open>
  C39: reservations are conserved under concurrency. In every interleaving of the map operations of
  any number of \<open>Reserve\<close> and \<open>Release\<close> calls whose drawn identifiers are new, whenever nobody holds
  the lock, each reservation that was made has been answered \<open>Released: true\<close> exactly once or is
  still in the store, never both, and no other identifier was ever answered true; what the store
  holds under an identifier is what some call reserved under it; and at most one call is inside.
\<close>

theorem concurrent_reservations_conserved:
  assumes "iv.locks.reachable new_inventory s" "holder s = None"
    and "distinct (reserved_ids (map (\<lambda>(i, op, r). store_op_of op) (returned s)))"
  shows "count_list (release_answers (returned s)) (uuid, True) + (if uuid \<in> dom (store (shared s)) then 1 else 0) =
      (if uuid \<in> set (reserved_ids (map (\<lambda>(i, op, r). store_op_of op) (returned s))) then 1 else (0::nat))
    \<and> (\<forall>its. store (shared s) uuid = Some its \<longrightarrow>
        (\<exists>i req r. (i, ReserveCall uuid req, r) \<in> set (returned s) \<and> ReserveRequest_GetItems req = its))
    \<and> (\<forall>i j op l op' l'. threads s i = Inside op l \<and> threads s j = Inside op' l' \<longrightarrow> i = j)"
proof -
  obtain d where "run_calls whole_inv (returned s) new_inventory = Some d" "shared s = d"
    using iv.linearizable [OF TrueI assms(1)] assms(2) by auto
  from run_calls_store [OF this(1)] this(2)
  have run: "run_store inv_reserve inv_release (map (\<lambda>(i, op, r). store_op_of op) (returned s)) new_inventory =
    (release_answers (returned s), shared s)" by simp
  note cons = reservations_conserved [OF run assms(3), of uuid]
  show ?thesis
  proof (intro conjI allI impI)
    fix its
    assume "store (shared s) uuid = Some its"
    with cons have "ReserveOp uuid its \<in> set (map (\<lambda>(i, op, r). store_op_of op) (returned s))" by simp
    then show "\<exists>i req r. (i, ReserveCall uuid req, r) \<in> set (returned s) \<and> ReserveRequest_GetItems req = its"
      by (fastforce simp: eq_commute [of "ReserveOp uuid its"] store_op_reserve)
  next
    fix i j op l op' l'
    assume "threads s i = Inside op l \<and> threads s j = Inside op' l'"
    then show "i = j" using iv.exclusive [OF TrueI assms(1)] by simp
  qed (use cons in simp)
qed

text \<open>A store with one reservation, made by a call that has returned.\<close>

definition one_reserved :: "(inventory_server, inv_call, inv_pc, inv_reply) locked" where
  "one_reserved = \<lparr>shared = \<lparr>store = [''r1'' \<mapsto> []]\<rparr>, holder = None, threads = (\<lambda>_. Idle),
     returned = [(0, ReserveCall ''r1'' None,
       Inl (Some \<lparr>reserve_ReservationId = ''r1'', reserve_Status = ReserveResponse_STATUS_OK\<rparr>, None))]\<rparr>"

lemma one_reserved_reachable: "iv.locks.reachable new_inventory one_reserved"
proof -
  let ?op = "ReserveCall ''r1'' None"
  let ?r = "Inl (Some \<lparr>reserve_ReservationId = ''r1'', reserve_Status = ReserveResponse_STATUS_OK\<rparr>, None) :: inv_reply"
  let ?s0 = "\<lparr>shared = new_inventory, holder = None, threads = \<lambda>_. Idle, returned = []\<rparr> ::
    (inventory_server, inv_call, inv_pc, inv_reply) locked"
  let ?s1 = "?s0\<lparr>threads := (threads ?s0)(0 := Waiting ?op)\<rparr>"
  let ?s2 = "?s1\<lparr>holder := Some 0, threads := (threads ?s1)(0 := Inside ?op IvStart)\<rparr>"
  let ?s3 = "?s2\<lparr>shared := (shared ?s2)\<lparr>store := (store (shared ?s2))(''r1'' \<mapsto> ReserveRequest_GetItems None)\<rparr>,
    threads := (threads ?s2)(0 := Inside ?op (IvDone ?r))\<rparr>"
  let ?s4 = "?s3\<lparr>holder := None, threads := (threads ?s3)(0 := Idle), returned := returned ?s3 @ [(0, ?op, ?r)]\<rparr>"
  have r0: "iv.locks.reachable new_inventory ?s0" by (rule iv.locks.reachable_init) (simp add: lock_init_def)
  have s1: "iv.lstep ?s0 (CallEv 0 ?op) ?s1" by (rule lock_step.call) simp_all
  have s2: "iv.lstep ?s1 (LockEv 0) ?s2" by (rule lock_step.lock) simp_all
  have s3: "iv.lstep ?s2 (WorkEv 0) ?s3" by (rule lock_step.work [where l = IvStart]) (simp, simp, rule inv_work.reserve)
  have s4: "iv.lstep ?s3 (UnlockEv 0) ?s4" by (rule lock_step.unlock [where l = "IvDone ?r"]) (simp, rule inv_result.simps(1))
  from iv.locks.reachable_step [OF iv.locks.reachable_step [OF iv.locks.reachable_step [OF
        iv.locks.reachable_step [OF r0 s1] s2] s3] s4]
  show ?thesis by (simp add: one_reserved_def getter_defs new_inventory_def fun_upd_idem)
qed

theorem concurrent_reservations_conserved_witness:
  "count_list (release_answers (returned one_reserved)) (''r1'', True)
     + (if ''r1'' \<in> dom (store (shared one_reserved)) then 1 else 0) = (1::nat)"
  using concurrent_reservations_conserved [OF one_reserved_reachable, of "''r1''"]
  by (simp add: one_reserved_def)

end
