(* ===== verification/Go_Flag.thy ===== *)
theory Go_Flag
  imports Go_Strings
begin

text \<open>
  The parts of package \<open>flag\<close> the operator uses: how one command-line argument is read
  (\<open>FlagSet.parseOne\<close>) and the boolean values (\<open>strconv.ParseBool\<close>). The loop over the arguments is
  generic in the flag set: \<open>kind\<close> tells whether a name is defined and whether it is a boolean flag,
  \<open>put\<close> stores a value or refuses it. The lemmas show that arguments written in any of the accepted
  forms are read as what was meant.
\<close>

section \<open>One argument\<close>

datatype arg = NotFlag | Terminator | BadSyntax | FlagArg string "string option"

definition cut_eq :: "string \<Rightarrow> string \<times> string option" where
  "cut_eq name = (case name of
     [] \<Rightarrow> ([], None)
   | c # cs \<Rightarrow>
      (case dropWhile (\<lambda>x. x \<noteq> CHR ''='') cs of
         [] \<Rightarrow> (name, None)
       | _ # v \<Rightarrow> (c # takeWhile (\<lambda>x. x \<noteq> CHR ''='') cs, Some v)))"

definition read_arg :: "string \<Rightarrow> arg" where
  "read_arg s = (case s of
     m # c # cs \<Rightarrow>
       if m \<noteq> CHR ''-'' then NotFlag
       else if c = CHR ''-'' \<and> cs = [] then Terminator
       else
         (let name = (if c = CHR ''-'' then cs else c # cs)
          in if hd name = CHR ''-'' \<or> hd name = CHR ''='' then BadSyntax
             else (case cut_eq name of (n, v) \<Rightarrow> FlagArg n v))
   | _ \<Rightarrow> NotFlag)"

definition ParseBool :: "string \<Rightarrow> bool option" where
  "ParseBool s =
    (if s \<in> set [''1'', ''t'', ''T'', ''TRUE'', ''true'', ''True''] then Some True
     else if s \<in> set [''0'', ''f'', ''F'', ''FALSE'', ''false'', ''False''] then Some False
     else None)"

section \<open>The arguments\<close>

text \<open>\<open>Parse\<close> of a flag set that exits on errors: the exit code, or the stored values and the
  arguments that are left.\<close>

fun parse_flags :: "(string \<Rightarrow> bool option) \<Rightarrow> (string \<Rightarrow> string \<Rightarrow> 'f \<Rightarrow> 'f option) \<Rightarrow>
    string list \<Rightarrow> 'f \<Rightarrow> nat + 'f \<times> string list" where
  "parse_flags kind put [] fl = Inr (fl, [])"
| "parse_flags kind put (s # args) fl = (case read_arg s of
     NotFlag \<Rightarrow> Inr (fl, s # args)
   | Terminator \<Rightarrow> Inr (fl, args)
   | BadSyntax \<Rightarrow> Inl 2
   | FlagArg name v \<Rightarrow>
      (case kind name of
         None \<Rightarrow> if name = ''help'' \<or> name = ''h'' then Inl 0 else Inl 2
       | Some True \<Rightarrow>
          (case put name (case v of None \<Rightarrow> ''true'' | Some x \<Rightarrow> x) fl of
             None \<Rightarrow> Inl 2
           | Some fl' \<Rightarrow> parse_flags kind put args fl')
       | Some False \<Rightarrow>
          (case v of
             Some x \<Rightarrow>
              (case put name x fl of None \<Rightarrow> Inl 2 | Some fl' \<Rightarrow> parse_flags kind put args fl')
           | None \<Rightarrow>
              (case args of
                 [] \<Rightarrow> Inl 2
               | x # args' \<Rightarrow>
                  (case put name x fl of None \<Rightarrow> Inl 2 | Some fl' \<Rightarrow> parse_flags kind put args' fl')))))"

section \<open>Lemmas\<close>

text \<open>The forms in which a flag can be given: with one or two dashes; the value after an equals
  sign, in the next argument, or left out for a boolean flag.\<close>

datatype flag_form = WithEquals bool | NextArg bool | Bare bool

definition dashes :: "bool \<Rightarrow> string" where
  "dashes two = (if two then ''--'' else ''-'')"

fun render :: "flag_form \<times> string \<times> string \<Rightarrow> string list" where
  "render (WithEquals two, name, v) = [dashes two @ name @ CHR ''='' # v]"
| "render (NextArg two, name, v) = [dashes two @ name, v]"
| "render (Bare two, name, v) = [dashes two @ name]"

definition plain_name :: "string \<Rightarrow> bool" where
  "plain_name n \<longleftrightarrow> n \<noteq> [] \<and> hd n \<noteq> CHR ''-'' \<and> CHR ''='' \<notin> set n"

text \<open>A form that gives the value to a flag of this kind.\<close>

fun form_ok :: "(string \<Rightarrow> bool option) \<Rightarrow> flag_form \<times> string \<times> string \<Rightarrow> bool" where
  "form_ok kind (WithEquals two, name, v) \<longleftrightarrow> plain_name name \<and> kind name \<noteq> None"
| "form_ok kind (NextArg two, name, v) \<longleftrightarrow> plain_name name \<and> kind name = Some False"
| "form_ok kind (Bare two, name, v) \<longleftrightarrow> plain_name name \<and> kind name = Some True \<and> v = ''true''"

lemma cut_eq_plain: "CHR ''='' \<notin> set n \<Longrightarrow> cut_eq n = (n, None)"
proof -
  assume "CHR ''='' \<notin> set n"
  then have "dropWhile (\<lambda>x. x \<noteq> CHR ''='') (tl n) = []"
    by (cases n) (auto simp: dropWhile_eq_Nil_conv)
  then show ?thesis by (cases n) (simp_all add: cut_eq_def del: dropWhile_eq_Nil_conv)
qed

lemma cut_eq_value:
  assumes "n \<noteq> []" "CHR ''='' \<notin> set n"
  shows "cut_eq (n @ CHR ''='' # v) = (n, Some v)"
proof -
  obtain c cs where n: "n = c # cs" using assms(1) by (cases n) simp_all
  have split: "CHR ''='' \<notin> set ds \<Longrightarrow> dropWhile (\<lambda>x. x \<noteq> CHR ''='') (ds @ CHR ''='' # v) = CHR ''='' # v"
    "CHR ''='' \<notin> set ds \<Longrightarrow> takeWhile (\<lambda>x. x \<noteq> CHR ''='') (ds @ CHR ''='' # v) = ds" for ds
    by (induction ds) auto
  with assms(2) n have "dropWhile (\<lambda>x. x \<noteq> CHR ''='') (cs @ CHR ''='' # v) = CHR ''='' # v"
    "takeWhile (\<lambda>x. x \<noteq> CHR ''='') (cs @ CHR ''='' # v) = cs"
    by simp_all
  then show ?thesis by (simp add: n cut_eq_def)
qed

lemma read_arg_name:
  assumes "name \<noteq> []" "hd name \<noteq> CHR ''-''" "hd name \<noteq> CHR ''=''"
  shows "read_arg (dashes two @ name) = (case cut_eq name of (n, v) \<Rightarrow> FlagArg n v)"
  using assms by (cases name) (auto simp: read_arg_def dashes_def)

lemma read_arg_form:
  assumes "plain_name name"
  shows "read_arg (dashes two @ name) = FlagArg name None"
    and "read_arg (dashes two @ name @ CHR ''='' # v) = FlagArg name (Some v)"
proof -
  have n: "name \<noteq> []" "hd name \<noteq> CHR ''-''" "hd name \<noteq> CHR ''=''" "CHR ''='' \<notin> set name"
    using assms unfolding plain_name_def by (simp, simp, metis hd_in_set, simp)
  show "read_arg (dashes two @ name) = FlagArg name None"
    using read_arg_name [OF n(1-3)] cut_eq_plain [OF n(4)] by simp
  show "read_arg (dashes two @ name @ CHR ''='' # v) = FlagArg name (Some v)"
    using read_arg_name [of "name @ CHR ''='' # v"] n cut_eq_value [OF n(1,4)] by simp
qed

lemma parse_render:
  assumes "form_ok kind x"
  shows "parse_flags kind put (render x @ args) fl =
    (case put (fst (snd x)) (snd (snd x)) fl of None \<Rightarrow> Inl 2 | Some fl' \<Rightarrow> parse_flags kind put args fl')"
  using assms
proof (induction kind x rule: form_ok.induct)
  case (1 kind two name v)
  then have "plain_name name" "kind name \<noteq> None" by simp_all
  then show ?case
    using read_arg_form(2) [OF \<open>plain_name name\<close>, of two v] by (cases "kind name") (auto split: bool.splits)
next
  case (2 kind two name v)
  then show ?case using read_arg_form(1) [of name two] by simp
next
  case (3 kind two name v)
  then show ?case using read_arg_form(1) [of name two] by simp
qed

lemma parse_rendered:
  assumes "list_all (form_ok kind) xs"
    and "fold (\<lambda>x r. Option.bind r (put (fst (snd x)) (snd (snd x)))) xs (Some fl) = Some fl'"
  shows "parse_flags kind put (concat (map render xs)) fl = Inr (fl', [])"
  using assms
proof (induction xs arbitrary: fl)
  case (Cons x xs)
  have none: "fold (\<lambda>x r. Option.bind r (put (fst (snd x)) (snd (snd x)))) ys None = None" for ys
    by (induction ys) simp_all
  obtain fl1 where "put (fst (snd x)) (snd (snd x)) fl = Some fl1"
    using Cons.prems(2) none [of xs] by (cases "put (fst (snd x)) (snd (snd x)) fl") simp_all
  with Cons parse_render [of kind x put "concat (map render xs)" fl] show ?case by simp
qed simp

text \<open>A parse that exits does so with status 0 or 2.\<close>

lemma parse_flags_status: "parse_flags kind put args fl = Inl st \<Longrightarrow> st = 0 \<or> st = 2"
proof (induction "length args" arbitrary: args fl rule: less_induct)
  case less
  show ?case
  proof (cases args)
    case (Cons s as)
    have IH: "parse_flags kind put as fl' = Inl st \<Longrightarrow> ?thesis"
      "as = x # as' \<Longrightarrow> parse_flags kind put as' fl' = Inl st \<Longrightarrow> ?thesis" for x as' fl'
      using less.hyps [of as fl'] less.hyps [of as' fl'] Cons by auto
    show ?thesis
    proof (cases "read_arg s")
      case (FlagArg name v)
      then consider "kind name = None" | "kind name = Some True" | "kind name = Some False"
        by (cases "kind name") auto
      then show ?thesis
      proof cases
        case 1
        then show ?thesis using less.prems Cons FlagArg by (simp split: if_splits)
      next
        case 2
        then show ?thesis
          using less.prems Cons FlagArg IH(1) by (simp split: option.split_asm)
      next
        case 3
        then show ?thesis
          using less.prems Cons FlagArg IH by (simp split: option.split_asm list.split_asm)
      qed
    qed (use less.prems Cons in simp_all)
  qed (use less.prems in simp)
qed

end
