(* ===== verification/Operator_Manager.thy ===== *)
theory Operator_Manager
  imports Operator_Server Go_Flag
begin

text \<open>
  The operator's entry point (\<open>operator/cmd/manager/main.go\<close>): the flags with their defaults and
  how the command line sets them, the options and the server configuration built from them, the registry with its three
  remedies, and the start-up sequence with its exits. The calls into controller-runtime are
  the fields of \<open>mgr_env\<close>. The lemmas show that the wiring leaves no classified alert without
  a remedy and which failures end the process.
\<close>

section \<open>Flags and wiring\<close>

record flags =
  webhookAddr :: string
  metricsAddr :: string
  probeAddr :: string
  leaderElect :: bool

definition default_flags :: flags where
  "default_flags = \<lparr>webhookAddr = '':8088'', metricsAddr = '':8090'', probeAddr = '':8091'',
     leaderElect = False\<rparr>"

text \<open>The flags \<open>main\<close> defines. The logger and controller-runtime define further ones, which \<open>other\<close>
  (is it defined, is it boolean) and \<open>accepts\<close> (which values it takes) stand for; nothing else here
  depends on them.\<close>

definition flag_kind :: "(string \<Rightarrow> bool option) \<Rightarrow> string \<Rightarrow> bool option" where
  "flag_kind other name =
    (if name = ''webhook-addr'' \<or> name = ''metrics-addr'' \<or> name = ''health-probe-addr'' then Some False
     else if name = ''leader-elect'' then Some True
     else other name)"

definition set_flag :: "(string \<Rightarrow> string \<Rightarrow> bool) \<Rightarrow> string \<Rightarrow> string \<Rightarrow> flags \<Rightarrow> flags option" where
  "set_flag accepts name v fl =
    (if name = ''webhook-addr'' then Some (fl\<lparr>webhookAddr := v\<rparr>)
     else if name = ''metrics-addr'' then Some (fl\<lparr>metricsAddr := v\<rparr>)
     else if name = ''health-probe-addr'' then Some (fl\<lparr>probeAddr := v\<rparr>)
     else if name = ''leader-elect'' then map_option (\<lambda>b. fl\<lparr>leaderElect := b\<rparr>) (ParseBool v)
     else if accepts name v then Some fl else None)"

record manager_options =
  HealthProbeBindAddress :: string
  LeaderElection :: bool
  LeaderElectionID :: string

definition main_options :: "flags \<Rightarrow> manager_options" where
  "main_options fl = \<lparr>HealthProbeBindAddress = probeAddr fl, LeaderElection = leaderElect fl,
     LeaderElectionID = ''remediation-operator.reliability-lab''\<rparr>"

definition main_registry :: "'c Registry" where
  "main_registry =
    Register CircuitBreak CircuitBreak_Apply
      (Register ScaleUp (ScaleUp_Apply 0)
        (Register Rollback Rollback_Apply NewRegistry))"

definition main_server :: "flags \<Rightarrow> 'c client \<Rightarrow> 'c Server" where
  "main_server fl cl = New \<lparr>Addr = webhookAddr fl, CfgClient = cl, CfgVersion = ''dev'', Cooldown = 0,
     CfgNamespace = '''', Remedies = Some main_registry\<rparr>"

section \<open>Start-up\<close>

record 'c mgr_env =
  NewManager :: "manager_options \<Rightarrow> string + 'c client"
  AddHealthzCheck :: "string option"
  AddReadyzCheck :: "string option"
  AddRunnable :: "'c Server \<Rightarrow> string option"
  MgrStart :: "'c Server \<Rightarrow> string option"

text \<open>The exit code, the messages logged or printed, and the server handed to the manager, if
  it got that far. \<open>GetConfigOrDie\<close> has its own exit and is not modelled.\<close>

definition manager_main :: "'c mgr_env \<Rightarrow> flags \<Rightarrow> nat \<times> log_record list \<times> 'c Server option" where
  "manager_main env fl = (case NewManager env (main_options fl) of
     Inl _ \<Rightarrow> (1, [(LevelError, ''unable to start manager'')], None)
   | Inr cl \<Rightarrow>
     (case AddHealthzCheck env of
        Some _ \<Rightarrow> (1, [(LevelError, ''add healthz'')], None)
      | None \<Rightarrow>
     (case AddReadyzCheck env of
        Some _ \<Rightarrow> (1, [(LevelError, ''add readyz'')], None)
      | None \<Rightarrow>
       (let srv = main_server fl cl
        in case AddRunnable env srv of
             Some _ \<Rightarrow> (1, [(LevelError, ''add webhook server runnable'')], None)
           | None \<Rightarrow>
             (let ls = [(LevelInfo, ''starting manager'')]
              in case MgrStart env srv of
                   Some _ \<Rightarrow> (1, ls @ [(LevelError, ''manager exited'')], Some srv)
                 | None \<Rightarrow> (0, ls, Some srv))))))"

text \<open>From the command line; \<open>flag.Parse\<close> exits on its own when it fails or is asked for help.\<close>

definition manager_run :: "(string \<Rightarrow> bool option) \<Rightarrow> (string \<Rightarrow> string \<Rightarrow> bool) \<Rightarrow> 'c mgr_env \<Rightarrow> string list \<Rightarrow>
    nat \<times> log_record list \<times> 'c Server option" where
  "manager_run other accepts env args =
    (case parse_flags (flag_kind other) (set_flag accepts) args default_flags of
       Inl st \<Rightarrow> (st, [], None)
     | Inr (fl, _) \<Rightarrow> manager_main env fl)"

section \<open>Lemmas\<close>

text \<open>What the wiring runs for each kind.\<close>

definition remedy_for :: "Kind \<Rightarrow> 'c remedy" where
  "remedy_for k = (case k of
     Rollback \<Rightarrow> Rollback_Apply | ScaleUp \<Rightarrow> ScaleUp_Apply 0 | CircuitBreak \<Rightarrow> CircuitBreak_Apply
   | NoRemedy \<Rightarrow> (\<lambda>inp w. (None, w)))"

text \<open>The input \<open>dispatch\<close> hands to a remedy in the operator that \<open>main\<close> builds.\<close>

definition main_input :: "(nat \<Rightarrow> bool) \<Rightarrow> 'c client \<Rightarrow> Alert \<Rightarrow> 'c Input" where
  "main_input wide cl a =
    \<lparr>Client = cl, Namespace = ''reliability-lab'', InDecision = Classify wide (labels_of a)\<rparr>"

lemma cfg_main_server:
  "cfg (main_server fl cl) = \<lparr>Addr = webhookAddr fl, CfgClient = cl, CfgVersion = ''dev'',
     Cooldown = 10 * minute, CfgNamespace = ''reliability-lab'', Remedies = Some main_registry\<rparr>"
  "dedupe (main_server fl cl) = NewDedupe (10 * minute)"
  by (simp_all add: main_server_def New_def Let_def)

lemma main_registry_total: "k \<noteq> NoRemedy \<Longrightarrow> Lookup main_registry k = Some (remedy_for k)"
  by (cases k) (simp_all add: main_registry_def remedy_for_def)

lemma cooldown_ok_main: "cooldown_ok (dedupe (main_server fl cl))"
  by (simp add: cfg_main_server cooldown_ok_def max_duration_def)

lemma dispatch_main:
  "dispatch wide (cfg (main_server fl cl)) a w =
    (let d = Classify wide (labels_of a) in
     if Kind d = NoRemedy then log LevelInfo ''no remedy for alert'' w
     else (let (err, w1) = remedy_for (Kind d) (main_input wide cl a) w
           in case err of Some _ \<Rightarrow> log LevelError ''remedy apply failed'' w1 | None \<Rightarrow> w1))"
  by (simp add: dispatch_def Let_def cfg_main_server registry_of_def main_input_def
      Registry_Apply_registered [OF main_registry_total])

section \<open>Properties\<close>

text \<open>
  The operator's wiring is complete. The server \<open>main\<close> builds acts in namespace
  \<open>reliability-lab\<close> with a ten-minute cooldown, and dispatching an alert runs exactly the
  remedy of its classified kind, on the classified target; the registry's error for an
  unregistered kind cannot occur.
\<close>

theorem manager_dispatch:
  "cooldown (dedupe (main_server fl cl)) = 10 * minute
   \<and> dispatch wide (cfg (main_server fl cl)) a w =
      (let d = Classify wide (labels_of a);
           inp = \<lparr>Client = cl, Namespace = ''reliability-lab'', InDecision = d\<rparr>;
           (err, w1) = (case Kind d of
              NoRemedy \<Rightarrow> (None, log LevelInfo ''no remedy for alert'' w)
            | Rollback \<Rightarrow> Rollback_Apply inp w
            | ScaleUp \<Rightarrow> ScaleUp_Apply 0 inp w
            | CircuitBreak \<Rightarrow> CircuitBreak_Apply inp w)
       in case err of Some _ \<Rightarrow> log LevelError ''remedy apply failed'' w1 | None \<Rightarrow> w1)
   \<and> (\<forall>k. k = NoRemedy \<or> (\<exists>rem. Lookup (registry_of (cfg (main_server fl cl))) k = Some rem))"
proof -
  have "k = NoRemedy \<or> (\<exists>rem. Lookup (registry_of (cfg (main_server fl cl))) k = Some rem)" for k
    using main_registry_total [of k] by (auto simp: cfg_main_server registry_of_def)
  then show ?thesis
    by (simp add: dispatch_main Let_def cfg_main_server(2) remedy_for_def main_input_def split: Kind.splits)
qed

lemma manager_main_exit:
  "(fst (manager_main env fl) = 0 \<longleftrightarrow>
     (\<exists>cl. NewManager env (main_options fl) = Inr cl \<and> AddHealthzCheck env = None
       \<and> AddReadyzCheck env = None \<and> AddRunnable env (main_server fl cl) = None
       \<and> MgrStart env (main_server fl cl) = None))
   \<and> fst (manager_main env fl) \<le> 1
   \<and> length (filter (\<lambda>l. fst l = LevelError) (fst (snd (manager_main env fl)))) =
       fst (manager_main env fl)"
  by (auto simp: manager_main_def Let_def split: sum.splits option.splits)

text \<open>The value a list of settings leaves in a flag: the last one wins.\<close>

definition last_value :: "string \<Rightarrow> string \<Rightarrow> (flag_form \<times> string \<times> string) list \<Rightarrow> string" where
  "last_value name def xs = fold (\<lambda>(_, n, v) acc. if n = name then v else acc) xs def"

text \<open>A setting of one of the four flags, in a form and with a value that it takes.\<close>

definition own_setting :: "flag_form \<times> string \<times> string \<Rightarrow> bool" where
  "own_setting x \<longleftrightarrow> form_ok (flag_kind (\<lambda>_. None)) x \<and> (fst (snd x) = ''leader-elect'' \<longrightarrow> ParseBool (snd (snd x)) \<noteq> None)"

lemma own_setting_names:
  assumes "own_setting x"
  shows "fst (snd x) \<in> {''webhook-addr'', ''metrics-addr'', ''health-probe-addr'', ''leader-elect''}
    \<and> form_ok (flag_kind other) x"
  using assms by (cases x rule: render.cases) (auto simp: own_setting_def flag_kind_def split: if_splits)

lemma settings_fold:
  assumes "list_all own_setting xs"
  shows "\<exists>fl'. fold (\<lambda>x r. Option.bind r (set_flag accepts (fst (snd x)) (snd (snd x)))) xs (Some fl) = Some fl'
    \<and> webhookAddr fl' = last_value ''webhook-addr'' (webhookAddr fl) xs
    \<and> metricsAddr fl' = last_value ''metrics-addr'' (metricsAddr fl) xs
    \<and> probeAddr fl' = last_value ''health-probe-addr'' (probeAddr fl) xs
    \<and> Some (leaderElect fl') = fold (\<lambda>(_, n, v) b. if n = ''leader-elect'' then ParseBool v else b) xs (Some (leaderElect fl))"
  using assms
proof (induction xs arbitrary: fl)
  case Nil
  then show ?case by (simp add: last_value_def)
next
  case (Cons x xs)
  obtain f n v where x: "x = (f, n, v)" by (cases x) auto
  obtain fl1 where fl1: "set_flag accepts n v fl = Some fl1"
  proof -
    have "n \<in> {''webhook-addr'', ''metrics-addr'', ''health-probe-addr'', ''leader-elect''}"
      "n = ''leader-elect'' \<Longrightarrow> ParseBool v \<noteq> None"
      using Cons.prems own_setting_names [of x] by (auto simp: x own_setting_def)
    then have "set_flag accepts n v fl \<noteq> None" by (auto simp: set_flag_def)
    then show ?thesis using that by blast
  qed
  have "webhookAddr fl1 = (if n = ''webhook-addr'' then v else webhookAddr fl)"
    "metricsAddr fl1 = (if n = ''metrics-addr'' then v else metricsAddr fl)"
    "probeAddr fl1 = (if n = ''health-probe-addr'' then v else probeAddr fl)"
    "Some (leaderElect fl1) = (if n = ''leader-elect'' then ParseBool v else Some (leaderElect fl))"
    using fl1 by (auto simp: set_flag_def split: if_splits)
  then show ?case
    using Cons.IH [of fl1] Cons.prems fl1 by (simp add: x last_value_def)
qed

text \<open>
  The operator's exit status, from the command line on. The process exits with 2 exactly when
  the arguments do not parse; with 0 exactly when it was asked for help or every call into the
  manager succeeded; otherwise with 1, after logging exactly one error.
\<close>

theorem manager_exit:
  "(fst (manager_run other accepts env args) = 2 \<longleftrightarrow>
     parse_flags (flag_kind other) (set_flag accepts) args default_flags = Inl 2)
   \<and> (fst (manager_run other accepts env args) = 0 \<longleftrightarrow>
     parse_flags (flag_kind other) (set_flag accepts) args default_flags = Inl 0
     \<or> (\<exists>fl rest cl. parse_flags (flag_kind other) (set_flag accepts) args default_flags = Inr (fl, rest)
         \<and> NewManager env (main_options fl) = Inr cl \<and> AddHealthzCheck env = None
         \<and> AddReadyzCheck env = None \<and> AddRunnable env (main_server fl cl) = None
         \<and> MgrStart env (main_server fl cl) = None))
   \<and> fst (manager_run other accepts env args) \<le> 2
   \<and> length (filter (\<lambda>l. fst l = LevelError) (fst (snd (manager_run other accepts env args)))) =
       (if fst (manager_run other accepts env args) = 1 then 1 else 0)"
proof (cases "parse_flags (flag_kind other) (set_flag accepts) args default_flags")
  case (Inl st)
  then show ?thesis using parse_flags_status [OF Inl] by (auto simp: manager_run_def)
next
  case (Inr r)
  obtain fl rest where "r = (fl, rest)" by (cases r)
  then show ?thesis
    using Inr manager_main_exit [of env fl] by (auto simp: manager_run_def le_Suc_eq)
qed



end
