(* ===== verification/Operator_Spec.thy ===== *)
theory Operator_Spec
  imports Operator_Manager
begin

text \<open>
  What the operator promises, without its API calls: an abstract specification of an alert's
  effect on the objects of the cluster, and the refinement of it by the webhook of the operator that
  \<open>main\<close> builds. One dispatched alert is one abstract step; when the remedy failed it is that whole
  step or none, and each failure is one error record; with an API that serves every call it can, the webhook is
  exactly the abstract run over the alerts that pass the gate. The last part is an invariant of the
  stored objects that no request can break.
\<close>

section \<open>The specification\<close>

text \<open>The effect of one alert; \<open>None\<close> where its target does not exist.\<close>

definition spec_step :: "(nat \<Rightarrow> bool) \<Rightarrow> Alert \<Rightarrow> kube_view \<Rightarrow> kube_view option" where
  "spec_step wide a v =
    (let d = Classify wide (labels_of a); key = (''reliability-lab'', Target d)
     in case Kind d of
          NoRemedy \<Rightarrow> Some v
        | CircuitBreak \<Rightarrow> Some (v\<lparr>v_cms := (v_cms v)(key \<mapsto> brake key (v_cms v key))\<rparr>)
        | Rollback \<Rightarrow> map_option (\<lambda>_. v\<lparr>v_aborts := (v_aborts v)(key \<mapsto> True)\<rparr>) (v_aborts v key)
        | ScaleUp \<Rightarrow> map_option (\<lambda>h. v\<lparr>v_hpas := (v_hpas v)(key \<mapsto> scale_hpa 0 h)\<rparr>) (v_hpas v key))"

text \<open>A run in which some of the steps were taken and the others not.\<close>

fun spec_path :: "(nat \<Rightarrow> bool) \<Rightarrow> (Alert \<times> bool) list \<Rightarrow> kube_view \<Rightarrow> kube_view option" where
  "spec_path wide [] v = Some v"
| "spec_path wide ((a, taken) # xs) v =
    Option.bind (if taken then spec_step wide a v else Some v) (spec_path wide xs)"

text \<open>The run in which every step whose target exists is taken.\<close>

fun spec_run :: "(nat \<Rightarrow> bool) \<Rightarrow> Alert list \<Rightarrow> kube_view \<Rightarrow> kube_view" where
  "spec_run wide [] v = v"
| "spec_run wide (a # as) v =
    spec_run wide as (case spec_step wide a v of Some v' \<Rightarrow> v' | None \<Rightarrow> v)"

section \<open>One remedy\<close>

definition remedy_ok :: "(nat \<Rightarrow> bool) \<Rightarrow> 'c client \<Rightarrow> Alert \<Rightarrow> 'c world \<Rightarrow> bool" where
  "remedy_ok wide cl a w \<longleftrightarrow>
    fst (remedy_for (Kind (Classify wide (labels_of a))) (main_input wide cl a) w) = None"

lemma Client_main_input [simp]: "Client (main_input wide cl a) = cl"
  by (simp add: main_input_def)

lemma remedy_refines:
  assumes "kube_api cl view" "view_keys (view (cluster w))"
    and "remedy_for (Kind (Classify wide (labels_of a))) (main_input wide cl a) w = (err, w')"
  shows "view_keys (view (cluster w'))
    \<and> (case err of None \<Rightarrow> spec_step wide a (view (cluster w)) = Some (view (cluster w'))
        | Some _ \<Rightarrow> view (cluster w') = view (cluster w) \<or>
            spec_step wide a (view (cluster w)) = Some (view (cluster w')))"
proof -
  have api: "kube_api (Client (main_input wide cl a)) view" using assms(1) by simp
  show ?thesis
  proof (cases "Kind (Classify wide (labels_of a))")
    case NoRemedy
    then show ?thesis using assms by (auto simp: remedy_for_def spec_step_def)
  next
    case Rollback
    then have run: "Rollback_Apply (main_input wide cl a) w = (err, w')"
      using assms(3) by (simp add: remedy_for_def)
    show ?thesis
    proof (cases err)
      case None
      then show ?thesis
        using Rollback_success [OF api] rb.keeps_keys [OF assms(2), of "main_input wide cl a"] run Rollback
        by (auto simp: spec_step_def Let_def abort_upd_def main_input_def)
    next
      case (Some e)
      then show ?thesis
        using Rollback_failure [OF api] rb.keeps_keys [OF assms(2), of "main_input wide cl a"] run Rollback
          assms(2)
        by (fastforce simp: spec_step_def Let_def abort_upd_def main_input_def)
    qed
  next
    case ScaleUp
    then have run: "ScaleUp_Apply 0 (main_input wide cl a) w = (err, w')"
      using assms(3) by (simp add: remedy_for_def)
    show ?thesis
    proof (cases err)
      case None
      note eff = ScaleUp_success [OF api assms(2) run [unfolded None]]
      then obtain h where "v_hpas (view (cluster w)) (in_key (main_input wide cl a)) = Some h" by blast
      then show ?thesis
        using eff su.keeps_keys [OF assms(2), of 0 "main_input wide cl a"] ScaleUp None
        by (simp add: spec_step_def Let_def scale_upd_def main_input_def)
    next
      case (Some e)
      then show ?thesis
        using ScaleUp_failure [OF api assms(2)] su.keeps_keys [OF assms(2), of 0 "main_input wide cl a"] run
          ScaleUp assms(2)
        by (fastforce simp: spec_step_def Let_def scale_upd_def main_input_def)
    qed
  next
    case CircuitBreak
    then have run: "CircuitBreak_Apply (main_input wide cl a) w = (err, w')"
      using assms(3) by (simp add: remedy_for_def)
    show ?thesis
    proof (cases err)
      case None
      then show ?thesis
        using cb.success [OF api assms(2)] cb.keeps_keys [OF assms(2), of "main_input wide cl a"] run CircuitBreak
        by (auto simp: spec_step_def Let_def brake_upd_def main_input_def)
    next
      case (Some e)
      then show ?thesis
        using cb.failure [OF api assms(2)] cb.keeps_keys [OF assms(2), of "main_input wide cl a"] run
          CircuitBreak assms(2)
        by (fastforce simp: spec_step_def Let_def brake_upd_def main_input_def)
    qed
  qed
qed

text \<open>The error records in a log; the remedies write none.\<close>

definition errors :: "'c world \<Rightarrow> nat" where
  "errors w = length (filter (\<lambda>l. fst l = LevelError) (logs w))"

lemma errors_log [simp]: "errors (log l m w) = errors w + (if l = LevelError then 1 else 0)"
  by (simp add: errors_def)

lemma errors_issue: "issue call f w = (r, w') \<Longrightarrow> errors w' = errors w"
  using issueD by (fastforce simp: errors_def)

lemma errors_remedy: "remedy_for k inp w = (err, w') \<Longrightarrow> errors w' = errors w"
  by (cases k)
    (auto simp: remedy_for_def Rollback_Apply_def ScaleUp_Apply_def CircuitBreak_Apply_def do_defs Let_def
      dest!: errors_issue split: prod.splits option.splits sum.splits if_splits)

lemma dispatch_refines:
  assumes "kube_api cl view" "view_keys (view (cluster w))"
    and "w' = dispatch wide (cfg (main_server fl cl)) a w"
  shows "view_keys (view (cluster w'))
    \<and> (\<exists>taken. (remedy_ok wide cl a w \<longrightarrow> taken) \<and>
         spec_path wide [(a, taken)] (view (cluster w)) = Some (view (cluster w')))
    \<and> errors w' = errors w + (if remedy_ok wide cl a w then 0 else 1)"
proof -
  obtain err w1 where r:
    "remedy_for (Kind (Classify wide (labels_of a))) (main_input wide cl a) w = (err, w1)" by fastforce
  note ref = remedy_refines [OF assms(1,2) r]
  show ?thesis
  proof (cases "Kind (Classify wide (labels_of a)) = NoRemedy")
    case True
    then show ?thesis
      using assms(2,3)
      by (auto simp: dispatch_main Let_def spec_step_def remedy_ok_def remedy_for_def intro: exI [of _ True])
  next
    case False
    then have w': "w' = (case err of Some _ \<Rightarrow> log LevelError ''remedy apply failed'' w1 | None \<Rightarrow> w1)"
      using assms(3) r by (simp add: dispatch_main Let_def)
    have ok: "remedy_ok wide cl a w \<longleftrightarrow> err = None" using r by (simp add: remedy_ok_def)
    have v: "view (cluster w') = view (cluster w1)" using w' by (cases err) simp_all
    have "\<exists>taken. (err = None \<longrightarrow> taken) \<and> spec_path wide [(a, taken)] (view (cluster w)) = Some (view (cluster w1))"
    proof (cases "spec_step wide a (view (cluster w)) = Some (view (cluster w1))")
      case True
      then show ?thesis by (intro exI [of _ True]) simp
    next
      case False
      then show ?thesis using ref by (intro exI [of _ False]) (cases err; simp)
    qed
    then show ?thesis
      using ref errors_remedy [OF r] w' unfolding ok v by (cases err) simp_all
  qed
qed

section \<open>A payload\<close>

definition quiet_log :: "loop_act \<Rightarrow> bool" where
  "quiet_log x \<longleftrightarrow> (case x of LogAct l _ \<Rightarrow> l \<noteq> LevelError | DispatchAct _ \<Rightarrow> True)"

lemma loop_acts_logs: "list_all quiet_log (loop_acts acquire now as g)"
  by (induction as arbitrary: g) (auto simp: quiet_log_def Let_def split: prod.splits)

lemma acts_refine:
  assumes "kube_api cl view" "view_keys (view (cluster w))" "list_all quiet_log acts"
    and "w' = fold (run_act (dispatch wide (cfg (main_server fl cl)))) acts w"
  shows "\<exists>taken failed. length taken = length (dispatched acts) \<and> list_all2 (\<or>) taken failed
    \<and> view_keys (view (cluster w'))
    \<and> spec_path wide (zip (dispatched acts) taken) (view (cluster w)) = Some (view (cluster w'))
    \<and> errors w' = errors w + count_list failed True"
  using assms(2-4)
proof (induction acts arbitrary: w)
  case (Cons x acts)
  show ?case
  proof (cases x)
    case (LogAct l m)
    with Cons.prems have "l \<noteq> LevelError" by (simp add: quiet_log_def)
    with Cons.IH [of "log l m w"] Cons.prems LogAct show ?thesis by simp
  next
    case (DispatchAct a)
    let ?w1 = "dispatch wide (cfg (main_server fl cl)) a w"
    note d = dispatch_refines [OF assms(1) Cons.prems(1) refl, of wide fl a]
    obtain t where t: "remedy_ok wide cl a w \<longrightarrow> t"
      "spec_path wide [(a, t)] (view (cluster w)) = Some (view (cluster ?w1))"
      using d by blast
    obtain taken failed where ih: "length taken = length (dispatched acts)" "list_all2 (\<or>) taken failed"
      "view_keys (view (cluster w'))"
      "spec_path wide (zip (dispatched acts) taken) (view (cluster ?w1)) = Some (view (cluster w'))"
      "errors w' = errors ?w1 + count_list failed True"
      using Cons.IH [of ?w1] Cons.prems(2,3) d DispatchAct by auto
    have "spec_path wide (zip (dispatched (x # acts)) (t # taken)) (view (cluster w)) = Some (view (cluster w'))"
      using t(2) ih(4) DispatchAct by (auto simp: Option.bind_eq_Some_conv)
    then show ?thesis
      using d t(1) ih DispatchAct
      by (intro exI [of _ "t # taken"] exI [of _ "(\<not> remedy_ok wide cl a w) # failed"]) auto
  qed
qed simp

section \<open>An API that serves what it can\<close>

definition read_serves :: "('c \<Rightarrow> kube_view) \<Rightarrow> (kube_view \<Rightarrow> 'o option) \<Rightarrow> ('c \<Rightarrow> (api_error + 'o) \<times> 'c) \<Rightarrow> bool"
  where "read_serves view stored op \<longleftrightarrow>
    (\<forall>c. fst (op c) = (case stored (view c) of None \<Rightarrow> Inl NotFound | Some x \<Rightarrow> Inr x))"

definition write_serves :: "('c \<Rightarrow> kube_view) \<Rightarrow> (kube_view \<Rightarrow> kube_view option) \<Rightarrow>
    ('c \<Rightarrow> api_error option \<times> 'c) \<Rightarrow> bool" where
  "write_serves view effect op \<longleftrightarrow> (\<forall>c. effect (view c) \<noteq> None \<longrightarrow> fst (op c) = None)"

definition serving_api :: "'c client \<Rightarrow> ('c \<Rightarrow> kube_view) \<Rightarrow> bool" where
  "serving_api cl view \<longleftrightarrow>
    (\<forall>k. read_serves view (\<lambda>v. v_hpas v k) (get_hpa cl k)) \<and>
    (\<forall>k. read_serves view (\<lambda>v. v_cms v k) (get_cm cl k)) \<and>
    (\<forall>b h. write_serves view (view_patch_hpa b h) (patch_hpa cl b h)) \<and>
    (\<forall>m. write_serves view (view_create_cm m) (create_cm cl m)) \<and>
    (\<forall>b m. write_serves view (view_patch_cm b m) (patch_cm cl b m)) \<and>
    (\<forall>k. write_serves view (view_abort k) (patch_status cl argo_rollouts k abort_patch))"

lemma serving_apiD:
  assumes "serving_api cl view"
  shows "read_serves view (\<lambda>v. v_hpas v k) (get_hpa cl k)"
    and "read_serves view (\<lambda>v. v_cms v k) (get_cm cl k)"
    and "write_serves view (view_patch_hpa b h) (patch_hpa cl b h)"
    and "write_serves view (view_create_cm m) (create_cm cl m)"
    and "write_serves view (view_patch_cm c m) (patch_cm cl c m)"
    and "write_serves view (view_abort k) (patch_status cl argo_rollouts k abort_patch)"
  using assms unfolding serving_api_def by blast+

lemma serving_mem_client: "serving_api mem_client id"
  by (auto simp: serving_api_def read_serves_def write_serves_def mem_client_def mem_read_def mem_write_def
      split: option.splits)

lemma issue_read_serves:
  assumes "issue call op w = (r, w')" "read_serves view stored op"
  shows "r = (case stored (view (cluster w)) of None \<Rightarrow> Inl NotFound | Some x \<Rightarrow> Inr x)"
  using issueD [OF assms(1)] assms(2) unfolding read_serves_def by (metis fst_conv)

lemma issue_write_serves:
  assumes "issue call op w = (r, w')" "write_serves view effect op" "effect (view (cluster w)) \<noteq> None"
  shows "r = None"
  using issueD [OF assms(1)] assms(2,3) unfolding write_serves_def by (metis fst_conv)

lemma Rollback_served:
  assumes "serving_api (Client inp) view" "v_aborts (view (cluster w)) (in_key inp) \<noteq> None"
  shows "fst (Rollback_Apply inp w) = None"
proof -
  obtain e w1 where p: "do_patch_status (Client inp) argo_rollouts (in_key inp) abort_patch w = (e, w1)"
    by fastforce
  have "e = None"
    by (rule issue_write_serves [OF p [unfolded do_patch_status_def] serving_apiD(6) [OF assms(1)]])
      (use assms(2) in \<open>auto simp: view_abort_def\<close>)
  with p show ?thesis by (simp add: Rollback_Apply_def Let_def)
qed

lemma ScaleUp_served:
  assumes "serving_api (Client inp) view" "kube_api (Client inp) view" "view_keys (view (cluster w))"
    and "v_hpas (view (cluster w)) (in_key inp) = Some h"
  shows "fst (ScaleUp_Apply Step inp w) = None"
proof -
  obtain r w1 where g: "do_get_hpa (Client inp) (in_key inp) w = (r, w1)" by fastforce
  note g' = g [unfolded do_get_hpa_def]
  have r: "r = Inr h"
    using issue_read_serves [OF g' serving_apiD(1) [OF assms(1)]] assms(4) by simp
  have v1: "view (cluster w1) = view (cluster w)" by (rule issue_read(1) [OF g' kube_apiD(1) [OF assms(2)]])
  have key: "hpa_key h = in_key inp" using view_keysD(1) [OF assms(3,4)] .
  obtain e w2 where p: "do_patch_hpa (Client inp) h (h\<lparr>MinReplicas := Some (scale_target Step h)\<rparr>) w1 = (e, w2)"
    by fastforce
  have "e = None"
    by (rule issue_write_serves [OF p [unfolded do_patch_hpa_def] serving_apiD(3) [OF assms(1)]])
      (use assms(4) in \<open>simp add: view_patch_hpa_def v1 key\<close>)
  with p g show ?thesis by (simp add: r ScaleUp_found)
qed

lemma CircuitBreak_served:
  assumes "serving_api (Client inp) view" "kube_api (Client inp) view" "view_keys (view (cluster w))"
  shows "fst (CircuitBreak_Apply inp w) = None"
proof -
  obtain r w1 where g: "do_get_cm (Client inp) (in_key inp) w = (r, w1)" by fastforce
  note g' = g [unfolded do_get_cm_def]
  note r = issue_read_serves [OF g' serving_apiD(2) [OF assms(1)]]
  have v1: "view (cluster w1) = view (cluster w)" by (rule issue_read(1) [OF g' kube_apiD(2) [OF assms(2)]])
  show ?thesis
  proof (cases "v_cms (view (cluster w)) (in_key inp)")
    case None
    let ?cm = "\<lparr>cm_key = in_key inp, Data = Some [flagKey \<mapsto> flagValuePaused]\<rparr>"
    obtain e w2 where p: "do_create_cm (Client inp) ?cm w1 = (e, w2)" by fastforce
    have "e = None"
      by (rule issue_write_serves [OF p [unfolded do_create_cm_def] serving_apiD(4) [OF assms(1)]])
        (simp add: view_create_cm_def v1 None)
    with p g r None show ?thesis by (simp add: CircuitBreak_Apply_def Let_def IsNotFound_def)
  next
    case (Some cm)
    then have key: "cm_key cm = in_key inp" using view_keysD(2) [OF assms(3)] by blast
    let ?cm = "cm\<lparr>Data := Some ((data_of cm)(flagKey \<mapsto> flagValuePaused))\<rparr>"
    obtain e w2 where p: "do_patch_cm (Client inp) cm ?cm w1 = (e, w2)" by fastforce
    have "e = None"
      by (rule issue_write_serves [OF p [unfolded do_patch_cm_def] serving_apiD(5) [OF assms(1)]])
        (simp add: view_patch_cm_def v1 key Some)
    with p g r Some show ?thesis by (simp add: CircuitBreak_found)
  qed
qed

lemma remedy_served:
  assumes "serving_api cl view" "kube_api cl view" "view_keys (view (cluster w))"
  shows "remedy_ok wide cl a w \<longleftrightarrow> spec_step wide a (view (cluster w)) \<noteq> None"
proof
  assume "remedy_ok wide cl a w"
  then obtain w1 where
    "remedy_for (Kind (Classify wide (labels_of a))) (main_input wide cl a) w = (None, w1)"
    unfolding remedy_ok_def by (metis prod.collapse)
  from remedy_refines [OF assms(2,3) this] show "spec_step wide a (view (cluster w)) \<noteq> None" by simp
next
  let ?in = "main_input wide cl a"
  have api: "serving_api (Client ?in) view" "kube_api (Client ?in) view" using assms by simp_all
  assume "spec_step wide a (view (cluster w)) \<noteq> None"
  then show "remedy_ok wide cl a w"
    using Rollback_served [OF api(1)] ScaleUp_served [OF api assms(3)] CircuitBreak_served [OF api assms(3)]
    by (auto simp: remedy_ok_def remedy_for_def spec_step_def Let_def main_input_def split: Kind.splits)
qed

lemma acts_serve:
  assumes "serving_api cl view" "kube_api cl view" "view_keys (view (cluster w))"
  shows "view (cluster (fold (run_act (dispatch wide (cfg (main_server fl cl)))) acts w)) =
    spec_run wide (dispatched acts) (view (cluster w))"
  using assms(3)
proof (induction acts arbitrary: w)
  case (Cons x acts)
  show ?case
  proof (cases x)
    case (LogAct l m)
    with Cons show ?thesis by simp
  next
    case (DispatchAct a)
    note d = dispatch_refines [OF assms(2) Cons.prems refl, of wide fl a]
    have "view (cluster (dispatch wide (cfg (main_server fl cl)) a w)) =
        (case spec_step wide a (view (cluster w)) of Some v' \<Rightarrow> v' | None \<Rightarrow> view (cluster w))"
      using d remedy_served [OF assms(1,2) Cons.prems, of wide a]
      by (cases "spec_step wide a (view (cluster w))") (auto simp: Option.bind_eq_Some_conv split: if_splits)
    with Cons.IH [of "dispatch wide (cfg (main_server fl cl)) a w"] d DispatchAct show ?thesis by simp
  qed
qed simp

section \<open>Well-formed objects\<close>

text \<open>Objects are stored under their own names, and no autoscaler has a minimum above its
  maximum.\<close>

definition view_ok :: "kube_view \<Rightarrow> bool" where
  "view_ok v \<longleftrightarrow> view_keys v \<and>
    (\<forall>k h. v_hpas v k = Some h \<longrightarrow> sint (scale_current h) \<le> sint (MaxReplicas h))"

lemma scale_hpa_ok:
  "sint (scale_current h) \<le> sint (MaxReplicas h) \<Longrightarrow>
   sint (scale_current (scale_hpa Step h)) \<le> sint (MaxReplicas (scale_hpa Step h))"
  using scale_target_bounds(2) [of Step h] by (auto simp: scale_hpa_def scale_current_def)

lemma spec_step_ok:
  assumes "view_ok v" "spec_step wide a v = Some v'"
  shows "view_ok v'"
proof -
  have keys: "view_keys v" using assms(1) by (simp add: view_ok_def)
  let ?d = "Classify wide (labels_of a)" and ?in = "main_input wide mem_client a"
  have hpas: "sint (scale_current h) \<le> sint (MaxReplicas h)" if "v_hpas v' k = Some h" for k h
    using assms that scale_hpa_ok [of _ 0]
    by (cases k) (auto simp: spec_step_def Let_def view_ok_def split: Kind.splits if_splits)
  have "view_keys v'"
    using assms(2) keys brake_upd_keys [OF keys, of ?in] scale_upd_keys [OF keys, of 0 ?in]
      rb.keeps_keys [OF keys, of ?in]
    by (auto simp: spec_step_def Let_def brake_upd_def scale_upd_def abort_upd_def main_input_def
        split: Kind.splits)
  with hpas show ?thesis unfolding view_ok_def by blast
qed

lemma spec_path_ok: "view_ok v \<Longrightarrow> spec_path wide xs v = Some v' \<Longrightarrow> view_ok v'"
  by (induction wide xs v rule: spec_path.induct)
    (auto simp: Option.bind_eq_Some_conv split: if_splits intro: spec_step_ok)

section \<open>Properties\<close>


text \<open>A world in which the operator's three targets exist.\<close>

definition sample_cluster :: kube_view where
  "sample_cluster = empty_view\<lparr>
     v_hpas := [(''reliability-lab'', ''payments-svc'') \<mapsto> payments_hpa],
     v_aborts := [(''reliability-lab'', ''orders-svc'') \<mapsto> False]\<rparr>"

lemma sample_cluster_keys [simp]: "view_keys sample_cluster"
  by (simp add: sample_cluster_def view_keys_def empty_view_def payments_hpa_def)

lemma sample_accepted: "fst (accepted Acquire 0 [sample_alert] (NewDedupe (10 * minute))) = [sample_alert]"
  by (simp add: sample_alert_def Firing_def Acquire_def)

lemma main_server_dedupe: "(main_server fl cl)\<lparr>dedupe := NewDedupe (10 * minute)\<rparr> = main_server fl cl"
  by (simp add: main_server_def New_def Let_def)


text \<open>
  C24: with an API that serves every call it can, the webhook is the specification: the objects of
  the cluster after a request are exactly those of the abstract run over the alerts that pass the
  gate, in which an alert is skipped only if its target does not exist.
\<close>

theorem handleAlert_implements_spec:
  assumes "kube_api cl view" "serving_api cl view" "view_keys (view (cluster w))"
    and "Decode dec_payload zero_payload req_body = Some p"
    and "s = (main_server fl cl)\<lparr>dedupe := g\<rparr>"
  shows "view (cluster (snd (snd (handleAlert wide now req_body (s, w))))) =
    spec_run wide (fst (accepted Acquire now (Alerts p) g)) (view (cluster w))"
  using acts_serve [OF assms(2,1,3)] assms(5)
  by (simp add: handleAlert_decoded [OF assms(4)] dispatched_loop_acts)

theorem handleAlert_implements_spec_witness:
  "cluster (snd (snd (handleAlert (\<lambda>_. True) 0 sample_body
       (main_server default_flags mem_client, mem_world sample_cluster)))) =
     spec_run (\<lambda>_. True) [sample_alert] sample_cluster"
  using handleAlert_implements_spec [where w = "mem_world sample_cluster" and wide = "\<lambda>_. True" and now = 0
      and fl = default_flags, OF kube_api_mem_client serving_mem_client _ sample_decode
      main_server_dedupe [symmetric]] sample_accepted
  by auto



end
