(* ===== verification/Operator_Access.thy ===== *)
theory Operator_Access
  imports Operator_Spec
begin

text \<open>
  What the operator may do (\<open>k8s/operator/rbac.yaml\<close>): the rules of its Role as data, the decision
  of role-based access control on one request, and the requests each API call of the remedies
  causes. A write is one request for the object. A read goes to the informer cache of the manager,
  which lists and watches the objects of the kind in the namespaces the manager's cache is
  configured for, and \<open>main\<close> configures none, which means all of them. The lemmas show that the Role
  would fit the remedies exactly if the cache were restricted to the operator's namespace, and that
  with the manager as \<open>main\<close> builds it every read is refused, so that no autoscaler is ever scaled and
  no brake ever engaged.
\<close>

section \<open>Roles\<close>

record policy_rule =
  apiGroups :: "string list"
  resources :: "string list"
  verbs :: "string list"

text \<open>A request: its namespace is \<open>None\<close> when it asks for the objects of all namespaces.\<close>

record access_request =
  req_verb :: string
  req_group :: string
  req_resource :: string
  req_namespace :: "string option"

definition covers :: "string list \<Rightarrow> string \<Rightarrow> bool" where
  "covers xs x \<longleftrightarrow> list_ex (\<lambda>y. y = ''*'' \<or> y = x) xs"

definition rule_allows :: "access_request \<Rightarrow> policy_rule \<Rightarrow> bool" where
  "rule_allows r p \<longleftrightarrow> covers (apiGroups p) (req_group r) \<and> covers (resources p) (req_resource r)
     \<and> covers (verbs p) (req_verb r)"

text \<open>A Role grants its rules in its own namespace.\<close>

definition role_allows :: "string \<Rightarrow> policy_rule list \<Rightarrow> access_request \<Rightarrow> bool" where
  "role_allows ns rules r \<longleftrightarrow> req_namespace r = Some ns \<and> list_ex (rule_allows r) rules"

definition role_namespace :: string where
  "role_namespace = ''reliability-lab''"

definition operator_role :: "policy_rule list" where
  "operator_role = [
     \<lparr>apiGroups = [''argoproj.io''], resources = [''rollouts''], verbs = [''get'', ''list'', ''watch'']\<rparr>,
     \<lparr>apiGroups = [''argoproj.io''], resources = [''rollouts/status''], verbs = [''patch'', ''update'']\<rparr>,
     \<lparr>apiGroups = [''autoscaling''], resources = [''horizontalpodautoscalers''],
      verbs = [''get'', ''list'', ''watch'', ''patch'', ''update'']\<rparr>,
     \<lparr>apiGroups = [''''], resources = [''configmaps''],
      verbs = [''get'', ''list'', ''watch'', ''create'', ''patch'', ''update'']\<rparr>,
     \<lparr>apiGroups = [''coordination.k8s.io''], resources = [''leases''],
      verbs = [''get'', ''list'', ''watch'', ''create'', ''patch'', ''update'']\<rparr>,
     \<lparr>apiGroups = [''''], resources = [''events''], verbs = [''create'', ''patch'']\<rparr>]"

section \<open>The requests of the remedies\<close>

text \<open>The namespace the manager's cache is restricted to; \<open>manager.Options\<close> leaves it unset.\<close>

definition manager_cache :: "string option" where
  "manager_cache = None"

text \<open>The requests behind an API call. Reads are served by an informer on the cache, started with a
  list and kept up to date with a watch; writes go to the API server. Which resource an untyped
  object belongs to is the cluster's discovery information, the argument \<open>plural\<close>.\<close>

definition informer :: "string option \<Rightarrow> string \<Rightarrow> string \<Rightarrow> access_request list" where
  "informer scope api_group resource = map (\<lambda>verb. \<lparr>req_verb = verb, req_group = api_group,
     req_resource = resource, req_namespace = scope\<rparr>) [''list'', ''watch'']"

fun requests_of :: "string option \<Rightarrow> (gvk \<Rightarrow> string) \<Rightarrow> api_call \<Rightarrow> access_request list" where
  "requests_of scope plural (GetHPA k) = informer scope ''autoscaling'' ''horizontalpodautoscalers''"
| "requests_of scope plural (PatchHPA b h) = [\<lparr>req_verb = ''patch'', req_group = ''autoscaling'',
     req_resource = ''horizontalpodautoscalers'', req_namespace = Some (fst (hpa_key h))\<rparr>]"
| "requests_of scope plural (GetConfigMap k) = informer scope '''' ''configmaps''"
| "requests_of scope plural (CreateConfigMap m) = [\<lparr>req_verb = ''create'', req_group = '''',
     req_resource = ''configmaps'', req_namespace = Some (fst (cm_key m))\<rparr>]"
| "requests_of scope plural (PatchConfigMap b m) = [\<lparr>req_verb = ''patch'', req_group = '''',
     req_resource = ''configmaps'', req_namespace = Some (fst (cm_key m))\<rparr>]"
| "requests_of scope plural (PatchStatus g k p) = [\<lparr>req_verb = ''patch'', req_group = gvk_Group g,
     req_resource = plural g @ ''/status'', req_namespace = Some (fst k)\<rparr>]"

definition call_allowed :: "string option \<Rightarrow> (gvk \<Rightarrow> string) \<Rightarrow> api_call \<Rightarrow> bool" where
  "call_allowed scope plural c \<longleftrightarrow>
    list_all (role_allows role_namespace operator_role) (requests_of scope plural c)"

fun reads :: "api_call \<Rightarrow> bool" where
  "reads (GetHPA k) = True"
| "reads (GetConfigMap k) = True"
| "reads c = False"

text \<open>The object a call is about.\<close>

fun call_key :: "api_call \<Rightarrow> nsname" where
  "call_key (GetHPA k) = k"
| "call_key (PatchHPA b h) = hpa_key h"
| "call_key (GetConfigMap k) = k"
| "call_key (CreateConfigMap m) = cm_key m"
| "call_key (PatchConfigMap b m) = cm_key m"
| "call_key (PatchStatus g k p) = k"

definition call_of_remedies :: "nsname \<Rightarrow> api_call \<Rightarrow> bool" where
  "call_of_remedies k c \<longleftrightarrow> call_key c = k \<and> (case c of PatchStatus g _ _ \<Rightarrow> g = argo_rollouts | _ \<Rightarrow> True)"

section \<open>Lemmas\<close>

lemma covers_list [simp]: "covers [] x = False" "covers (y # ys) x \<longleftrightarrow> y = ''*'' \<or> y = x \<or> covers ys x"
  by (auto simp: covers_def)

lemmas role_defs = role_allows_def operator_role_def rule_allows_def

text \<open>Writes are allowed whatever the cache is restricted to, reads only if it is to the namespace of
  the Role.\<close>

lemma call_allowed_iff:
  assumes "plural argo_rollouts = ''rollouts''" "call_of_remedies k c" "fst k = role_namespace"
  shows "call_allowed scope plural c \<longleftrightarrow> reads c \<longrightarrow> scope = Some role_namespace"
  using assms
  by (cases c) (auto simp: call_allowed_def call_of_remedies_def informer_def role_defs argo_rollouts_def)

lemma read_refused: "reads c \<Longrightarrow> \<not> call_allowed manager_cache plural c"
  by (cases c) (auto simp: call_allowed_def manager_cache_def informer_def role_allows_def)

text \<open>What is appended to the calls of a world satisfies a predicate.\<close>

definition calls_grow :: "(api_call \<Rightarrow> bool) \<Rightarrow> 'c world \<Rightarrow> 'c world \<Rightarrow> bool" where
  "calls_grow P w w' \<longleftrightarrow> (\<exists>cs. calls w' = calls w @ cs \<and> list_all P cs)"

lemma calls_grow_refl: "calls w' = calls w \<Longrightarrow> calls_grow P w w'"
  by (simp add: calls_grow_def)

lemma calls_grow_trans: "calls_grow P u v \<Longrightarrow> calls_grow P v w \<Longrightarrow> calls_grow P u w"
  unfolding calls_grow_def by (metis append.assoc list_all_append)

lemma calls_grow_issue: "issue c f w = (r, w') \<Longrightarrow> P c \<Longrightarrow> calls_grow P w w'"
  using issueD by (fastforce simp: calls_grow_def)

lemma calls_grow_log [simp]: "calls_grow P w (log l m w') = calls_grow P w w'"
  by (simp add: calls_grow_def)

lemma Rollback_grow:
  assumes "Rollback_Apply inp w = (err, w')"
  shows "calls_grow (call_of_remedies (in_key inp)) w w'"
proof -
  obtain e w1 where p: "do_patch_status (Client inp) argo_rollouts (in_key inp) abort_patch w = (e, w1)" by fastforce
  have "calls_grow (call_of_remedies (in_key inp)) w w1"
    by (rule calls_grow_issue [OF p [unfolded do_patch_status_def]]) (simp add: call_of_remedies_def)
  with assms p show ?thesis by (auto simp: Rollback_Apply_def Let_def split: option.splits)
qed

lemma ScaleUp_grow:
  assumes "kube_api (Client inp) view" "view_keys (view (cluster w))" "ScaleUp_Apply Step inp w = (err, w')"
  shows "calls_grow (call_of_remedies (in_key inp)) w w'"
proof -
  let ?P = "call_of_remedies (in_key inp)"
  obtain r w1 where g: "do_get_hpa (Client inp) (in_key inp) w = (r, w1)" by fastforce
  have w1: "calls_grow ?P w w1"
    by (rule calls_grow_issue [OF g [unfolded do_get_hpa_def]]) (simp add: call_of_remedies_def)
  show ?thesis
  proof (cases r)
    case (Inl e)
    with assms(3) g w1 show ?thesis by (auto simp: ScaleUp_Apply_def)
  next
    case (Inr h)
    have key: "hpa_key h = in_key inp"
      using issue_read [OF g [unfolded do_get_hpa_def] kube_apiD(1) [OF assms(1)]] Inr view_keysD(1) [OF assms(2)] by blast
    obtain e w2 where p: "do_patch_hpa (Client inp) h (h\<lparr>MinReplicas := Some (scale_target Step h)\<rparr>) w1 = (e, w2)"
      by fastforce
    have "calls_grow ?P w1 w2"
      by (rule calls_grow_issue [OF p [unfolded do_patch_hpa_def]]) (simp add: call_of_remedies_def key)
    with calls_grow_trans [OF w1 this] assms(3) g Inr p w1 show ?thesis
      by (auto simp: ScaleUp_found split: option.splits if_splits)
  qed
qed

lemma CircuitBreak_grow:
  assumes "kube_api (Client inp) view" "view_keys (view (cluster w))" "CircuitBreak_Apply inp w = (err, w')"
  shows "calls_grow (call_of_remedies (in_key inp)) w w'"
proof -
  let ?P = "call_of_remedies (in_key inp)"
  obtain r w1 where g: "do_get_cm (Client inp) (in_key inp) w = (r, w1)" by fastforce
  have w1: "calls_grow ?P w w1"
    by (rule calls_grow_issue [OF g [unfolded do_get_cm_def]]) (simp add: call_of_remedies_def)
  show ?thesis
  proof (cases r)
    case (Inl e)
    obtain e2 w2 where p: "do_create_cm (Client inp) \<lparr>cm_key = in_key inp, Data = Some [flagKey \<mapsto> flagValuePaused]\<rparr> w1 = (e2, w2)"
      by fastforce
    have "calls_grow ?P w1 w2"
      by (rule calls_grow_issue [OF p [unfolded do_create_cm_def]]) (simp add: call_of_remedies_def)
    with calls_grow_trans [OF w1 this] assms(3) g Inl p w1 show ?thesis
      by (auto simp: CircuitBreak_Apply_def Let_def split: option.splits if_splits)
  next
    case (Inr cm)
    have key: "cm_key cm = in_key inp"
      using issue_read [OF g [unfolded do_get_cm_def] kube_apiD(2) [OF assms(1)]] Inr view_keysD(2) [OF assms(2)] by blast
    obtain e w2 where p: "do_patch_cm (Client inp) cm (cm\<lparr>Data := Some ((data_of cm)(flagKey \<mapsto> flagValuePaused))\<rparr>) w1 = (e, w2)"
      by fastforce
    have "calls_grow ?P w1 w2"
      by (rule calls_grow_issue [OF p [unfolded do_patch_cm_def]]) (simp add: call_of_remedies_def key)
    with calls_grow_trans [OF w1 this] assms(3) g Inr p w1 show ?thesis
      by (auto simp: CircuitBreak_found split: option.splits if_splits)
  qed
qed


lemma remedy_grow:
  assumes "kube_api cl view" "view_keys (view (cluster w))"
    and "remedy_for k (main_input wide cl a) w = (err, w')"
  shows "calls_grow (call_of_remedies (in_key (main_input wide cl a))) w w'"
  using assms Rollback_grow [of "main_input wide cl a" w err w'] ScaleUp_grow [of "main_input wide cl a" view w 0 err w']
    CircuitBreak_grow [of "main_input wide cl a" view w err w']
  by (cases k) (auto simp: remedy_for_def calls_grow_refl)

lemma main_input_namespace: "fst (in_key (main_input wide cl a)) = role_namespace"
  by (simp add: main_input_def role_namespace_def)

lemma dispatch_grow:
  assumes "kube_api cl view" "view_keys (view (cluster w))"
  shows "\<exists>k. fst k = role_namespace \<and> calls_grow (call_of_remedies k) w (dispatch wide (cfg (main_server fl cl)) a w)"
proof -
  obtain err w1 where r:
    "remedy_for (Kind (Classify wide (labels_of a))) (main_input wide cl a) w = (err, w1)" by fastforce
  have "calls_grow (call_of_remedies (in_key (main_input wide cl a))) w (dispatch wide (cfg (main_server fl cl)) a w)"
    using remedy_grow [OF assms r] r
    by (auto simp: dispatch_main Let_def calls_grow_refl remedy_for_def split: option.splits)
  with main_input_namespace [of wide cl a] show ?thesis by blast
qed

lemma acts_grow:
  assumes "kube_api cl view" "view_keys (view (cluster w))"
    and "\<And>k c. fst k = role_namespace \<Longrightarrow> call_of_remedies k c \<Longrightarrow> P c"
  shows "calls_grow P w (fold (run_act (dispatch wide (cfg (main_server fl cl)))) acts w)"
  using assms(2)
proof (induction acts arbitrary: w)
  case Nil
  then show ?case by (simp add: calls_grow_refl)
next
  case (Cons x acts)
  show ?case
  proof (cases x)
    case (LogAct l m)
    then show ?thesis using Cons.IH [of "log l m w"] Cons.prems by (simp add: calls_grow_def)
  next
    case (DispatchAct a)
    let ?w1 = "dispatch wide (cfg (main_server fl cl)) a w"
    have "calls_grow P w ?w1"
      using dispatch_grow [OF assms(1) Cons.prems, of wide fl a] assms(3)
      unfolding calls_grow_def list_all_iff by blast
    moreover have "view_keys (view (cluster ?w1))"
      using dispatch_refines [OF assms(1) Cons.prems refl] by blast
    ultimately show ?thesis using Cons.IH [of ?w1] calls_grow_trans DispatchAct by fastforce
  qed
qed

section \<open>An API server that enforces the Role\<close>

text \<open>A call one of whose requests is refused returns an error and changes nothing. A read whose
  informer may not list waits for the cache until its context ends and reports the timeout, not that
  the object does not exist.\<close>

definition read_enforced :: "bool \<Rightarrow> ('c \<Rightarrow> (api_error + 'o) \<times> 'c) \<Rightarrow> bool" where
  "read_enforced ok op \<longleftrightarrow> (\<not> ok \<longrightarrow> (\<forall>c. \<exists>e. fst (op c) = Inl e \<and> e \<noteq> NotFound))"

definition write_enforced :: "bool \<Rightarrow> ('c \<Rightarrow> kube_view) \<Rightarrow> ('c \<Rightarrow> api_error option \<times> 'c) \<Rightarrow> bool" where
  "write_enforced ok view op \<longleftrightarrow> (\<not> ok \<longrightarrow> (\<forall>c. fst (op c) \<noteq> None \<and> view (snd (op c)) = view c))"

definition rbac_enforced :: "(api_call \<Rightarrow> bool) \<Rightarrow> 'c client \<Rightarrow> ('c \<Rightarrow> kube_view) \<Rightarrow> bool" where
  "rbac_enforced ok cl view \<longleftrightarrow>
    (\<forall>k. read_enforced (ok (GetHPA k)) (get_hpa cl k)) \<and>
    (\<forall>k. read_enforced (ok (GetConfigMap k)) (get_cm cl k)) \<and>
    (\<forall>b h. write_enforced (ok (PatchHPA b h)) view (patch_hpa cl b h)) \<and>
    (\<forall>m. write_enforced (ok (CreateConfigMap m)) view (create_cm cl m)) \<and>
    (\<forall>b m. write_enforced (ok (PatchConfigMap b m)) view (patch_cm cl b m)) \<and>
    (\<forall>g k p. write_enforced (ok (PatchStatus g k p)) view (patch_status cl g k p))"

text \<open>A client on the in-memory store that asks for permission first.\<close>

definition guarded :: "bool \<Rightarrow> 'r \<Rightarrow> ('c \<Rightarrow> 'r \<times> 'c) \<Rightarrow> 'c \<Rightarrow> 'r \<times> 'c" where
  "guarded ok refusal op c = (if ok then op c else (refusal, c))"

definition rbac_client :: "(api_call \<Rightarrow> bool) \<Rightarrow> kube_view client" where
  "rbac_client ok = (let forbidden = OtherAPIError ''forbidden'' in \<lparr>
     get_hpa = (\<lambda>k. guarded (ok (GetHPA k)) (Inl forbidden) (get_hpa mem_client k)),
     patch_hpa = (\<lambda>b h. guarded (ok (PatchHPA b h)) (Some forbidden) (patch_hpa mem_client b h)),
     get_cm = (\<lambda>k. guarded (ok (GetConfigMap k)) (Inl forbidden) (get_cm mem_client k)),
     create_cm = (\<lambda>m. guarded (ok (CreateConfigMap m)) (Some forbidden) (create_cm mem_client m)),
     patch_cm = (\<lambda>b m. guarded (ok (PatchConfigMap b m)) (Some forbidden) (patch_cm mem_client b m)),
     patch_status = (\<lambda>g k p. guarded (ok (PatchStatus g k p)) (Some forbidden) (patch_status mem_client g k p))\<rparr>)"

lemma rbac_client_enforces: "rbac_enforced ok (rbac_client ok) id"
  by (simp add: rbac_enforced_def read_enforced_def write_enforced_def rbac_client_def guarded_def Let_def)

lemma read_ok_guarded:
  "read_ok view cached stored op \<Longrightarrow> e \<noteq> NotFound \<Longrightarrow> read_ok view cached stored (guarded ok (Inl e) op)"
  by (simp add: read_ok_def guarded_def)

lemma write_ok_guarded: "write_ok view effect op \<Longrightarrow> write_ok view effect (guarded ok (Some e) op)"
  by (simp add: write_ok_def guarded_def)

lemma rbac_client_api: "kube_cache (rbac_client ok) id id"
  using kube_apiD [OF kube_api_mem_client]
  by (simp add: kube_cache_def rbac_client_def Let_def read_ok_guarded write_ok_guarded)

text \<open>With the reads refused, only a rollback can succeed, and only the status of rollouts changes.\<close>

lemma read_refusedE:
  assumes "issue call op w = (r, w')" "read_enforced ok op" "\<not> ok"
  obtains e where "r = Inl e" "e \<noteq> NotFound"
  using issueD [OF assms(1)] assms(2,3) unfolding read_enforced_def by (metis fst_conv)

definition same_objects :: "kube_view \<Rightarrow> kube_view \<Rightarrow> bool" where
  "same_objects v v' \<longleftrightarrow> v_hpas v' = v_hpas v \<and> v_cms v' = v_cms v"

lemma same_objects_refl [simp]: "same_objects v v"
  by (simp add: same_objects_def)

lemma same_objects_trans: "same_objects u v \<Longrightarrow> same_objects v w \<Longrightarrow> same_objects u w"
  by (simp add: same_objects_def)

lemma blocked_remedy:
  assumes "kube_cache cl view cached" "rbac_enforced (call_allowed manager_cache plural) cl view"
    and "remedy_for k (main_input wide cl a) w = (err, w')"
  shows "same_objects (view (cluster w)) (view (cluster w')) \<and> (k \<in> {ScaleUp, CircuitBreak} \<longrightarrow> err \<noteq> None)"
proof (cases k)
  case NoRemedy
  then show ?thesis using assms(3) by (simp add: remedy_for_def)
next
  case Rollback
  let ?in = "main_input wide cl a"
  obtain e w1 where p: "do_patch_status cl argo_rollouts (in_key ?in) abort_patch w = (e, w1)" by fastforce
  have "view_abort (in_key ?in) v = Some v' \<Longrightarrow> same_objects v v'" for v v'
    by (auto simp: view_abort_def same_objects_def split: option.splits)
  then have "same_objects (view (cluster w)) (view (cluster w1))"
    using issue_write [OF p [unfolded do_patch_status_def] kube_cacheD(6) [OF assms(1)]] by (cases e) fastforce+
  then show ?thesis
    using Rollback assms(3) p by (auto simp: remedy_for_def Rollback_Apply_def Let_def split: option.splits)
next
  case ScaleUp
  let ?in = "main_input wide cl a"
  obtain r w1 where g: "do_get_hpa cl (in_key ?in) w = (r, w1)" by fastforce
  have "read_enforced (call_allowed manager_cache plural (GetHPA (in_key ?in))) (get_hpa cl (in_key ?in))"
    using assms(2) unfolding rbac_enforced_def by blast
  then obtain e where "r = Inl e"
    by (rule read_refusedE [OF g [unfolded do_get_hpa_def]]) (simp add: read_refused)
  then show ?thesis
    using ScaleUp assms(3) g issue_read(1) [OF g [unfolded do_get_hpa_def] kube_cacheD(1) [OF assms(1)]]
    by (auto simp: remedy_for_def ScaleUp_Apply_def)
next
  case CircuitBreak
  let ?in = "main_input wide cl a"
  obtain r w1 where g: "do_get_cm cl (in_key ?in) w = (r, w1)" by fastforce
  have "read_enforced (call_allowed manager_cache plural (GetConfigMap (in_key ?in))) (get_cm cl (in_key ?in))"
    using assms(2) unfolding rbac_enforced_def by blast
  then obtain e where "r = Inl e" "e \<noteq> NotFound"
    by (rule read_refusedE [OF g [unfolded do_get_cm_def]]) (simp add: read_refused)
  then show ?thesis
    using CircuitBreak assms(3) g issue_read(1) [OF g [unfolded do_get_cm_def] kube_cacheD(2) [OF assms(1)]]
    by (auto simp: remedy_for_def CircuitBreak_Apply_def IsNotFound_def)
qed

definition object_remedy :: "(nat \<Rightarrow> bool) \<Rightarrow> Alert \<Rightarrow> bool" where
  "object_remedy wide a \<longleftrightarrow> Kind (Classify wide (labels_of a)) \<in> {ScaleUp, CircuitBreak}"

lemma blocked_dispatch:
  assumes "kube_cache cl view cached" "rbac_enforced (call_allowed manager_cache plural) cl view"
  shows "same_objects (view (cluster w)) (view (cluster (dispatch wide (cfg (main_server fl cl)) a w)))
    \<and> errors w + (if object_remedy wide a then 1 else 0) \<le> errors (dispatch wide (cfg (main_server fl cl)) a w)"
proof -
  obtain err w1 where r:
    "remedy_for (Kind (Classify wide (labels_of a))) (main_input wide cl a) w = (err, w1)" by fastforce
  show ?thesis
    using blocked_remedy [OF assms r] errors_remedy [OF r] r
    by (cases err) (auto simp: dispatch_main Let_def object_remedy_def)
qed

lemma blocked_acts:
  assumes "kube_cache cl view cached" "rbac_enforced (call_allowed manager_cache plural) cl view"
    and "w' = fold (run_act (dispatch wide (cfg (main_server fl cl)))) acts w"
  shows "same_objects (view (cluster w)) (view (cluster w'))
    \<and> errors w + length (filter (object_remedy wide) (dispatched acts)) \<le> errors w'"
  using assms(3)
proof (induction acts arbitrary: w)
  case (Cons x acts)
  show ?case
  proof (cases x)
    case (LogAct l m)
    then show ?thesis using Cons.IH [of "log l m w"] Cons.prems by (auto split: if_splits)
  next
    case (DispatchAct a)
    note d = blocked_dispatch [OF assms(1,2), of w wide fl a]
    note ih = Cons.IH [of "dispatch wide (cfg (main_server fl cl)) a w"]
    show ?thesis
      using d ih Cons.prems same_objects_trans DispatchAct by (auto split: if_splits)
  qed
qed simp

section \<open>Properties\<close>

text \<open>
  C17: what the Role is for. Whatever is posted to the webhook and however the API calls fail, the
  requests behind every call the operator of \<open>main\<close> issues would all be allowed by its Role if the
  manager's cache were restricted to the Role's namespace; with the manager as \<open>main\<close> builds it, a
  call is allowed exactly if it is a write. And the Role allows no request outside the namespace
  \<open>reliability-lab\<close>, in particular none for the objects of all namespaces, no deletion anywhere, and
  no write to a Rollout itself.
\<close>

theorem operator_calls_allowed:
  assumes "kube_api cl view" "view_keys (view (cluster w))" "plural argo_rollouts = ''rollouts''"
    and "s = (main_server fl cl)\<lparr>dedupe := g\<rparr>" "w' = snd (snd (handleAlert wide now req_body (s, w)))"
  shows "(\<exists>cs. calls w' = calls w @ cs
      \<and> list_all (\<lambda>c. call_allowed (Some role_namespace) plural c
          \<and> (call_allowed manager_cache plural c \<longleftrightarrow> \<not> reads c)) cs)
    \<and> (\<forall>r. role_allows role_namespace operator_role r \<longrightarrow> req_namespace r = Some ''reliability-lab''
        \<and> req_verb r \<noteq> ''delete'' \<and> (req_resource r = ''rollouts'' \<longrightarrow> req_verb r \<in> {''get'', ''list'', ''watch''}))"
proof
  let ?P = "\<lambda>c. call_allowed (Some role_namespace) plural c \<and> (call_allowed manager_cache plural c \<longleftrightarrow> \<not> reads c)"
  show "\<exists>cs. calls w' = calls w @ cs \<and> list_all ?P cs"
  proof (cases "Decode dec_payload zero_payload req_body")
    case None
    then show ?thesis using assms(5) by (simp add: handleAlert_def)
  next
    case (Some p)
    have "calls_grow ?P w (fold (run_act (dispatch wide (cfg (main_server fl cl)))) (loop_acts Acquire now (Alerts p) g) w)"
      by (rule acts_grow [OF assms(1,2)]) (use call_allowed_iff [where plural = plural] assms(3) in \<open>simp add: manager_cache_def\<close>)
    then show ?thesis using assms(4,5) by (simp add: handleAlert_decoded [OF Some] calls_grow_def)
  qed
  show "\<forall>r. role_allows role_namespace operator_role r \<longrightarrow> req_namespace r = Some ''reliability-lab''
        \<and> req_verb r \<noteq> ''delete'' \<and> (req_resource r = ''rollouts'' \<longrightarrow> req_verb r \<in> {''get'', ''list'', ''watch''})"
    by (auto simp: role_defs role_namespace_def)
qed

theorem operator_calls_allowed_witness:
  "\<exists>cs. calls (snd (snd (handleAlert (\<lambda>_. True) 0 sample_body
       (main_server default_flags mem_client, mem_world sample_cluster)))) = cs
    \<and> list_all (call_allowed (Some role_namespace) (\<lambda>_. ''rollouts'')) cs"
  using operator_calls_allowed [where w = "mem_world sample_cluster" and wide = "\<lambda>_. True" and now = 0
      and req_body = sample_body and fl = default_flags and plural = "\<lambda>_. ''rollouts''",
      OF kube_api_mem_client _ refl main_server_dedupe [symmetric] refl]
  by (auto simp: mem_world_def list_all_iff)

text \<open>
  C18: the remedies as deployed. On an API server that enforces the operator's Role, with the manager
  as \<open>main\<close> builds it, no webhook request ever changes an autoscaler or a ConfigMap: the reads of the
  scale-up and the circuit-break remedy are refused, so that each of their dispatches ends in an
  error record, and of all the objects only the status of rollouts can change.
\<close>

theorem role_blocks_remedies:
  assumes "kube_cache cl view cached" "rbac_enforced (call_allowed manager_cache plural) cl view"
    and "s = (main_server fl cl)\<lparr>dedupe := g\<rparr>" "w' = snd (snd (handleAlert wide now req_body (s, w)))"
  shows "v_hpas (view (cluster w')) = v_hpas (view (cluster w)) \<and> v_cms (view (cluster w')) = v_cms (view (cluster w))
    \<and> (\<forall>p. Decode dec_payload zero_payload req_body = Some p \<longrightarrow>
        errors w + length (filter (\<lambda>a. Kind (Classify wide (labels_of a)) \<in> {ScaleUp, CircuitBreak})
          (fst (accepted Acquire now (Alerts p) g))) \<le> errors w')"
proof (cases "Decode dec_payload zero_payload req_body")
  case None
  then show ?thesis using assms(4) by (simp add: handleAlert_def)
next
  case (Some p)
  have "w' = fold (run_act (dispatch wide (cfg (main_server fl cl)))) (loop_acts Acquire now (Alerts p) g) w"
    using assms(3,4) by (simp add: handleAlert_decoded [OF Some])
  from blocked_acts [OF assms(1,2) this] show ?thesis
    by (simp add: Some same_objects_def dispatched_loop_acts object_remedy_def [abs_def])
qed

theorem role_blocks_remedies_witness:
  "let cl = rbac_client (call_allowed manager_cache (\<lambda>_. ''rollouts''));
       w' = snd (snd (handleAlert (\<lambda>_. True) 0 sample_body (main_server default_flags cl, mem_world sample_cluster)))
   in v_cms (cluster w') = v_cms sample_cluster \<and> 1 \<le> errors w'"
proof -
  have "object_remedy (\<lambda>_. True) sample_alert"
    by (simp add: object_remedy_def sample_alert_def labels_of_def go_get_def go_get_nil_def Classify_def Let_def)
  then show ?thesis
    using role_blocks_remedies [where w = "mem_world sample_cluster" and wide = "\<lambda>_. True" and now = 0
        and req_body = sample_body and fl = default_flags and plural = "\<lambda>_. ''rollouts''",
        OF rbac_client_api rbac_client_enforces main_server_dedupe [symmetric] refl] sample_accepted
    by (simp add: Let_def sample_decode object_remedy_def errors_def mem_world_def)
qed

end
