(* ===== verification/Orders_Watch.thy ===== *)
theory Orders_Watch
  imports Go_Strings
begin

text \<open>
  The circuit-break watcher of the orders service (\<open>services/orders-svc/cbwatch.go\<close>): reading the
  flag file, the start of the watcher, and its loop as a state machine in which the
  environment changes the file and delivers ticks, file-system events, errors, closed
  channels and the cancellation of the context. \<open>fsnotify\<close> is represented by these events and
  by the errors of its two set-up calls. The lemmas show what the flag means for every content
  of the file, that the shared flag follows the file at every read, and that it is frozen
  once the watcher has returned.
\<close>

section \<open>Reading the flag\<close>

definition flag_enabled :: "string \<Rightarrow> bool" where
  "flag_enabled b \<longleftrightarrow> EqualFold (TrimSpace b) ''true''"

text \<open>\<open>read\<close>: the file's content, or \<open>None\<close> when \<open>os.ReadFile\<close> fails; the new value of the shared
  flag and what is logged.\<close>

definition read_flag :: "string option \<Rightarrow> bool \<Rightarrow> bool \<times> log_record list" where
  "read_flag file paused = (case file of
     None \<Rightarrow> (False, [])
   | Some b \<Rightarrow>
      (let enabled = flag_enabled b
       in (\<not> enabled,
           if paused \<noteq> (\<not> enabled) then [(LevelInfo, ''circuit-break flag changed'')] else [])))"

text \<open>What the flag should be for a content of the file.\<close>

definition paused_of :: "string option \<Rightarrow> bool" where
  "paused_of file = (case file of None \<Rightarrow> False | Some b \<Rightarrow> \<not> flag_enabled b)"

section \<open>The watcher\<close>

datatype watch_state = Watching | Returned "string option"

record watch =
  flag_file :: "string option"
  paused :: bool
  wstate :: watch_state
  wlogs :: "log_record list"

definition do_read :: "watch \<Rightarrow> watch" where
  "do_read s = (let (p, ls) = read_flag (flag_file s) (paused s) in s\<lparr>paused := p, wlogs := wlogs s @ ls\<rparr>)"

text \<open>The first read, then \<open>NewWatcher\<close> and \<open>Add\<close>, whose errors end the watcher.\<close>

definition watch_start :: "string option \<Rightarrow> string option \<Rightarrow> string option \<Rightarrow> bool \<Rightarrow> watch" where
  "watch_start new_err add_err content paused0 =
    (let s = do_read \<lparr>flag_file = content, paused = paused0, wstate = Watching, wlogs = []\<rparr>
     in case new_err of
          Some e \<Rightarrow> s\<lparr>wstate := Returned (Some e)\<rparr>
        | None \<Rightarrow>
          (case add_err of Some e \<Rightarrow> s\<lparr>wstate := Returned (Some e)\<rparr> | None \<Rightarrow> s))"

datatype watch_event =
  FileChange "string option"
| TickEv
| FsEvent
| FsError
| EventsClosed
| ErrorsClosed
| CtxCancel

text \<open>The file changes whether or not the watcher runs; the other events are cases of its
  \<open>select\<close>.\<close>

inductive watch_step :: "watch \<Rightarrow> watch_event \<Rightarrow> watch \<Rightarrow> bool" where
  change: "watch_step s (FileChange f) (s\<lparr>flag_file := f\<rparr>)"
| tick: "wstate s = Watching \<Longrightarrow> watch_step s TickEv (do_read s)"
| event: "wstate s = Watching \<Longrightarrow> watch_step s FsEvent (do_read s)"
| error: "wstate s = Watching \<Longrightarrow>
    watch_step s FsError (s\<lparr>wlogs := wlogs s @ [(LevelError, ''fsnotify'')]\<rparr>)"
| events_closed: "wstate s = Watching \<Longrightarrow> watch_step s EventsClosed (s\<lparr>wstate := Returned None\<rparr>)"
| errors_closed: "wstate s = Watching \<Longrightarrow> watch_step s ErrorsClosed (s\<lparr>wstate := Returned None\<rparr>)"
| cancelled: "wstate s = Watching \<Longrightarrow> watch_step s CtxCancel (s\<lparr>wstate := Returned None\<rparr>)"

inductive_cases watch_stepE: "watch_step s e s'"
inductive_simps watch_step_tick: "watch_step s TickEv s'"
inductive_simps watch_step_event: "watch_step s FsEvent s'"
inductive_simps watch_step_change: "watch_step s (FileChange f) s'"

interpretation watch: machine "\<lambda>s. \<exists>n a c p. s = watch_start n a c p" watch_step .

section \<open>Lemmas\<close>

lemma read_flag_value [simp]: "fst (read_flag f p) = paused_of f"
  by (simp add: read_flag_def paused_of_def Let_def split: option.splits)

lemma do_read_sel [simp]:
  "paused (do_read s) = paused_of (flag_file s)" "flag_file (do_read s) = flag_file s" "wstate (do_read s) = wstate s"
  by (simp_all add: do_read_def case_prod_unfold Let_def)

lemma watch_start_sel [simp]:
  "paused (watch_start n a c p) = paused_of c" "flag_file (watch_start n a c p) = c"
  by (simp_all add: watch_start_def Let_def split: option.splits)

lemma returned_kept:
  assumes "watch.run s es t" "wstate s = Returned r"
  shows "wstate t = Returned r \<and> paused t = paused s"
  by (rule watch.run_invariant [OF assms(1)]) (use assms(2) in \<open>auto elim!: watch_stepE\<close>)

text \<open>As long as the file does not change, a flag that agrees with the file keeps agreeing.\<close>

definition no_change :: "watch_event list \<Rightarrow> bool" where
  "no_change es \<longleftrightarrow> list_all (\<lambda>e. \<forall>f. e \<noteq> FileChange f) es"

lemma agreement_kept:
  assumes "watch.run s es t" "no_change es" "paused s = paused_of (flag_file s)"
  shows "flag_file t = flag_file s \<and> paused t = paused_of (flag_file t)"
  using assms
proof (induction es arbitrary: t rule: rev_induct)
  case (snoc e es)
  then obtain u where u: "watch.run s es u" "watch_step u e t" by auto
  with snoc have "flag_file u = flag_file s" "paused u = paused_of (flag_file u)" "\<forall>f. e \<noteq> FileChange f"
    by (auto simp: no_change_def)
  with u(2) show ?case by (auto elim!: watch_stepE)
qed simp

lemma TrimSpace_flag_values:
  "paused_of (Some ''false'')" "\<not> paused_of (Some ''true'')" "\<not> paused_of None"
  by (simp add: paused_of_def, code_simp) (simp add: paused_of_def, code_simp, simp add: paused_of_def)

section \<open>Properties\<close>

text \<open>
  C35: the shared flag follows the file. In any run of the watcher,
  after a tick or a file-system event it handled, and until the file changes again, the
  flag is the one the file asks for: not paused when the file is missing, otherwise paused
  unless the trimmed content is \<open>true\<close> in any case. So a change of the file takes effect at the
  latest with the first tick after it.
\<close>

theorem watch_follows_file:
  assumes "watch.run s es u" "wstate u = Watching" "e = TickEv \<or> e = FsEvent" "watch_step u e v"
    and "watch.run v es' t" "no_change es'"
  shows "flag_file t = flag_file u \<and> paused t = (case flag_file t of None \<Rightarrow> False
    | Some b \<Rightarrow> \<not> EqualFold (TrimSpace b) ''true'')"
proof -
  have "v = do_read u"
    using assms(3,4) by (auto simp: watch_step_tick watch_step_event)
  with agreement_kept [OF assms(5,6)] show ?thesis
    by (simp add: paused_of_def flag_enabled_def split: option.splits)
qed

theorem watch_follows_file_witness:
  "\<exists>u v. watch.run (watch_start None None (Some ''true'') False) [FileChange (Some ''false'')] u
    \<and> watch_step u TickEv v \<and> paused v"
proof -
  let ?s = "watch_start None None (Some ''true'') False"
  let ?u = "?s\<lparr>flag_file := Some ''false''\<rparr>"
  have u: "watch.run ?s [FileChange (Some ''false'')] ?u"
    by (simp add: watch.run_Cons_iff watch_step_change)
  have w: "wstate ?u = Watching" by (simp add: watch_start_def do_read_def Let_def split: prod.splits)
  have v: "watch_step ?u TickEv (do_read ?u)" by (simp add: watch_step_tick w)
  have "paused (do_read ?u) = (\<not> EqualFold (TrimSpace ''false'') ''true'')"
    using watch_follows_file [OF u w _ v, of "[]" "do_read ?u"] by (simp add: no_change_def)
  then have "paused (do_read ?u)"
    using TrimSpace_flag_values(1) by (simp add: paused_of_def flag_enabled_def)
  with u v show ?thesis by blast
qed

text \<open>
  The watcher fails open on a missing file and is frozen by its own end. Whatever the flag
  was, the first read of a missing file lifts the brake; but once the watcher has returned,
  because it was cancelled, its channels were closed, or \<open>NewWatcher\<close> or \<open>Add\<close> failed, no later
  change of the file reaches the flag, which keeps the value of its last read.
\<close>

theorem watch_missing_and_frozen:
  "paused (watch_start n a None p) = False
   \<and> (\<forall>es t. watch.run (watch_start (Some err) a c p) es t \<longrightarrow>
        wstate t = Returned (Some err) \<and> paused t = paused_of c)
   \<and> (\<forall>es t. watch.run (watch_start None (Some err) c p) es t \<longrightarrow>
        wstate t = Returned (Some err) \<and> paused t = paused_of c)
   \<and> (\<forall>s es t r. wstate s = Returned r \<and> watch.run s es t \<longrightarrow>
        wstate t = Returned r \<and> paused t = paused s)"
proof -
  have started: "wstate (watch_start (Some err) a c p) = Returned (Some err)"
    "wstate (watch_start None (Some err) c p) = Returned (Some err)"
    by (simp_all add: watch_start_def Let_def)
  show ?thesis
    using returned_kept [OF _ started(1)] returned_kept [OF _ started(2)] returned_kept
      TrimSpace_flag_values(3)
    by auto
qed

theorem watch_missing_and_frozen_witness:
  "\<not> paused (watch_start (None :: string option) None None True)
   \<and> paused (watch_start None (Some ''no such directory'') (Some ''false'') False)"
  using watch_missing_and_frozen [of None None True "''no such directory''" "Some ''false''"]
    TrimSpace_flag_values(1) by simp

end
