(* ===== verification/Deployment.thy ===== *)
theory Deployment
  imports Operator_Access Orders_Watch Alert_Wire
begin

text \<open>
  The operator in its deployment: the objects the manifests create (\<open>k8s/base\<close>), the repeated
  notifications of AlertManager (\<open>k8s/observability/kube-prometheus-stack-values.yaml\<close>), and the
  other controllers that touch the same objects: the kubelet, which projects the flags ConfigMap
  into the pods of the orders service, and Argo CD, which syncs the manifests
  (\<open>gitops/apps/workloads.yaml\<close>). Both are parameters with what their documentation says of them.
  The lemmas show what every installed alert does to the deployed objects, how a persistent alert
  drives an autoscaler to its maximum, that the operator never lifts the brake it set, and that
  Argo CD does.
\<close>

section \<open>The deployed objects\<close>

abbreviation lab :: string where "lab \<equiv> ''reliability-lab''"

text \<open>
  The kubelet projects a ConfigMap into the pod as one file per key. \<open>project\<close> is the content
  of the file of the key \<open>publish_enabled\<close>, or \<open>None\<close> when there is no such file;
  \<open>projects_flag\<close> is what the orders service relies on from it.
\<close>

definition projects_flag :: "(config_map option \<Rightarrow> string option) \<Rightarrow> bool" where
  "projects_flag project \<longleftrightarrow> project None = None \<and> (\<forall>cm. project (Some cm) = data_of cm flagKey)"

definition kubelet_project :: "config_map option \<Rightarrow> string option" where
  "kubelet_project stored = (case stored of None \<Rightarrow> None | Some cm \<Rightarrow> data_of cm flagKey)"

abbreviation flags_key :: nsname where
  "flags_key \<equiv> (''reliability-lab'', ''orders-svc-flags'')"

definition inventory_hpa :: hpa where
  "inventory_hpa = \<lparr>hpa_key = (lab, ''inventory-svc''), MinReplicas = Some 1, MaxReplicas = 8\<rparr>"

definition flags_cm :: config_map where
  "flags_cm = \<lparr>cm_key = flags_key, Data = Some [''publish_enabled'' \<mapsto> ''true'']\<rparr>"

definition deployed :: kube_view where
  "deployed = \<lparr>v_hpas = [(lab, ''payments-svc'') \<mapsto> payments_hpa, (lab, ''inventory-svc'') \<mapsto> inventory_hpa],
     v_cms = [flags_key \<mapsto> flags_cm], v_aborts = [(lab, ''orders-svc'') \<mapsto> False]\<rparr>"

section \<open>The other controllers\<close>

text \<open>
  Argo CD with automated sync and self-healing makes every field the manifests give equal to its
  value there, and leaves status fields alone. \<open>argo_sync\<close> is a synchronisation that does so.
\<close>

definition heals :: "(kube_view \<Rightarrow> kube_view) \<Rightarrow> kube_view \<Rightarrow> bool" where
  "heals sync desired \<longleftrightarrow>
    (\<forall>v k h. v_hpas desired k = Some h \<longrightarrow> (\<exists>h'. v_hpas (sync v) k = Some h'
        \<and> MinReplicas h' = MinReplicas h \<and> MaxReplicas h' = MaxReplicas h)) \<and>
    (\<forall>v k m x val. v_cms desired k = Some m \<and> data_of m x = Some val \<longrightarrow>
        (\<exists>m'. v_cms (sync v) k = Some m' \<and> data_of m' x = Some val)) \<and>
    (\<forall>v. v_aborts (sync v) = v_aborts v) \<and> (\<forall>v. view_keys v \<longrightarrow> view_keys (sync v))"

definition argo_sync :: "kube_view \<Rightarrow> kube_view \<Rightarrow> kube_view" where
  "argo_sync desired v = v\<lparr>v_hpas := v_hpas v ++ v_hpas desired,
     v_cms := (\<lambda>k. case v_cms desired k of
        None \<Rightarrow> v_cms v k
      | Some m \<Rightarrow> Some \<lparr>cm_key = k, Data = Some ((case v_cms v k of None \<Rightarrow> Map.empty | Some c \<Rightarrow> data_of c) ++ data_of m)\<rparr>)\<rparr>"

section \<open>Repeated notifications\<close>

text \<open>AlertManager's \<open>repeat_interval\<close>; \<open>alert_repeats\<close> is the server and the world after \<open>n\<close> requests with
  the same payload, one every \<open>period\<close>.\<close>

definition repeat_interval :: duration where
  "repeat_interval = 5 * minute"

definition alert_repeats :: "(nat \<Rightarrow> bool) \<Rightarrow> string \<Rightarrow> instant \<Rightarrow> duration \<Rightarrow> nat \<Rightarrow> 'c Server \<times> 'c world \<Rightarrow>
    'c Server \<times> 'c world" where
  "alert_repeats wide req_body t0 period n sw =
    fold (\<lambda>k. handleAlert_state wide (t0 + int k * period) req_body) [0..<n] sw"

section \<open>Lemmas\<close>

lemma projects_flag_kubelet: "projects_flag kubelet_project"
  by (simp add: projects_flag_def kubelet_project_def)

lemma deployed_keys: "view_keys deployed"
  by (auto simp: deployed_def view_keys_def payments_hpa_def inventory_hpa_def flags_cm_def split: if_splits)

lemma healed_data:
  assumes "heals sync desired" "v_cms desired k = Some m" "data_of m x = Some val"
  shows "\<exists>m'. v_cms (sync v) k = Some m' \<and> data_of m' x = Some val"
  using assms unfolding heals_def by blast

lemma argo_sync_heals: "view_keys desired \<Longrightarrow> heals (argo_sync desired) desired"
  by (auto simp: heals_def argo_sync_def view_keys_def data_of_def map_add_Some_iff split: option.splits)


text \<open>One request with a single firing alert, on an API that serves.\<close>

lemma single_alert:
  assumes api: "serving_api cl view" "kube_api cl view" and keys: "view_keys (view (cluster w))"
    and p: "Decode dec_payload zero_payload req_body = Some p" "Alerts p = [al]" "Firing al"
    and acq: "Acquire (Fingerprint al) now g = (ok, g')"
    and run: "handleAlert_state wide now req_body ((main_server fl cl)\<lparr>dedupe := g\<rparr>, w) = (s', w')"
  shows "s' = (main_server fl cl)\<lparr>dedupe := g'\<rparr>"
    and "view (cluster w') = (if ok then spec_run wide [al] (view (cluster w)) else view (cluster w))"
    and "view_keys (view (cluster w'))"
proof -
  have acc: "accepted Acquire now (Alerts p) g = (if ok then [al] else [], g')"
    using p(2,3) acq by simp
  let ?acts = "loop_acts Acquire now (Alerts p) g"
  have r: "s' = (main_server fl cl)\<lparr>dedupe := g'\<rparr>"
    "w' = fold (run_act (dispatch wide (cfg (main_server fl cl)))) ?acts w"
    using run acc by (auto simp: handleAlert_state_def handleAlert_decoded [OF p(1)])
  show "s' = (main_server fl cl)\<lparr>dedupe := g'\<rparr>" by (rule r(1))
  show "view (cluster w') = (if ok then spec_run wide [al] (view (cluster w)) else view (cluster w))"
    using acts_serve [OF api keys, of wide fl ?acts] acc by (simp add: r(2) dispatched_loop_acts)
  show "view_keys (view (cluster w'))"
    using acts_refine [OF api(2) keys loop_acts_logs [of Acquire now "Alerts p" g] r(2)] by blast
qed

text \<open>Which of the repetitions pass the gate: with a period between half the cooldown and the
  cooldown, every second one.\<close>

definition last_grant :: "instant \<Rightarrow> duration \<Rightarrow> nat \<Rightarrow> instant option" where
  "last_grant t0 period n = (if n = 0 then None else Some (t0 + int (2 * ((n - 1) div 2)) * period))"

lemma repeat_acquire:
  assumes "cooldown_ok g" "cooldown g \<le> 2 * period" "period < cooldown g" "fp \<noteq> ''''"
    and "seen g fp = last_grant t0 period n"
    and "Acquire fp (t0 + int n * period) g = (ok, g')"
  shows "ok = even n \<and> seen g' fp = last_grant t0 period (Suc n) \<and> cooldown g' = cooldown g"
proof -
  let ?now = "t0 + int n * period"
  have ok: "ok \<longleftrightarrow> \<not> (\<exists>t. seen g fp = Some t \<and> ?now - t < cooldown g)"
    using Acquire_iff [OF assms(1,4), of ?now] assms(6) by simp
  have "(\<exists>t. seen g fp = Some t \<and> ?now - t < cooldown g) \<longleftrightarrow> odd n"
  proof (cases "n = 0")
    case False
    then have "\<exists>m. n = Suc (2 * m) \<or> n = 2 * m + 2" by presburger
    then obtain m where m: "n = Suc (2 * m) \<or> n = 2 * m + 2" by blast
    then show ?thesis
      using assms(2,3,5) by (auto simp: last_grant_def algebra_simps)
  qed (use assms(5) in \<open>simp add: last_grant_def\<close>)
  with ok have even: "ok = even n" by simp
  show ?thesis
  proof (cases ok)
    case True
    then have "seen g' fp = Some ?now"
      using seen_Acquire_granted [OF assms(1,4), of ?now g' fp ?now] assms(6) by simp
    with even True assms(6) show ?thesis by (auto simp: last_grant_def cooldown_Acquire elim!: evenE)
  next
    case False
    then have "g' = g" using Acquire_refused [of fp ?now g g'] assms(6) by simp
    with even False assms(5) show ?thesis by (auto simp: last_grant_def elim!: oddE)
  qed
qed


text \<open>The view after a number of scale-ups of one autoscaler.\<close>

definition scaled :: "nsname \<Rightarrow> nat \<Rightarrow> kube_view \<Rightarrow> kube_view" where
  "scaled k n v = v\<lparr>v_hpas := (v_hpas v)(k := map_option (scale_hpa 0 ^^ n) (v_hpas v k))\<rparr>"

lemma spec_run_scale:
  assumes "Kind (Classify wide (labels_of al)) = ScaleUp" "Target (Classify wide (labels_of al)) = target"
    and "v_hpas v (lab, target) \<noteq> None"
  shows "spec_run wide [al] (scaled (lab, target) n v) = scaled (lab, target) (Suc n) v"
  using assms by (auto simp: spec_step_def scaled_def)

lemma repeats_state:
  assumes api: "serving_api cl view" "kube_api cl view" and keys: "view_keys (view (cluster w))"
    and p: "Decode dec_payload zero_payload req_body = Some p" "Alerts p = [al]" "Firing al" "Fingerprint al \<noteq> ''''"
    and cls: "Kind (Classify wide (labels_of al)) = ScaleUp" "Target (Classify wide (labels_of al)) = target"
    and ex: "v_hpas (view (cluster w)) (lab, target) \<noteq> None"
    and per: "5 * minute \<le> period" "period < 10 * minute"
  shows "\<exists>g w'. alert_repeats wide req_body t0 period n (main_server fl cl, w) = ((main_server fl cl)\<lparr>dedupe := g\<rparr>, w')
    \<and> cooldown g = 10 * minute \<and> seen g (Fingerprint al) = last_grant t0 period n \<and> view_keys (view (cluster w'))
    \<and> view (cluster w') = scaled (lab, target) ((n + 1) div 2) (view (cluster w))"
proof (induction n)
  case 0
  have "scaled (lab, target) 0 (view (cluster w)) = view (cluster w)"
    using ex by (auto simp: scaled_def fun_upd_idem option.map_id0)
  with keys show ?case
    by (intro exI [of _ "NewDedupe (10 * minute)"] exI [of _ w], unfold main_server_dedupe)
      (simp add: alert_repeats_def last_grant_def NewDedupe_def)
next
  case (Suc n)
  then obtain g w1 where IH: "alert_repeats wide req_body t0 period n (main_server fl cl, w) = ((main_server fl cl)\<lparr>dedupe := g\<rparr>, w1)"
    "cooldown g = 10 * minute" "seen g (Fingerprint al) = last_grant t0 period n" "view_keys (view (cluster w1))"
    "view (cluster w1) = scaled (lab, target) ((n + 1) div 2) (view (cluster w))" by blast
  let ?now = "t0 + int n * period"
  obtain ok g' where acq: "Acquire (Fingerprint al) ?now g = (ok, g')" by fastforce
  obtain s' w' where step: "handleAlert_state wide ?now req_body ((main_server fl cl)\<lparr>dedupe := g\<rparr>, w1) = (s', w')"
    by fastforce
  note one = single_alert [OF api IH(4) p(1-3) acq step]
  have cg: "cooldown_ok g" using IH(2) by (simp add: cooldown_ok_def max_duration_def)
  have gate: "ok = even n \<and> seen g' (Fingerprint al) = last_grant t0 period (Suc n) \<and> cooldown g' = cooldown g"
    by (rule repeat_acquire [OF cg _ _ p(4) IH(3) acq]) (use per IH(2) in simp_all)
  have run: "alert_repeats wide req_body t0 period (Suc n) (main_server fl cl, w) = (s', w')"
    using IH(1) step by (simp add: alert_repeats_def)
  have "view (cluster w') = scaled (lab, target) ((Suc n + 1) div 2) (view (cluster w))"
    using one(2) gate spec_run_scale [OF cls ex] by (cases "even n") (simp_all add: IH(5))
  with run one gate IH(2) show ?case by auto
qed

section \<open>Properties\<close>

text \<open>
  C13: a page that keeps firing scales its target to the maximum, and no further. While the payments
  fast-burn alert keeps firing, AlertManager sends it again every \<open>repeat_interval\<close>, and the gate lets
  every second request through: after \<open>n\<close> requests the deployed autoscaler's minimum is two more for
  each of the \<open>(n + 1) div 2\<close> remedies, capped at ten, which is reached with the seventh request, half
  an hour after the first; nothing else has changed. The same holds of every period between
  half the cooldown and the cooldown.
\<close>

theorem persistent_page_scales:
  assumes "serving_api cl view" "kube_api cl view" "view (cluster w) = deployed"
    and "Decode dec_payload zero_payload req_body = Some p" "Alerts p = [al]" "Firing al" "Fingerprint al \<noteq> ''''"
    and "go_get (labels_of al) ''severity'' = ''page''" "go_get (labels_of al) ''service'' = ''payments''"
    and "go_get (labels_of al) ''burn_speed'' = ''fast''"
    and "repeat_interval \<le> period" "period < 2 * repeat_interval"
    and "alert_repeats wide req_body t0 period n (main_server fl cl, w) = (s', w')"
  shows "\<exists>h. v_hpas (view (cluster w')) (lab, ''payments-svc'') = Some h
    \<and> sint (scale_current h) = min 10 (2 + 2 * int ((n + 1) div 2)) \<and> MaxReplicas h = 10
    \<and> view (cluster w') = deployed\<lparr>v_hpas := (v_hpas deployed)((lab, ''payments-svc'') \<mapsto> h)\<rparr>
    \<and> (7 \<le> n \<longrightarrow> sint (scale_current h) = 10)"
proof -
  have cls: "Kind (Classify wide (labels_of al)) = ScaleUp" "Target (Classify wide (labels_of al)) = ''payments-svc''"
    using assms(8-10) by (simp_all add: Classify_def Let_def)
  have stored: "v_hpas deployed (lab, ''payments-svc'') = Some payments_hpa" by (simp add: deployed_def)
  have "view (cluster w') = scaled (lab, ''payments-svc'') ((n + 1) div 2) deployed"
    using repeats_state [OF assms(1,2) _ assms(4-7) cls, of w period t0 n fl] assms(3,11-13) deployed_keys stored
    by (auto simp: repeat_interval_def)
  moreover have "MaxReplicas ((scale_hpa 0 ^^ k) payments_hpa) = 10
      \<and> sint (scale_current ((scale_hpa 0 ^^ k) payments_hpa)) = min 10 (2 + 2 * int k)" for k
    using scale_hpa_times [of payments_hpa 0 k]
    by (simp add: payments_hpa_def scale_current_def scale_step_def le32_def)
  ultimately show ?thesis
    by (auto simp: scaled_def stored min_def)
qed


text \<open>A notification of the payments fast burn, as AlertManager sends it.\<close>

definition payments_page :: wire_payload where
  "payments_page = \<lparr>w_version = ''4'', w_groupKey = '''', w_pstatus = ''firing'', w_receiver = ''remediation-operator'',
     w_alerts = Some [\<lparr>w_status = ''firing'',
       w_labels = Some [(''severity'', ''page''), (''service'', ''payments''), (''burn_speed'', ''fast'')],
       w_annotations = None, w_startsAt = zero_time, w_endsAt = zero_time, w_fingerprint = ''f2''\<rparr>]\<rparr>"

lemma payments_page_times: "times_ok payments_page"
  by (simp add: times_ok_def payments_page_def time_ok_def civil_ok_def zero_time_def daysIn_def isLeap_def)

lemma payments_page_alert:
  obtains al where "Alerts (received_payload payments_page) = [al]" "Firing al" "Fingerprint al \<noteq> ''''"
    "go_get (labels_of al) ''severity'' = ''page''" "go_get (labels_of al) ''service'' = ''payments''"
    "go_get (labels_of al) ''burn_speed'' = ''fast''"
  by (rule that [of "received_alert (hd (the (w_alerts payments_page)))"])
    (simp_all add: received_payload_def payments_page_def received_alert_def labels_of_def received_map_ascii
      to_valid_ascii Firing_def)

theorem persistent_page_scales_witness:
  "\<exists>req_body h. marshal_payload payments_page = Some req_body
    \<and> v_hpas (cluster (snd (alert_repeats (\<lambda>_. True) req_body 0 repeat_interval 3
        (main_server default_flags mem_client, mem_world deployed)))) (lab, ''payments-svc'') = Some h
    \<and> sint (scale_current h) = 6"
proof -
  obtain req_body where body: "marshal_payload payments_page = Some req_body"
    "Decode dec_payload zero_payload req_body = Some (received_payload payments_page)"
    using payload_decodes [OF payments_page_times] by blast
  obtain al where al: "Alerts (received_payload payments_page) = [al]" "Firing al" "Fingerprint al \<noteq> ''''"
    "go_get (labels_of al) ''severity'' = ''page''" "go_get (labels_of al) ''service'' = ''payments''"
    "go_get (labels_of al) ''burn_speed'' = ''fast''" by (rule payments_page_alert)
  let ?run = "alert_repeats (\<lambda>_. True) req_body 0 repeat_interval 3 (main_server default_flags mem_client, mem_world deployed)"
  have w: "id (cluster (mem_world deployed)) = deployed" by simp
  have per: "repeat_interval \<le> repeat_interval" "repeat_interval < 2 * repeat_interval"
    by (simp_all add: repeat_interval_def)
  from persistent_page_scales [where wide = "\<lambda>_. True" and ?t0.0 = 0 and n = 3 and fl = default_flags,
      OF serving_mem_client kube_api_mem_client w body(2) al per prod.collapse [symmetric]]
  obtain h where "v_hpas (cluster (snd ?run)) (lab, ''payments-svc'') = Some h" "sint (scale_current h) = 6" by auto
  with body(1) show ?thesis by blast
qed


text \<open>The flag of a view.\<close>

definition flag_of :: "kube_view \<Rightarrow> string option" where
  "flag_of v = (case v_cms v flags_key of None \<Rightarrow> None | Some cm \<Rightarrow> data_of cm flagKey)"

lemma spec_step_brake:
  assumes "spec_step wide al v = Some v'" "flag_of v = Some flagValuePaused"
  shows "flag_of v' = Some flagValuePaused"
  using assms
  by (auto simp: spec_step_def flag_of_def Let_def brake_def Classify_def split: Kind.splits option.splits if_splits)

lemma spec_path_brake:
  "spec_path wide xs v = Some v' \<Longrightarrow> flag_of v = Some flagValuePaused \<Longrightarrow> flag_of v' = Some flagValuePaused"
  by (induction wide xs v rule: spec_path.induct)
    (auto simp: Option.bind_eq_Some_conv split: if_splits dest: spec_step_brake)

text \<open>What the classifier makes of an alert that carries the labels of an installed rule; Prometheus and
  AlertManager may have added others.\<close>

lemma go_get_carried: "rule \<subseteq>\<^sub>m ls \<Longrightarrow> rule k = Some v \<Longrightarrow> go_get ls k = v"
  by (metis domI go_get_def map_le_def option.simps(5))

lemma carried_kinds:
  assumes "rule \<subseteq>\<^sub>m ls"
  shows "rule \<in> {OrdersSLOFastBurn, OrdersLatencyHigh} \<Longrightarrow>
      Kind (Classify wide ls) = Rollback \<and> Target (Classify wide ls) = ''orders-svc''"
    and "rule = PaymentsSLOFastBurn \<Longrightarrow>
      Kind (Classify wide ls) = ScaleUp \<and> Target (Classify wide ls) = ''payments-svc''"
    and "rule = InventorySLOFastBurn \<Longrightarrow>
      Kind (Classify wide ls) = ScaleUp \<and> Target (Classify wide ls) = ''inventory-svc''"
    and "rule \<in> {EmailWorkerBacklogGrowing, EmailWorkerOOMRestart} \<Longrightarrow>
      Kind (Classify wide ls) = CircuitBreak \<and> Target (Classify wide ls) = ''orders-svc-flags''"
    and "rule \<in> {OrdersSLOSlowBurn, PaymentsSLOSlowBurn} \<Longrightarrow> Kind (Classify wide ls) = NoRemedy"
  using go_get_carried [OF assms, of "''severity''"] go_get_carried [OF assms, of "''service''"]
    go_get_carried [OF assms, of "''slo''"] go_get_carried [OF assms, of "''burn_speed''"]
  by (auto simp: alert_rule_defs rule_labels_def Classify_def Let_def)

lemma scaled_deployed:
  "scale_hpa 0 payments_hpa = payments_hpa\<lparr>MinReplicas := Some 4\<rparr>"
  "scale_hpa 0 inventory_hpa = inventory_hpa\<lparr>MinReplicas := Some 3\<rparr>"
  by (simp_all add: scale_hpa_def scale_target_def scale_current_def scale_step_def payments_hpa_def
      inventory_hpa_def le32_def lt32_def)

lemma granted_first: "fp \<noteq> '''' \<Longrightarrow> \<exists>g. Acquire fp t (NewDedupe (10 * minute)) = (True, g)"
  by (simp add: Acquire_def Let_def NewDedupe_def)

text \<open>
  C40: every installed alert rule works. A request to the freshly started operator, on an API that
  serves, with one firing alert that carries the labels of one of the eight rules the repository
  installs, has the effect on the deployed objects that the rule's runbook describes, and no other:
  the two orders pages abort the rollout, the payments and the inventory fast burn raise the minimum
  of their own autoscaler by two, the two email-worker pages set the flag to \<open>false\<close>, and the two
  slow burns change nothing.
\<close>

theorem installed_rules_effective:
  assumes "serving_api cl view" "kube_api cl view" "view (cluster w) = deployed"
    and "Decode dec_payload zero_payload req_body = Some p" "Alerts p = [al]" "Firing al" "Fingerprint al \<noteq> ''''"
    and "rule \<subseteq>\<^sub>m labels_of al"
    and "handleAlert_state wide now req_body (main_server fl cl, w) = (s', w')"
  shows "(rule \<in> {OrdersSLOFastBurn, OrdersLatencyHigh} \<longrightarrow>
      view (cluster w') = deployed\<lparr>v_aborts := [(lab, ''orders-svc'') \<mapsto> True]\<rparr>)
    \<and> (rule = PaymentsSLOFastBurn \<longrightarrow> view (cluster w') = deployed\<lparr>v_hpas :=
        (v_hpas deployed)((lab, ''payments-svc'') \<mapsto> payments_hpa\<lparr>MinReplicas := Some 4\<rparr>)\<rparr>)
    \<and> (rule = InventorySLOFastBurn \<longrightarrow> view (cluster w') = deployed\<lparr>v_hpas :=
        (v_hpas deployed)((lab, ''inventory-svc'') \<mapsto> inventory_hpa\<lparr>MinReplicas := Some 3\<rparr>)\<rparr>)
    \<and> (rule \<in> {EmailWorkerBacklogGrowing, EmailWorkerOOMRestart} \<longrightarrow> view (cluster w') = deployed\<lparr>v_cms :=
        [flags_key \<mapsto> flags_cm\<lparr>Data := Some [''publish_enabled'' \<mapsto> ''false'']\<rparr>]\<rparr>)
    \<and> (rule \<in> {OrdersSLOSlowBurn, PaymentsSLOSlowBurn} \<longrightarrow> view (cluster w') = deployed)"
proof -
  obtain g where g: "Acquire (Fingerprint al) now (NewDedupe (10 * minute)) = (True, g)"
    using granted_first [OF assms(7)] by blast
  have "view_keys (view (cluster w))" using assms(3) deployed_keys by simp
  from single_alert(2) [OF assms(1,2) this assms(4-6) g, of wide fl s' w', unfolded main_server_dedupe, OF assms(9)]
  have v: "view (cluster w') = spec_run wide [al] deployed" by (simp add: assms(3))
  note k = carried_kinds [OF assms(8), of wide]
  have run: "spec_run wide [al] deployed = (case spec_step wide al deployed of Some v' \<Rightarrow> v' | None \<Rightarrow> deployed)"
    by simp
  have 1: "view (cluster w') = deployed\<lparr>v_aborts := [(lab, ''orders-svc'') \<mapsto> True]\<rparr>"
    if "rule \<in> {OrdersSLOFastBurn, OrdersLatencyHigh}"
    using k(1) [OF that] unfolding v run by (simp add: spec_step_def deployed_def)
  have 2: "view (cluster w') = deployed\<lparr>v_hpas :=
        (v_hpas deployed)((lab, ''payments-svc'') \<mapsto> payments_hpa\<lparr>MinReplicas := Some 4\<rparr>)\<rparr>"
    if "rule = PaymentsSLOFastBurn"
    using k(2) [OF that] unfolding v run by (simp add: spec_step_def deployed_def scaled_deployed)
  have 3: "view (cluster w') = deployed\<lparr>v_hpas :=
        (v_hpas deployed)((lab, ''inventory-svc'') \<mapsto> inventory_hpa\<lparr>MinReplicas := Some 3\<rparr>)\<rparr>"
    if "rule = InventorySLOFastBurn"
    using k(3) [OF that] unfolding v run by (simp add: spec_step_def deployed_def scaled_deployed)
  have 4: "view (cluster w') = deployed\<lparr>v_cms :=
        [flags_key \<mapsto> flags_cm\<lparr>Data := Some [''publish_enabled'' \<mapsto> ''false'']\<rparr>]\<rparr>"
    if "rule \<in> {EmailWorkerBacklogGrowing, EmailWorkerOOMRestart}"
    using k(4) [OF that] unfolding v run
    by (simp add: spec_step_def Let_def deployed_def brake_def flags_cm_def data_of_def flagKey_def flagValuePaused_def)
  have 5: "view (cluster w') = deployed" if "rule \<in> {OrdersSLOSlowBurn, PaymentsSLOSlowBurn}"
    using k(5) [OF that] unfolding v run by (simp add: spec_step_def)
  from 1 2 3 4 5 show ?thesis by blast
qed

text \<open>The inventory fast burn as AlertManager sends it, with a label that the cluster added.\<close>

definition inventory_page :: wire_payload where
  "inventory_page = \<lparr>w_version = ''4'', w_groupKey = '''', w_pstatus = ''firing'', w_receiver = ''remediation-operator'',
     w_alerts = Some [\<lparr>w_status = ''firing'',
       w_labels = Some [(''alertname'', ''InventorySLOFastBurn''), (''severity'', ''page''),
         (''slo'', ''inventory_availability''), (''service'', ''inventory''), (''burn_speed'', ''fast''),
         (''prometheus'', ''monitoring/kps'')],
       w_annotations = None, w_startsAt = zero_time, w_endsAt = zero_time, w_fingerprint = ''f3''\<rparr>]\<rparr>"

lemma inventory_page_times: "times_ok inventory_page"
  by (simp add: times_ok_def inventory_page_def time_ok_def civil_ok_def zero_time_def daysIn_def isLeap_def)

lemma inventory_page_alert:
  obtains al where "Alerts (received_payload inventory_page) = [al]" "Firing al" "Fingerprint al \<noteq> ''''"
    "InventorySLOFastBurn \<subseteq>\<^sub>m labels_of al"
  by (rule that [of "received_alert (hd (the (w_alerts inventory_page)))"])
    (simp_all add: received_payload_def inventory_page_def received_alert_def labels_of_def received_map_ascii
      to_valid_ascii Firing_def map_le_def InventorySLOFastBurn_def rule_labels_def)

theorem installed_rules_effective_witness:
  "\<exists>req_body. marshal_payload inventory_page = Some req_body
    \<and> v_hpas (cluster (snd (handleAlert_state (\<lambda>_. True) 0 req_body
        (main_server default_flags mem_client, mem_world deployed)))) (lab, ''inventory-svc'')
      = Some (inventory_hpa\<lparr>MinReplicas := Some 3\<rparr>)"
proof -
  obtain req_body where body: "marshal_payload inventory_page = Some req_body"
    "Decode dec_payload zero_payload req_body = Some (received_payload inventory_page)"
    using payload_decodes [OF inventory_page_times] by blast
  obtain al where al: "Alerts (received_payload inventory_page) = [al]" "Firing al" "Fingerprint al \<noteq> ''''"
    "InventorySLOFastBurn \<subseteq>\<^sub>m labels_of al" by (rule inventory_page_alert)
  have w: "id (cluster (mem_world deployed)) = deployed" by simp
  from installed_rules_effective [where wide = "\<lambda>_. True" and now = 0 and fl = default_flags,
      OF serving_mem_client kube_api_mem_client w body(2) al prod.collapse [symmetric]]
  show ?thesis using body(1) by auto
qed

text \<open>Any sequence of requests to the webhook.\<close>

definition alert_posts :: "(nat \<Rightarrow> bool) \<Rightarrow> (instant \<times> string) list \<Rightarrow> 'c Server \<times> 'c world \<Rightarrow> 'c Server \<times> 'c world" where
  "alert_posts wide posts sw = fold (\<lambda>(now, req_body). handleAlert_state wide now req_body) posts sw"

lemma post_brake:
  assumes "kube_api cl view" "view_keys (view (cluster w))" "flag_of (view (cluster w)) = Some flagValuePaused"
    and "handleAlert_state wide now req_body ((main_server fl cl)\<lparr>dedupe := g\<rparr>, w) = (s', w')"
  shows "\<exists>g'. s' = (main_server fl cl)\<lparr>dedupe := g'\<rparr> \<and> view_keys (view (cluster w'))
    \<and> flag_of (view (cluster w')) = Some flagValuePaused"
proof (cases "Decode dec_payload zero_payload req_body")
  case None
  then show ?thesis
    using assms by (intro exI [of _ g]) (auto simp: handleAlert_state_def handleAlert_def)
next
  case (Some p)
  let ?acts = "loop_acts Acquire now (Alerts p) g"
  have r: "s' = (main_server fl cl)\<lparr>dedupe := snd (accepted Acquire now (Alerts p) g)\<rparr>"
    "w' = fold (run_act (dispatch wide (cfg (main_server fl cl)))) ?acts w"
    using assms(4) by (auto simp: handleAlert_state_def handleAlert_decoded [OF Some])
  from acts_refine [OF assms(1,2) loop_acts_logs r(2)] obtain taken where
    "view_keys (view (cluster w'))" "spec_path wide (zip (dispatched ?acts) taken) (view (cluster w)) = Some (view (cluster w'))"
    by (elim exE conjE)
  with r(1) spec_path_brake [OF this(2) assms(3)] show ?thesis by blast
qed

text \<open>
  C22: the operator never lifts its own brake. Once the flag in the flags ConfigMap is \<open>false\<close>, no
  sequence of requests to the webhook, at whatever times, with whatever alerts (resolved ones
  included), and however the API calls fail, makes it anything else.
\<close>

theorem brake_latches:
  assumes "kube_api cl view" "view_keys (view (cluster w))" "flag_of (view (cluster w)) = Some flagValuePaused"
    and "alert_posts wide posts ((main_server fl cl)\<lparr>dedupe := g\<rparr>, w) = (s', w')"
  shows "flag_of (view (cluster w')) = Some flagValuePaused"
  using assms(2-)
proof (induction posts arbitrary: g w)
  case (Cons post posts)
  obtain now req_body where post: "post = (now, req_body)" by fastforce
  obtain s1 w1 where one: "handleAlert_state wide now req_body ((main_server fl cl)\<lparr>dedupe := g\<rparr>, w) = (s1, w1)"
    by fastforce
  from post_brake [OF assms(1) Cons.prems(1,2) one] obtain g1 where
    "s1 = (main_server fl cl)\<lparr>dedupe := g1\<rparr>" "view_keys (view (cluster w1))"
    "flag_of (view (cluster w1)) = Some flagValuePaused" by (elim exE conjE)
  with Cons.IH [of w1 g1] Cons.prems(3) post one show ?case by (simp add: alert_posts_def)
qed (simp add: alert_posts_def)

definition braked :: kube_view where
  "braked = deployed\<lparr>v_cms := [flags_key \<mapsto> brake flags_key (Some flags_cm)]\<rparr>"

theorem brake_latches_witness:
  "flag_of (cluster (snd (alert_posts (\<lambda>_. True) [(0, ''{}''), (5, ''{''), (9, sample_body)]
     ((main_server default_flags mem_client)\<lparr>dedupe := NewDedupe 0\<rparr>, mem_world braked)))) = Some ''false''"
proof -
  have "view_keys braked"
    using deployed_keys by (auto simp: braked_def view_keys_def brake_def flags_cm_def)
  then show ?thesis
    using brake_latches [where fl = default_flags and cl = mem_client and view = id and w = "mem_world braked"
        and g = "NewDedupe 0" and wide = "\<lambda>_. True" and posts = "[(0, ''{}''), (5, ''{''), (9, sample_body)]",
        OF kube_api_mem_client _ _ prod.collapse [symmetric]]
    by (simp add: flagValuePaused_def braked_def flag_of_def brake_def flagKey_def)
qed


text \<open>The body of a granted page within its cooldown: the first request sets the flag, the second is
  refused.\<close>

lemma email_page_spec:
  assumes "go_get (labels_of al) ''severity'' = ''page''" "go_get (labels_of al) ''service'' = ''email-worker''"
  shows "flag_of (spec_run wide [al] v) = Some flagValuePaused"
  using Classify_email_worker [OF assms, of wide]
  by (simp add: spec_step_def flag_of_def brake_def Let_def data_of_def split: option.split)

lemma first_grant:
  assumes "fp \<noteq> ''''" "t \<le> u" "u < t + 10 * minute"
  shows "\<exists>g. Acquire fp t (NewDedupe (10 * minute)) = (True, g) \<and> Acquire fp u g = (False, g)"
proof -
  let ?g = "NewDedupe (10 * minute)"
  have ok: "cooldown_ok ?g" by (simp add: cooldown_ok_def NewDedupe_def max_duration_def)
  obtain b g where a: "Acquire fp t ?g = (b, g)" by fastforce
  with Acquire_iff [OF ok assms(1), of t] have b by (simp add: NewDedupe_def)
  with seen_Acquire_granted [OF ok assms(1), of t g fp t] a
  have g: "seen g fp = Some t" "cooldown g = 10 * minute"
    using cooldown_Acquire [of fp t ?g] by (simp_all add: NewDedupe_def)
  then have "cooldown_ok g" by (simp add: cooldown_ok_def max_duration_def)
  obtain c g' where c: "Acquire fp u g = (c, g')" by fastforce
  with Acquire_iff [OF \<open>cooldown_ok g\<close> assms(1), of u] g assms(3) have "\<not> c" by simp
  with c Acquire_refused [of fp u g g'] a \<open>b\<close> show ?thesis by auto
qed

text \<open>
  C14: GitOps lifts the brake while the incident lasts. The manifests pin the flag, and Argo CD heals
  it: after an email-worker page has set the flag to \<open>false\<close> in the deployed cluster, one
  synchronisation makes it \<open>true\<close> again; the same page sent again within the
  cooldown is refused by the gate and changes nothing, so a watcher of the orders service that then
  sees the projected file publishes again, although the alert is still firing.
\<close>

theorem gitops_lifts_brake:
  assumes "serving_api cl view" "kube_api cl view" "view (cluster w) = deployed"
    and "heals sync deployed" "projects_flag project"
    and "Decode dec_payload zero_payload req_body = Some p" "Alerts p = [al]" "Firing al" "Fingerprint al \<noteq> ''''"
    and "go_get (labels_of al) ''severity'' = ''page''" "go_get (labels_of al) ''service'' = ''email-worker''"
    and "handleAlert_state wide t req_body (main_server fl cl, w) = (s1, w1)"
    and "view (cluster w2) = sync (view (cluster w1))"
    and "t \<le> u" "u < t + 10 * minute" "handleAlert_state wide u req_body (s1, w2) = (s2, w3)"
    and "flag_file f = project (v_cms (view (cluster w3)) flags_key)" "watch_step f TickEv f'"
  shows "flag_of (view (cluster w1)) = Some ''false''
    \<and> flag_of (view (cluster w3)) = Some ''true'' \<and> view (cluster w3) = view (cluster w2) \<and> \<not> paused f'"
proof -
  obtain g where g: "Acquire (Fingerprint al) t (NewDedupe (10 * minute)) = (True, g)"
    "Acquire (Fingerprint al) u g = (False, g)"
    using first_grant [OF assms(9,14,15)] by blast
  have "view_keys (view (cluster w))" using assms(3) deployed_keys by simp
  note one = single_alert [OF assms(1,2) this assms(6-8) g(1), of wide fl s1 w1]
  have s1: "s1 = (main_server fl cl)\<lparr>dedupe := g\<rparr>" and v1: "flag_of (view (cluster w1)) = Some flagValuePaused"
    and k1: "view_keys (view (cluster w1))"
    using one assms(12) email_page_spec [OF assms(10,11)] main_server_dedupe [of fl cl] by auto
  then have k2: "view_keys (view (cluster w2))" using assms(4,13) by (simp add: heals_def)
  have same: "view (cluster w3) = view (cluster w2)"
    using single_alert(2) [OF assms(1,2) k2 assms(6-8) g(2), of wide fl s2 w3] assms(16) s1 by simp
  have "v_cms deployed flags_key = Some flags_cm" "data_of flags_cm flagKey = Some ''true''"
    by (simp_all add: deployed_def flags_cm_def data_of_def flagKey_def)
  then obtain m where m: "v_cms (view (cluster w2)) flags_key = Some m" "data_of m flagKey = Some ''true''"
    using healed_data [OF assms(4), of flags_key flags_cm flagKey "''true''" "view (cluster w1)"] assms(13) by auto
  then have "flag_file f = Some ''true''" using assms(5,17) same by (simp add: projects_flag_def)
  then have "\<not> paused f'" using assms(18) TrimSpace_flag_values(2) by (auto simp: watch_step_tick)
  with v1 same m show ?thesis by (simp add: flag_of_def flagValuePaused_def)
qed


lemma sample_wire_alert:
  obtains al where "Alerts (received_payload sample_wire) = [al]" "Firing al" "Fingerprint al \<noteq> ''''"
    "go_get (labels_of al) ''severity'' = ''page''" "go_get (labels_of al) ''service'' = ''email-worker''"
  by (rule that [of "received_alert (hd (the (w_alerts sample_wire)))"])
    (simp_all add: received_payload_def sample_wire_def received_alert_def labels_of_def received_map_ascii
      to_valid_ascii Firing_def)

theorem gitops_lifts_brake_witness:
  "\<exists>req_body s1 w1 w3. marshal_payload sample_wire = Some req_body
    \<and> handleAlert_state (\<lambda>_. True) 0 req_body (main_server default_flags mem_client, mem_world deployed) = (s1, w1)
    \<and> flag_of (cluster w1) = Some ''false''
    \<and> handleAlert_state (\<lambda>_. True) repeat_interval req_body
        (s1, mem_world (argo_sync deployed (cluster w1))) = w3 \<and> flag_of (cluster (snd w3)) = Some ''true''"
proof -
  have "times_ok sample_wire"
    by (simp add: times_ok_def sample_wire_def time_ok_def civil_ok_def zero_time_def daysIn_def isLeap_def)
  from payload_decodes [OF this] obtain req_body where body: "marshal_payload sample_wire = Some req_body"
    "Decode dec_payload zero_payload req_body = Some (received_payload sample_wire)" by blast
  obtain al where al: "Alerts (received_payload sample_wire) = [al]" "Firing al" "Fingerprint al \<noteq> ''''"
    "go_get (labels_of al) ''severity'' = ''page''" "go_get (labels_of al) ''service'' = ''email-worker''"
    by (rule sample_wire_alert)
  obtain s1 w1 where 1: "handleAlert_state (\<lambda>_. True) 0 req_body
      (main_server default_flags mem_client, mem_world deployed) = (s1, w1)" by fastforce
  let ?w2 = "mem_world (argo_sync deployed (cluster w1))"
  obtain s2 w3 where 2: "handleAlert_state (\<lambda>_. True) repeat_interval req_body (s1, ?w2) = (s2, w3)" by fastforce
  have w: "id (cluster (mem_world deployed)) = deployed" "id (cluster ?w2) = argo_sync deployed (id (cluster w1))"
    by (simp_all add: mem_world_def)
  have u: "0 \<le> repeat_interval" "repeat_interval < 0 + 10 * minute" by (simp_all add: repeat_interval_def)
  let ?f = "watch_start None None (kubelet_project (v_cms (id (cluster w3)) flags_key)) False"
  have f: "flag_file ?f = kubelet_project (v_cms (id (cluster w3)) flags_key)" "watch_step ?f TickEv (do_read ?f)"
    by (simp_all add: watch_step_tick watch_start_def Let_def)
  note lifted = gitops_lifts_brake [OF serving_mem_client kube_api_mem_client w(1) argo_sync_heals [OF deployed_keys]
      projects_flag_kubelet body(2) al 1 w(2) u 2 f]
  have "flag_of (id (cluster w1)) = Some ''false''" by (rule conjunct1 [OF lifted])
  moreover have "flag_of (id (cluster w3)) = Some ''true''" by (rule conjunct1 [OF conjunct2 [OF lifted]])
  ultimately show ?thesis using body(1) 1 2 by auto
qed

text \<open>The objects the operator's remedies are aimed at.\<close>

definition targets_exist :: "kube_view \<Rightarrow> bool" where
  "targets_exist v \<longleftrightarrow> v_aborts v (lab, ''orders-svc'') \<noteq> None \<and> v_hpas v (lab, ''payments-svc'') \<noteq> None
     \<and> v_hpas v (lab, ''inventory-svc'') \<noteq> None \<and> v_cms v flags_key \<noteq> None"

definition same_names :: "kube_view \<Rightarrow> kube_view \<Rightarrow> bool" where
  "same_names v v' \<longleftrightarrow> dom (v_hpas v') = dom (v_hpas v) \<and> dom (v_cms v') = dom (v_cms v)
     \<and> dom (v_aborts v') = dom (v_aborts v)"

lemma targets_same_names: "targets_exist v \<Longrightarrow> same_names v v' \<Longrightarrow> targets_exist v'"
  unfolding targets_exist_def same_names_def by blast

lemma targets_step:
  assumes "targets_exist v"
  shows "\<exists>v'. spec_step wide a v = Some v' \<and> same_names v v'"
  using assms
  by (auto simp: spec_step_def Let_def Classify_def targets_exist_def same_names_def)

lemma served_acts:
  assumes "serving_api cl view" "kube_api cl view" "view_keys (view (cluster w))" "targets_exist (view (cluster w))"
    and "list_all quiet_log acts" "w' = fold (run_act (dispatch wide (cfg (main_server fl cl)))) acts w"
  shows "errors w' = errors w \<and> same_names (view (cluster w)) (view (cluster w')) \<and> view_keys (view (cluster w'))"
  using assms(3-6)
proof (induction acts arbitrary: w)
  case (Cons x acts)
  show ?case
  proof (cases x)
    case (LogAct l m)
    with Cons.prems have "l \<noteq> LevelError" by (simp add: quiet_log_def)
    with Cons.IH [of "log l m w"] Cons.prems LogAct show ?thesis by simp
  next
    case (DispatchAct a)
    let ?w1 = "dispatch wide (cfg (main_server fl cl)) a w"
    note d = dispatch_refines [OF assms(2) Cons.prems(1) refl, of wide fl a]
    obtain v1 where v1: "spec_step wide a (view (cluster w)) = Some v1" "same_names (view (cluster w)) v1"
      using targets_step [OF Cons.prems(2)] by blast
    then have ok: "remedy_ok wide cl a w"
      using remedy_served [OF assms(1,2) Cons.prems(1)] by simp
    have w1: "view (cluster ?w1) = v1" "errors ?w1 = errors w" "view_keys (view (cluster ?w1))"
      using d ok v1(1) by (auto simp: Option.bind_eq_Some_conv)
    have "errors w' = errors ?w1 \<and> same_names (view (cluster ?w1)) (view (cluster w')) \<and> view_keys (view (cluster w'))"
      using Cons.IH [of ?w1] Cons.prems(3,4) w1 targets_same_names [OF Cons.prems(2) v1(2)] DispatchAct by simp
    then show ?thesis using w1 v1(2) by (simp add: same_names_def)
  qed
qed (simp add: same_names_def)

lemma served_post:
  assumes "serving_api cl view" "kube_api cl view" "view_keys (view (cluster w))" "targets_exist (view (cluster w))"
    and "handleAlert_state wide now req_body ((main_server fl cl)\<lparr>dedupe := g\<rparr>, w) = (s', w')"
  shows "\<exists>g'. s' = (main_server fl cl)\<lparr>dedupe := g'\<rparr> \<and> view_keys (view (cluster w'))
    \<and> same_names (view (cluster w)) (view (cluster w'))
    \<and> errors w' = errors w + (if Decode dec_payload zero_payload req_body = None then 1 else 0)"
proof (cases "Decode dec_payload zero_payload req_body")
  case None
  then show ?thesis
    using assms(3,5) by (intro exI [of _ g]) (auto simp: handleAlert_state_def handleAlert_def same_names_def)
next
  case (Some p)
  have r: "s' = (main_server fl cl)\<lparr>dedupe := snd (accepted Acquire now (Alerts p) g)\<rparr>"
    "w' = fold (run_act (dispatch wide (cfg (main_server fl cl)))) (loop_acts Acquire now (Alerts p) g) w"
    using assms(5) by (auto simp: handleAlert_state_def handleAlert_decoded [OF Some])
  from served_acts [OF assms(1-4) loop_acts_logs r(2)] r(1) Some show ?thesis by auto
qed

lemma served_posts:
  assumes "serving_api cl view" "kube_api cl view" "view_keys (view (cluster w))" "targets_exist (view (cluster w))"
    and "alert_posts wide posts ((main_server fl cl)\<lparr>dedupe := g\<rparr>, w) = (s', w')"
  shows "same_names (view (cluster w)) (view (cluster w'))
    \<and> errors w' = errors w + length (filter (\<lambda>(t, b). Decode dec_payload zero_payload b = None) posts)"
  using assms(3-)
proof (induction posts arbitrary: g w)
  case (Cons post posts)
  obtain now req_body where post: "post = (now, req_body)" by fastforce
  obtain s1 w1 where one: "handleAlert_state wide now req_body ((main_server fl cl)\<lparr>dedupe := g\<rparr>, w) = (s1, w1)"
    by fastforce
  from served_post [OF assms(1,2) Cons.prems(1,2) one] obtain g1 where
    g1: "s1 = (main_server fl cl)\<lparr>dedupe := g1\<rparr>" "view_keys (view (cluster w1))"
      "same_names (view (cluster w)) (view (cluster w1))"
      "errors w1 = errors w + (if Decode dec_payload zero_payload req_body = None then 1 else 0)" by blast
  have "same_names (view (cluster w1)) (view (cluster w'))
    \<and> errors w' = errors w1 + length (filter (\<lambda>(t, b). Decode dec_payload zero_payload b = None) posts)"
    using Cons.IH [OF g1(2) targets_same_names [OF Cons.prems(2) g1(3)]] Cons.prems(3) post one g1(1)
    by (simp add: alert_posts_def)
  with g1(3,4) post show ?case by (simp add: same_names_def)
qed (simp add: alert_posts_def same_names_def)

text \<open>
  C6: nothing the operator can be told to do misses its target. In the deployed cluster and with an API
  that serves, any sequence of requests to the webhook, at whatever times and with whatever alerts,
  labels and bodies, ends with one error record for each body that does not parse and no other: no
  classification names an object the manifests do not deploy. And no object has come into being or
  gone.
\<close>

theorem deployed_targets_served:
  assumes "serving_api cl view" "kube_api cl view" "view (cluster w) = deployed"
    and "alert_posts wide posts (main_server fl cl, w) = (s', w')"
  shows "errors w' = errors w + length (filter (\<lambda>(t, b). Decode dec_payload zero_payload b = None) posts)
    \<and> dom (v_hpas (view (cluster w'))) = {(lab, ''payments-svc''), (lab, ''inventory-svc'')}
    \<and> dom (v_cms (view (cluster w'))) = {(lab, ''orders-svc-flags'')}
    \<and> dom (v_aborts (view (cluster w'))) = {(lab, ''orders-svc'')}"
proof -
  have v: "view_keys (view (cluster w))" "targets_exist (view (cluster w))"
    using assms(3) deployed_keys by (simp_all add: targets_exist_def deployed_def)
  from served_posts [where g = "NewDedupe (10 * minute)" and fl = fl and cl = cl, OF assms(1,2) v, unfolded main_server_dedupe,
      OF assms(4)]
  show ?thesis by (auto simp: same_names_def assms(3) deployed_def)
qed

theorem deployed_targets_served_witness:
  "errors (snd (alert_posts (\<lambda>_. True) [(0, ''{''), (9, sample_body)]
     (main_server default_flags mem_client, mem_world deployed))) = 1"
proof -
  have none: "Decode dec_payload zero_payload ''{'' = None" by code_simp
  have w: "id (cluster (mem_world deployed)) = deployed" by simp
  from deployed_targets_served [where wide = "\<lambda>_. True" and fl = default_flags
      and posts = "[(0, ''{''), (9, sample_body)]", OF serving_mem_client kube_api_mem_client w prod.collapse [symmetric]]
  show ?thesis by (simp add: none sample_decode errors_def mem_world_def)
qed

end
