(* ===== verification/Payments_Svc.thy ===== *)
theory Payments_Svc
  imports Inventory_Svc
begin

text \<open>
  The payments service (\<open>services/payments-svc\<close>): \<open>Charge\<close> sleeps, reserves one unit of the
  default SKU through the inventory client, and authorizes or declines. The transport to the
  inventory service, the payment identifier and the random number are arguments. The lemmas
  show that a charge never fails, what decides it, and what it leaves in the inventory.
\<close>

section \<open>Model\<close>

text \<open>The simulated bank latency for \<open>rand.IntN(15) = rnd\<close>.\<close>

definition bank_delay :: "nat \<Rightarrow> duration" where
  "bank_delay rnd = (5 + int rnd) * millisecond"

definition default_item :: LineItem where
  "default_item = \<lparr>item_Sku = ''DEFAULT'', item_Quantity = 1\<rparr>"

definition Charge :: "(ReserveRequest, ReserveResponse, 's) transport \<Rightarrow> nat \<Rightarrow> string \<Rightarrow>
    (ChargeRequest, ChargeResponse, 's \<times> duration) rpc_method" where
  "Charge invoke rnd uuid req st =
    (let (s, slept) = st;
         slept1 = slept + bank_delay rnd;
         ((resv, err), s1) = inventoryServiceClient_Reserve invoke
           (Some \<lparr>reserve_OrderId = ChargeRequest_GetOrderId req, reserve_Items = [Some default_item]\<rparr>) s
     in if err \<noteq> None \<or> ReserveResponse_GetStatus resv \<noteq> ReserveResponse_STATUS_OK then
          ((Some \<lparr>charge_PaymentId = uuid, charge_Status = ChargeResponse_STATUS_DECLINED,
                 charge_DeclineReason = ''inventory unavailable''\<rparr>, None), (s1, slept1))
        else
          ((Some \<lparr>charge_PaymentId = uuid, charge_Status = ChargeResponse_STATUS_AUTHORIZED,
                 charge_DeclineReason = ''''\<rparr>, None), (s1, slept1)))"

record payments_env =
  pay_env :: environment
  pay_tracing :: "tracing_error option"
  pay_dial :: "string \<Rightarrow> string option"
  pay_listen :: "string \<Rightarrow> string option"

definition payments_main :: "payments_env \<Rightarrow> (string \<times> string \<times> string \<times> life) startup" where
  "payments_main e =
    (let grpcAddr = envOr (pay_env e) ''LISTEN_ADDR_GRPC'' '':9000'';
         httpAddr = envOr (pay_env e) ''LISTEN_ADDR_HTTP'' '':8080'';
         invAddr = envOr (pay_env e) ''INVENTORY_ADDR'' ''inventory-svc:9000''
     in case pay_tracing e of
          Some _ \<Rightarrow> Exit 1 [(LevelError, ''init tracing'')]
        | None \<Rightarrow>
       (case pay_dial e invAddr of
          Some _ \<Rightarrow> Exit 1 [(LevelError, ''dial inventory'')]
        | None \<Rightarrow>
       (case pay_listen e grpcAddr of
          Some _ \<Rightarrow> Exit 1 [(LevelError, ''listen'')]
        | None \<Rightarrow> Started (grpcAddr, httpAddr, invAddr, life_init))))"

section \<open>Lemmas\<close>

abbreviation authorized :: "ChargeResponse rpc_result \<Rightarrow> bool" where
  "authorized r \<equiv> ChargeResponse_GetStatus (fst r) = ChargeResponse_STATUS_AUTHORIZED"

text \<open>The outcomes of a charge over a transport to the inventory service that is at most once.\<close>

lemma Charge_inventory_cases:
  assumes "at_most_once InventoryService_Reserve_FullMethodName (Reserve rid) invoke"
    and "Charge invoke rnd uuid req (s, slept) = (res, (s', slept'))"
  obtains (authorized) "authorized res" "snd res = None"
      "store s' = (store s)(rid \<mapsto> [Some default_item])"
  | (declined) "\<not> authorized res" "snd res = None"
      "ChargeResponse_GetDeclineReason (fst res) = ''inventory unavailable''"
      "s' = s \<or> store s' = (store s)(rid \<mapsto> [Some default_item])"
proof -
  let ?req = "Some \<lparr>reserve_OrderId = ChargeRequest_GetOrderId req, reserve_Items = [Some default_item]\<rparr>"
  obtain resv err s1 where c: "inventoryServiceClient_Reserve invoke ?req s = ((resv, err), s1)"
    by (metis surj_pair)
  have s1: "s1 = s'"
    using assms(2) c by (auto simp: Charge_def Let_def split: if_splits)
  from assms(1) c [unfolded inventoryServiceClient_Reserve_def] show thesis
  proof (cases rule: unary_call_cases)
    case (reply out)
    then have "ReserveResponse_GetStatus resv = ReserveResponse_STATUS_OK"
      "store s' = (store s)(rid \<mapsto> [Some default_item])"
      by (auto simp: Reserve_def getter_defs s1)
    then show thesis
      using authorized assms(2) c reply by (auto simp: Charge_def Let_def getter_defs)
  next
    case (failed e)
    have "store (snd (Reserve rid ?req s)) = (store s)(rid \<mapsto> [Some default_item])"
      by (simp add: Reserve_def getter_defs)
    then show thesis
      using declined assms(2) c failed
      by (auto simp: Charge_def Let_def getter_defs charge_status_defs s1)
  qed
qed

section \<open>Properties\<close>

text \<open>
  C38: a charge always answers, with no error, after a delay of 5 to 19 milliseconds of its own
  and exactly one \<open>Reserve\<close> call that carries the order's identifier and one unit of \<open>DEFAULT\<close>; it is
  authorized exactly when that call returned no error and \<open>STATUS_OK\<close>, and otherwise declined
  with the reason \<open>inventory unavailable\<close>. The charged amount and currency play no part.
\<close>

theorem Charge_outcome:
  assumes "rnd < 15"
    and "invoke InventoryService_Reserve_FullMethodName
      (Some \<lparr>reserve_OrderId = ChargeRequest_GetOrderId req, reserve_Items = [Some default_item]\<rparr>) s =
      (reply, s1)"
  shows "\<exists>resp d. Charge invoke rnd uuid req (s, slept) = ((Some resp, None), (s1, slept + d))
    \<and> 5 * millisecond \<le> d \<and> d \<le> 19 * millisecond
    \<and> charge_PaymentId resp = uuid
    \<and> (case reply of
         Inr out \<Rightarrow> if reserve_Status out = ReserveResponse_STATUS_OK
           then charge_Status resp = ChargeResponse_STATUS_AUTHORIZED \<and> charge_DeclineReason resp = ''''
           else charge_Status resp = ChargeResponse_STATUS_DECLINED
             \<and> charge_DeclineReason resp = ''inventory unavailable''
       | Inl e \<Rightarrow> charge_Status resp = ChargeResponse_STATUS_DECLINED
             \<and> charge_DeclineReason resp = ''inventory unavailable'')"
  using assms
  by (auto simp: Charge_def Let_def inventoryServiceClient_Reserve_def unary_call_def getter_defs
      bank_delay_def split: sum.splits)

theorem Charge_outcome_witness:
  "\<exists>resp d. Charge (local_transport (Reserve ''r1'')) 3 ''p1'' None (new_inventory, 0) =
      ((Some resp, None), (snd (Reserve ''r1'' (Some \<lparr>reserve_OrderId = '''',
         reserve_Items = [Some default_item]\<rparr>) new_inventory), d))
    \<and> charge_Status resp = ChargeResponse_STATUS_AUTHORIZED"
proof -
  let ?req = "Some \<lparr>reserve_OrderId = ChargeRequest_GetOrderId None, reserve_Items = [Some default_item]\<rparr>"
  have call: "local_transport (Reserve ''r1'') InventoryService_Reserve_FullMethodName ?req new_inventory =
      (Inr \<lparr>reserve_ReservationId = ''r1'', reserve_Status = ReserveResponse_STATUS_OK\<rparr>,
       snd (Reserve ''r1'' ?req new_inventory))"
    by (simp add: local_transport_def Reserve_def)
  from Charge_outcome [of 3 "local_transport (Reserve ''r1'')" None new_inventory, OF _ call, of "''p1''" 0] show ?thesis
    by (auto simp: getter_defs)
qed

text \<open>
  Charging and the inventory. Over any transport that delivers a call at most once, an
  authorized charge has left a new reservation in the inventory; a declined one may have left
  one too, when the reply was lost, and otherwise left the inventory as it was. Nothing else
  changes in the store.
\<close>

theorem Charge_reserves:
  assumes "at_most_once InventoryService_Reserve_FullMethodName (Reserve rid) invoke"
    and "Charge invoke rnd uuid req (s, slept) = (res, (s', slept'))"
  shows "snd res = None
    \<and> (store s' = (store s)(rid \<mapsto> [Some default_item]) \<or> (\<not> authorized res \<and> s' = s))"
  using assms by (cases rule: Charge_inventory_cases) auto

theorem Charge_reserves_witness:
  "\<exists>res s' slept'. Charge down_transport 3 ''p1'' None (new_inventory, 0) = (res, (s', slept'))
    \<and> snd res = None \<and> (store s' = (store new_inventory)(''r1'' \<mapsto> [Some default_item])
         \<or> (\<not> authorized res \<and> s' = new_inventory))"
proof -
  obtain res s' slept' where c: "Charge down_transport 3 ''p1'' None (new_inventory, 0) = (res, (s', slept'))"
    by (metis surj_pair)
  from Charge_reserves [OF at_most_once_down c, of "''r1''"] c show ?thesis by blast
qed

text \<open>The four messages of a charge that succeeds.\<close>

definition received_charge :: "ChargeRequest option \<Rightarrow> ChargeRequest" where
  "received_charge req = (case req of None \<Rightarrow> ChargeRequest_Reset | Some m \<Rightarrow> m)"

definition sent_reserve :: "ChargeRequest option \<Rightarrow> ReserveRequest" where
  "sent_reserve req = \<lparr>reserve_OrderId = ChargeRequest_GetOrderId req, reserve_Items = [Some default_item]\<rparr>"

definition reserved_reply :: "string \<Rightarrow> ReserveResponse" where
  "reserved_reply rid = \<lparr>reserve_ReservationId = rid, reserve_Status = ReserveResponse_STATUS_OK\<rparr>"

definition authorized_reply :: "string \<Rightarrow> ChargeResponse" where
  "authorized_reply uuid = \<lparr>charge_PaymentId = uuid, charge_Status = ChargeResponse_STATUS_AUTHORIZED,
     charge_DeclineReason = []\<rparr>"

text \<open>
  The two services over the wire. When the connections of the orders and of the payments
  service deliver (the generated descriptors are registered, the generated stubs and handlers sit
  at the two ends), and the four messages of the call survive their encoding, then a charge through
  the client stub is answered as \<open>Charge\<close> answers when it calls the inventory's \<open>Reserve\<close>
  directly, with the same effect on the store: it is authorized, and one reservation was made.
\<close>

lemma charge_over_wire:
  assumes "delivers (InventoryService_Reserve_Desc (Reserve rid)) codec_rq codec_rr ReserveRequest_Reset inv_conn"
    and "delivers (PaymentsService_ServiceDesc (Charge inv_conn rnd uuid)) codec_cq codec_cr ChargeRequest_Reset pay_conn"
    and "codec_rq (sent_reserve req) = Inr (sent_reserve req)" "codec_rr (reserved_reply rid) = Inr (reserved_reply rid)"
    and "codec_cq (received_charge req) = Inr (received_charge req)"
    and "codec_cr (authorized_reply uuid) = Inr (authorized_reply uuid)"
  shows "paymentsServiceClient_Charge pay_conn req (s, slept) = ((Some (authorized_reply uuid), None),
      (s\<lparr>store := (store s)(rid \<mapsto> [Some default_item])\<rparr>, slept + bank_delay rnd))
    \<and> paymentsServiceClient_Charge pay_conn req (s, slept) =
        Charge (local_transport (Reserve rid)) rnd uuid req (s, slept)"
proof -
  have id: "ChargeRequest_GetOrderId (Some (received_charge req)) = ChargeRequest_GetOrderId req"
    by (simp add: received_charge_def getter_defs ChargeRequest_Reset_def split: option.splits)
  have inv: "inventoryServiceClient_Reserve inv_conn (Some (sent_reserve req)) s = ((Some (reserved_reply rid), None),
       s\<lparr>store := (store s)(rid \<mapsto> [Some default_item])\<rparr>)"
    unfolding inventoryServiceClient_Reserve_def
    by (rule unary_wire [OF assms(1) [unfolded InventoryService_Reserve_Desc_def InventoryService_Reserve_Handler_def]
          full_method_names(2)])
      (simp_all add: assms(3,4), simp add: Reserve_def getter_defs sent_reserve_def reserved_reply_def)
  let ?result = "((Some (authorized_reply uuid), None),
      (s\<lparr>store := (store s)(rid \<mapsto> [Some default_item])\<rparr>, slept + bank_delay rnd))"
  have wire: "Charge inv_conn rnd uuid (Some (received_charge req)) (s, slept) = ?result"
    unfolding Charge_def id using inv [unfolded sent_reserve_def]
    by (simp add: reserved_reply_def ReserveResponse_GetStatus_def authorized_reply_def)
  have "Charge (local_transport (Reserve rid)) rnd uuid req (s, slept) = ?result"
    by (simp add: Charge_def getter_defs inventoryServiceClient_Reserve_def unary_call_def local_transport_def
        Reserve_def authorized_reply_def)
  moreover have "paymentsServiceClient_Charge pay_conn req (s, slept) = ?result"
    unfolding paymentsServiceClient_Charge_def
    by (rule unary_wire [OF assms(2) [unfolded PaymentsService_ServiceDesc_def PaymentsService_Charge_Handler_def]
          full_method_names(1)])
      (use assms(5,6) wire in \<open>simp_all add: received_charge_def\<close>)
  ultimately show ?thesis by simp
qed

lemma charge_over_wire_witness:
  "\<exists>resp s'. paymentsServiceClient_Charge (wire_transport (PaymentsService_ServiceDesc
      (Charge (wire_transport (InventoryService_Reserve_Desc (Reserve ''r1'')) ReserveRequest_Reset) 3 ''p1''))
      ChargeRequest_Reset) None (new_inventory, 0) = ((Some resp, None), s')
    \<and> charge_Status resp = ChargeResponse_STATUS_AUTHORIZED"
proof -
  let ?inv = "wire_transport (InventoryService_Reserve_Desc (Reserve ''r1'')) ReserveRequest_Reset"
  let ?pay = "wire_transport (PaymentsService_ServiceDesc (Charge ?inv 3 ''p1'')) ChargeRequest_Reset"
  have "delivers (InventoryService_Reserve_Desc (Reserve ''r1'')) Inr Inr ReserveRequest_Reset ?inv"
    "delivers (PaymentsService_ServiceDesc (Charge ?inv 3 ''p1'')) Inr Inr ChargeRequest_Reset ?pay"
    by (rule delivers_wire, simp add: InventoryService_Reserve_Desc_def PaymentsService_ServiceDesc_def)+
  from charge_over_wire [OF this refl refl refl refl, of None new_inventory 0] show ?thesis
    by (auto simp: authorized_reply_def)
qed

end
