(* ===== verification/Email_Worker.thy ===== *)
theory Email_Worker
  imports Service_Lifecycle Go_JSON_Text
begin

text \<open>
  The email worker (\<open>services/email-worker\<close>): the event it reads, the message handler, and the
  start-up with its stream and consumer configuration. NATS and the tracer are outside: the
  handler's effects are the acknowledgement it asks for, the records it logs, the attributes it
  sets on its span and the time it sleeps. The lemmas show that every message is settled
  exactly once and which messages are dropped.
\<close>

section \<open>Handling messages\<close>

record incoming =
  in_OrderID :: string
  in_CustomerEmail :: string

definition zero_incoming :: incoming where
  "zero_incoming = \<lparr>in_OrderID = '''', in_CustomerEmail = ''''\<rparr>"

definition dec_incoming :: "incoming dec" where
  "dec_incoming = dec_struct
    [(''order_id'', field in_OrderID in_OrderID_update dec_string),
     (''customer_email'', field in_CustomerEmail in_CustomerEmail_update dec_string)]"

datatype settle = Term | Ack

datatype ack_error = ErrConnectionClosed | AckError string

record handled =
  settled :: "settle list"
  span_attrs :: "(string \<times> string) list"
  span_errors :: nat
  hlogs :: "log_record list"
  slept :: duration

definition handler :: "ack_error option \<Rightarrow> string \<Rightarrow> handled" where
  "handler ack_result data = (case Unmarshal dec_incoming zero_incoming data of
     None \<Rightarrow>
       \<lparr>settled = [Term], span_attrs = [(''messaging.system'', ''nats'')], span_errors = 1,
        hlogs = [(LevelError, ''decode'')], slept = 0\<rparr>
   | Some evt \<Rightarrow>
      (let failed = (case ack_result of None \<Rightarrow> False | Some e \<Rightarrow> e \<noteq> ErrConnectionClosed)
       in \<lparr>settled = [Ack],
           span_attrs = [(''messaging.system'', ''nats''), (''order.id'', in_OrderID evt)],
           span_errors = (if failed then 1 else 0),
           hlogs = (if failed then [(LevelError, ''ack'')] else []),
           slept = 100 * millisecond\<rparr>))"

section \<open>Start-up\<close>

datatype RetentionPolicy = LimitsPolicy | InterestPolicy | WorkQueuePolicy

datatype StorageType = FileStorage | MemoryStorage

datatype AckPolicy = AckExplicitPolicy | AckAllPolicy | AckNonePolicy

record stream_config =
  stream_Name :: string
  stream_Subjects :: "string list"
  stream_Retention :: RetentionPolicy
  stream_MaxAge :: duration
  stream_Storage :: StorageType

record consumer_config =
  cons_Name :: string
  cons_Durable :: string
  cons_FilterSubject :: string
  cons_AckPolicy :: AckPolicy
  cons_AckWait :: duration
  cons_MaxAckPending :: nat

definition streamName :: string where "streamName = ''ORDER_EVENTS''"
definition consumerName :: string where "consumerName = ''email-worker''"

definition email_stream :: stream_config where
  "email_stream = \<lparr>stream_Name = streamName, stream_Subjects = [''orders.events.>''],
     stream_Retention = LimitsPolicy, stream_MaxAge = 24 * 60 * minute, stream_Storage = FileStorage\<rparr>"

definition email_consumer :: "string \<Rightarrow> consumer_config" where
  "email_consumer subject = \<lparr>cons_Name = consumerName, cons_Durable = consumerName,
     cons_FilterSubject = subject, cons_AckPolicy = AckExplicitPolicy, cons_AckWait = 30 * second, cons_MaxAckPending = 100\<rparr>"

record email_env =
  mail_env :: environment
  mail_tracing :: "tracing_error option"
  mail_connect :: "string \<Rightarrow> string option"
  mail_jetstream :: "string option"
  mail_stream :: "stream_config \<Rightarrow> string option"
  mail_consumer :: "consumer_config \<Rightarrow> string option"
  mail_consume :: "string option"

text \<open>\<open>nats.DefaultURL\<close> is an argument. The result is the probes' address and the health flags
  with which the worker waits for its context.\<close>

definition email_main :: "string \<Rightarrow> email_env \<Rightarrow> (string \<times> Health) startup" where
  "email_main defaultURL e =
    (let httpAddr = envOr (mail_env e) ''LISTEN_ADDR_HTTP'' '':8080'';
         natsURL = envOr (mail_env e) ''NATS_URL'' defaultURL;
         subject = envOr (mail_env e) ''NATS_SUBJECT'' ''orders.events.created''
     in case mail_tracing e of Some _ \<Rightarrow> Exit 1 [(LevelError, ''init tracing'')] | None \<Rightarrow>
       (case mail_connect e natsURL of Some _ \<Rightarrow> Exit 1 [(LevelError, ''nats connect'')] | None \<Rightarrow>
       (case mail_jetstream e of Some _ \<Rightarrow> Exit 1 [(LevelError, ''jetstream'')] | None \<Rightarrow>
       (case mail_stream e email_stream of Some _ \<Rightarrow> Exit 1 [(LevelError, ''create stream'')] | None \<Rightarrow>
       (case mail_consumer e (email_consumer subject) of
          Some _ \<Rightarrow> Exit 1 [(LevelError, ''create consumer'')] | None \<Rightarrow>
       (case mail_consume e of
          Some _ \<Rightarrow> Exit 1 [(LevelInfo, ''consuming''), (LevelError, ''consume start'')]
        | None \<Rightarrow> Started (httpAddr, Ready NewHealth)))))))"

text \<open>After the context is done.\<close>

definition email_shutdown :: "Health \<Rightarrow> log_record list \<times> Health" where
  "email_shutdown h = ([(LevelInfo, ''shutting down'')], NotReady h)"

section \<open>Properties\<close>

text \<open>
  Every message is settled exactly once, on every path. A message whose data is not one JSON
  value of the right shape is terminated, so that it is not redelivered, and logged; every
  other message is acknowledged once after the simulated send, and an error of the
  acknowledgement is logged unless the connection was closed.
\<close>

theorem handler_settles_once:
  "length (settled (handler ack_result data)) = 1
   \<and> (settled (handler ack_result data) = [Term] \<longleftrightarrow> Unmarshal dec_incoming zero_incoming data = None)
   \<and> (hlogs (handler ack_result data) = [] \<longleftrightarrow>
        Unmarshal dec_incoming zero_incoming data \<noteq> None \<and> ack_result \<in> {None, Some ErrConnectionClosed})
   \<and> length (hlogs (handler ack_result data)) = span_errors (handler ack_result data)
   \<and> (slept (handler ack_result data) = 100 * millisecond \<longleftrightarrow> settled (handler ack_result data) = [Ack])"
  by (auto simp: handler_def Let_def split: option.splits)

end
