(* ===== verification/Orders_Svc.thy ===== *)
theory Orders_Svc
  imports Payments_Svc Orders_Watch Email_Worker Go_Time
begin

text \<open>
  The orders service (\<open>services/orders-svc/main.go\<close>): the order request, the event it publishes
  and its JSON text, the create handler, the routes and the start-up. The connection to the
  payments service, JetStream's publish call, the trace headers, the drawn order identifier and
  the current UTC time are arguments. The lemmas give the handler's answer on
  every branch, show that an event is published exactly for authorized orders while publishing
  is not paused, that the email worker accepts every such event, and that the routes of
  \<open>main\<close> conflict.
\<close>

section \<open>Orders and events\<close>

record orderRequest =
  CustomerID :: string
  CustomerEmail :: string
  AmountMinor :: int64
  Currency :: string
  SKU :: string
  Quantity :: int32

definition zero_order :: orderRequest where
  "zero_order = \<lparr>CustomerID = '''', CustomerEmail = '''', AmountMinor = 0, Currency = '''', SKU = '''',
     Quantity = 0\<rparr>"

definition dec_order :: "orderRequest dec" where
  "dec_order = dec_struct
    [(''customer_id'', field CustomerID CustomerID_update dec_string),
     (''customer_email'', field CustomerEmail CustomerEmail_update dec_string),
     (''amount_minor'', field AmountMinor AmountMinor_update dec_int64),
     (''currency'', field Currency Currency_update dec_string),
     (''sku'', field SKU SKU_update dec_string),
     (''quantity'', field Quantity Quantity_update dec_int32)]"

record orderEvent =
  evt_OrderID :: string
  evt_CustomerID :: string
  evt_CustomerEmail :: string
  evt_AmountMinor :: int64
  evt_Currency :: string
  evt_CreatedAt :: civil

text \<open>\<open>json.Marshal\<close> of the event. It fails only where the time does, and the handler ignores the
  error and publishes an empty payload then.\<close>

definition marshal_event :: "orderEvent \<Rightarrow> string" where
  "marshal_event e = (case Time_MarshalJSON (evt_CreatedAt e, 0) of
     None \<Rightarrow> []
   | Some created_at \<Rightarrow> encode_object
      [(''order_id'', encode_string (evt_OrderID e)),
       (''customer_id'', encode_string (evt_CustomerID e)),
       (''customer_email'', encode_string (evt_CustomerEmail e)),
       (''amount_minor'', encode_int (sint (evt_AmountMinor e))),
       (''currency'', encode_string (evt_Currency e)),
       (''created_at'', created_at)])"

record nats_msg =
  msg_Subject :: string
  msg_Data :: string
  msg_Header :: "(string \<times> string) list"

section \<open>The create handler\<close>

record app =
  subject :: string
  publishingPaused :: bool

text \<open>The deadline of the request's calls, \<open>context.WithTimeout(r.Context(), 5*time.Second)\<close>.\<close>

definition call_timeout :: duration where
  "call_timeout = 5 * second"

text \<open>What the environment gives to one request. The call to the payments service is made under a
  deadline, which it is given as its first argument: the transport returns an error when the call
  takes longer, and may return one for any other reason.\<close>

record ('s, 'j) order_env =
  pay :: "duration \<Rightarrow> (ChargeRequest, ChargeResponse, 's) transport"
  PublishMsg :: "nats_msg \<Rightarrow> 'j \<Rightarrow> string option \<times> 'j"
  trace_headers :: "(string \<times> string) list"
  new_uuid :: string
  now_utc :: civil

definition order_msg :: "('s, 'j) order_env \<Rightarrow> app \<Rightarrow> orderRequest \<Rightarrow> nats_msg" where
  "order_msg env a req = \<lparr>msg_Subject = subject a,
     msg_Data = marshal_event \<lparr>evt_OrderID = new_uuid env, evt_CustomerID = CustomerID req,
       evt_CustomerEmail = CustomerEmail req, evt_AmountMinor = AmountMinor req,
       evt_Currency = Currency req, evt_CreatedAt = now_utc env\<rparr>,
     msg_Header = trace_headers env\<rparr>"

definition charge_request :: "string \<Rightarrow> orderRequest \<Rightarrow> ChargeRequest" where
  "charge_request orderID req = \<lparr>charge_OrderId = orderID, charge_CustomerId = CustomerID req,
     charge_AmountMinor = AmountMinor req, charge_Currency = Currency req\<rparr>"

text \<open>The reply is a map, whose keys are encoded in sorted order.\<close>

definition created_reply :: "string \<Rightarrow> string \<Rightarrow> string" where
  "created_reply orderID paymentID = encode_object
    [(''order_id'', encode_string orderID), (''payment_id'', encode_string paymentID),
     (''status'', encode_string ''created'')] @ [CHR 0x0A]"

definition handleCreate :: "('s, 'j) order_env \<Rightarrow> app \<Rightarrow> string \<Rightarrow> 's \<times> 'j \<Rightarrow> wcall list \<times> 's \<times> 'j" where
  "handleCreate env a req_body st =
    (let (s, j) = st
     in case Decode dec_order zero_order req_body of
          None \<Rightarrow> (http_Error ''invalid json'' StatusBadRequest, s, j)
        | Some req \<Rightarrow>
          (let orderID = new_uuid env;
               ((resp, err), s1) =
                 paymentsServiceClient_Charge (pay env call_timeout) (Some (charge_request orderID req)) s
           in if err \<noteq> None then (http_Error ''payments unavailable'' StatusBadGateway, s1, j)
              else if ChargeResponse_GetStatus resp \<noteq> ChargeResponse_STATUS_AUTHORIZED then
                (http_Error (''declined: '' @ ChargeResponse_GetDeclineReason resp)
                   StatusPaymentRequired, s1, j)
              else
                (let j1 = (if \<not> publishingPaused a then snd (PublishMsg env (order_msg env a req) j)
                           else j)
                 in ([SetHeader ''Content-Type'' ''application/json'',
                      Write (created_reply orderID (ChargeResponse_GetPaymentId resp))], s1, j1))))"

section \<open>Routes and start-up\<close>

datatype orders_handler = HObs obs_handler | HCreate | HRoot

definition orders_routes :: "(string \<times> orders_handler) list" where
  "orders_routes = [(''POST /orders'', HCreate), (''GET /'', HRoot)]"

definition orders_mux :: "(pattern \<times> orders_handler) list option" where
  "orders_mux = Option.bind Mux (\<lambda>m. handle_all orders_routes (map (\<lambda>(p, h). (p, HObs h)) m))"

definition serve_root :: "wcall list" where
  "serve_root = [Write (''reliability-lab orders-svc'' @ [CHR 0x0A])]"

record orders_main_env =
  ord_env :: environment
  ord_tracing :: "tracing_error option"
  ord_dial :: "string \<Rightarrow> string option"
  ord_connect :: "string \<Rightarrow> string option"
  ord_jetstream :: "string option"

definition orders_main :: "string \<Rightarrow> orders_main_env \<Rightarrow>
    (string \<times> app \<times> (pattern \<times> orders_handler) list \<times> Health) startup" where
  "orders_main defaultURL e =
    (let httpAddr = envOr (ord_env e) ''LISTEN_ADDR_HTTP'' '':8080'';
         payAddr = envOr (ord_env e) ''PAYMENTS_ADDR'' ''payments-svc:9000'';
         natsURL = envOr (ord_env e) ''NATS_URL'' defaultURL;
         subj = envOr (ord_env e) ''NATS_SUBJECT'' ''orders.events.created''
     in case ord_tracing e of Some _ \<Rightarrow> Exit 1 [(LevelError, ''init tracing'')] | None \<Rightarrow>
       (case ord_dial e payAddr of Some _ \<Rightarrow> Exit 1 [(LevelError, ''dial payments'')] | None \<Rightarrow>
       (case ord_connect e natsURL of Some _ \<Rightarrow> Exit 1 [(LevelError, ''nats connect'')] | None \<Rightarrow>
       (case ord_jetstream e of Some _ \<Rightarrow> Exit 1 [(LevelError, ''jetstream'')] | None \<Rightarrow>
       (case orders_mux of
          None \<Rightarrow> Panic ''conflicting pattern''
        | Some mux \<Rightarrow>
            Started (httpAddr, \<lparr>subject = subj, publishingPaused = False\<rparr>, mux, Ready NewHealth))))))"

text \<open>The end of \<open>main\<close> after \<open>Serve\<close> returned.\<close>

definition orders_exit :: "net_error option \<Rightarrow> nat \<times> log_record list" where
  "orders_exit err = (case err of
     Some _ \<Rightarrow> (1, [(LevelError, ''http serve'')]) | None \<Rightarrow> (0, [(LevelInfo, ''shut down clean'')]))"

section \<open>Lemmas\<close>

lemma code_reply: "code [SetHeader k v, Write m] = 200" "body (respond [SetHeader k v, Write m]) = m"
  by (simp_all add: code_def respond_def new_response_def status_send_header informational_def Let_def)

lemma handleCreate_headers_first: "headers_before_writes (fst (handleCreate env a req_body st))"
  by (auto simp: handleCreate_def http_Error_def informational_def Let_def
      split: prod.splits option.splits)

lemma marshal_event_scan:
  assumes "t_year (evt_CreatedAt e) \<le> 9999"
  shows "scan MValue [] (marshal_event e) = Some (JObj
    [(encode_body ''order_id'', JStr (encode_body (evt_OrderID e))),
     (encode_body ''customer_id'', JStr (encode_body (evt_CustomerID e))),
     (encode_body ''customer_email'', JStr (encode_body (evt_CustomerEmail e))),
     (encode_body ''amount_minor'', JNum (encode_int (sint (evt_AmountMinor e)))),
     (encode_body ''currency'', JStr (encode_body (evt_Currency e))),
     (encode_body ''created_at'', JStr (format_rfc3339 (evt_CreatedAt e, 0)))], [])"
proof -
  let ?t = "(evt_CreatedAt e, 0 :: int)"
  have t: "value_text 0 (CHR 0x22 # format_rfc3339 ?t @ [CHR 0x22]) (JStr (format_rfc3339 ?t))"
    by (intro value_text_literal str_fold_plain format_plain)
  have "Time_MarshalJSON ?t = Some (CHR 0x22 # format_rfc3339 ?t @ [CHR 0x22])"
    using assms by (simp add: Time_MarshalJSON_def)
  then show ?thesis
    unfolding marshal_event_def option.case
    by (simp only: option.case) (rule scan_object [where n = 0],
      simp_all add: value_text_string value_text_int t maxNestingDepth_def)
qed

lemma key_names:
  "unquote (encode_body ''order_id'') = ''order_id''"
  "unquote (encode_body ''customer_id'') = ''customer_id''"
  "unquote (encode_body ''customer_email'') = ''customer_email''"
  "unquote (encode_body ''amount_minor'') = ''amount_minor''"
  "unquote (encode_body ''currency'') = ''currency''"
  "unquote (encode_body ''created_at'') = ''created_at''"
  by (simp_all add: unquote_encode to_valid_ascii)

lemma incoming_fields:
  "find_field [(''order_id'', d), (''customer_email'', d')] ''order_id'' = Some d"
  "find_field [(''order_id'', d), (''customer_email'', d')] ''customer_email'' = Some d'"
  "find_field [(''order_id'', d), (''customer_email'', d')] ''customer_id'' = None"
  "find_field [(''order_id'', d), (''customer_email'', d')] ''amount_minor'' = None"
  "find_field [(''order_id'', d), (''customer_email'', d')] ''currency'' = None"
  "find_field [(''order_id'', d), (''customer_email'', d')] ''created_at'' = None"
  by (simp_all add: find_field_def)

lemma event_decodes:
  assumes "t_year (evt_CreatedAt e) \<le> 9999"
  shows "Unmarshal dec_incoming zero_incoming (marshal_event e) =
    Some \<lparr>in_OrderID = to_valid (evt_OrderID e), in_CustomerEmail = to_valid (evt_CustomerEmail e)\<rparr>"
  by (simp add: Unmarshal_def marshal_event_scan [OF assms] dec_incoming_def dec_struct_def
      incoming_fields field_def dec_string_def key_names unquote_encode [of "evt_OrderID e"]
      unquote_encode [of "evt_CustomerEmail e"] zero_incoming_def)

lemma empty_object_decodes: "Decode dec_order zero_order [CHR 0x7B, CHR 0x7D] = Some zero_order"
proof -
  have "scan MValue [] [CHR 0x7B, CHR 0x7D] = Some (JObj [], [])" by code_simp
  then show ?thesis by (simp add: Decode_def dec_order_def dec_struct_def)
qed

lemma overlap_root:
  assumes "p \<in> {''/metrics'', ''/healthz'', ''/readyz''}"
  shows "requests (parsePattern ''GET /'') \<inter> requests (parsePattern p) \<noteq> {}
    \<and> \<not> requests (parsePattern ''GET /'') \<subseteq> requests (parsePattern p)
    \<and> \<not> requests (parsePattern p) \<subseteq> requests (parsePattern ''GET /'')"
proof -
  have "comparePathsAndMethods (parsePattern ''GET /'') (parsePattern ''/metrics'') = Overlaps"
    "comparePathsAndMethods (parsePattern ''GET /'') (parsePattern ''/healthz'') = Overlaps"
    "comparePathsAndMethods (parsePattern ''GET /'') (parsePattern ''/readyz'') = Overlaps"
    by code_simp+
  then have "comparePathsAndMethods (parsePattern ''GET /'') (parsePattern p) = Overlaps"
    using assms by blast
  moreover have "wf_segments (segments (parsePattern ''GET /''))"
    "wf_segments (segments (parsePattern ''/metrics''))" "wf_segments (segments (parsePattern ''/healthz''))"
    "wf_segments (segments (parsePattern ''/readyz''))"
    by code_simp+
  ultimately have "set_rel (requests (parsePattern ''GET /'')) (requests (parsePattern p)) = Overlaps"
    using assms compare_requests by auto
  then show ?thesis by (auto simp: set_rel_def split: if_splits)
qed

section \<open>Properties\<close>

text \<open>
  C10: the create handler on every branch. A body that does not decode is answered 400 and
  touches nothing; otherwise the payments service is called exactly once, with a deadline of five
  seconds, and an error of that call is answered 502, a reply that is not authorized 402 with the decline reason, both
  without publishing; an authorized order is answered 200 with its two identifiers, and
  exactly one event is handed to JetStream unless publishing is paused. Whether that publish
  fails makes no difference to the answer.
\<close>

theorem handleCreate_outcome:
  "case handleCreate env a req_body (s, j) of (ops, s', j') \<Rightarrow>
   (case Decode dec_order zero_order req_body of
      None \<Rightarrow> code ops = StatusBadRequest \<and> s' = s \<and> j' = j
    | Some req \<Rightarrow>
      (case pay env call_timeout PaymentsService_Charge_FullMethodName (Some (charge_request (new_uuid env) req)) s of
         (Inl e, s1) \<Rightarrow> code ops = StatusBadGateway \<and> s' = s1 \<and> j' = j
       | (Inr out, s1) \<Rightarrow> s' = s1 \<and>
          (if charge_Status out = ChargeResponse_STATUS_AUTHORIZED
           then code ops = StatusOK
             \<and> body (respond ops) = created_reply (new_uuid env) (charge_PaymentId out)
             \<and> j' = (if publishingPaused a then j else snd (PublishMsg env (order_msg env a req) j))
           else code ops = StatusPaymentRequired
             \<and> body (respond ops) = ''declined: '' @ charge_DeclineReason out @ [CHR 0x0A]
             \<and> j' = j)))"
proof (cases "Decode dec_order zero_order req_body")
  case None
  then show ?thesis by (simp add: handleCreate_def informational_def)
next
  case (Some req)
  obtain r s1 where r: "pay env call_timeout PaymentsService_Charge_FullMethodName
      (Some (charge_request (new_uuid env) req)) s = (r, s1)"
    by (metis surj_pair)
  show ?thesis
    by (cases r) (simp_all add: handleCreate_def Some r paymentsServiceClient_Charge_def
        unary_call_def getter_defs informational_def code_reply)
qed

text \<open>
  C9: what orders publishes, email accepts. For every event of a year up to 9999, whatever bytes the
  client put in its strings, the JSON text the orders service publishes decodes in the email worker to the
  same order identifier and email address, with invalid UTF-8 replaced, and the worker
  acknowledges the message; it never terminates one.
\<close>

theorem published_event_accepted:
  assumes "t_year (evt_CreatedAt e) \<le> 9999"
  shows "Unmarshal dec_incoming zero_incoming (marshal_event e) =
      Some \<lparr>in_OrderID = to_valid (evt_OrderID e), in_CustomerEmail = to_valid (evt_CustomerEmail e)\<rparr>
    \<and> settled (handler ack_result (marshal_event e)) = [Ack]
    \<and> (''order.id'', to_valid (evt_OrderID e)) \<in> set (span_attrs (handler ack_result (marshal_event e)))"
  using event_decodes [OF assms] by (simp add: handler_def Let_def)

definition sample_time :: civil where
  "sample_time = \<lparr>t_year = 2026, t_month = 1, t_day = 2, t_hour = 3, t_min = 4, t_sec = 5, t_nsec = 60\<rparr>"

definition sample_event :: orderEvent where
  "sample_event = \<lparr>evt_OrderID = ''o1'', evt_CustomerID = ''c1'', evt_CustomerEmail = ''a@b'' @ [CHR 0xFF, CHR 0x22],
     evt_AmountMinor = -1, evt_Currency = ''EUR'', evt_CreatedAt = sample_time\<rparr>"

theorem published_event_accepted_witness:
  "settled (handler None (marshal_event sample_event)) = [Ack]
   \<and> (''order.id'', ''o1'') \<in> set (span_attrs (handler None (marshal_event sample_event)))"
proof -
  have "to_valid ''o1'' = ''o1''" by (simp add: to_valid_ascii)
  then show ?thesis
    using published_event_accepted [of sample_event None]
    by (simp add: sample_event_def sample_time_def)
qed

text \<open>
  C34: the orders service cannot start. The last two registrations on the mux of the probes are
  \<open>POST /orders\<close>, which is accepted, and \<open>GET /\<close>, whose requests overlap with those of the
  probe patterns, such as \<open>/healthz\<close>, without containing or being contained in them; \<open>ServeMux\<close> panics on such
  a pair, so that \<open>main\<close> ends in an exit or a panic in every environment and never serves.
\<close>

theorem orders_routes_conflict:
  "orders_mux = None
   \<and> Option.bind Mux (\<lambda>m. handle_all [(''POST /orders'', HCreate)] (map (\<lambda>(p, h). (p, HObs h)) m)) \<noteq> None
   \<and> requests (parsePattern ''GET /'') \<inter> requests (parsePattern ''/healthz'') \<noteq> {}
   \<and> \<not> requests (parsePattern ''GET /'') \<subseteq> requests (parsePattern ''/healthz'')
   \<and> \<not> requests (parsePattern ''/healthz'') \<subseteq> requests (parsePattern ''GET /'')
   \<and> (\<nexists>x. orders_main defaultURL e = Started x)"
proof -
  have none: "orders_mux = None" by code_simp
  have some: "Option.bind Mux (\<lambda>m. handle_all [(''POST /orders'', HCreate)]
      (map (\<lambda>(p, h). (p, HObs h)) m)) \<noteq> None" by code_simp
  note conflict = overlap_root [of "''/healthz''", simplified]
  have "\<nexists>x. orders_main defaultURL e = Started x"
    by (simp add: orders_main_def Let_def none split: option.splits)
  with none some conflict show ?thesis by blast
qed

text \<open>
  The request metrics of the orders service count the status the client received: for every
  request to the create handler, the middleware counts it under the route, the method and
  exactly the status of the response.
\<close>

theorem orders_metrics_label:
  "requests_total (snd (Wrap ''post_orders'' m elapsed (fst (handleCreate env a req_body st)) ms))
     (''post_orders'', m, Itoa c) =
   requests_total ms (''post_orders'', m, Itoa c) +
     (if c = code (fst (handleCreate env a req_body st)) then 1 else 0)"
  by (rule wrap_label [OF handleCreate_headers_first])

end
