(* ===== verification/Orders_SLO.thy ===== *)
theory Orders_SLO
  imports Orders_Svc
begin

text \<open>
  The availability objective of the orders service. \<open>k8s/prometheus/rules/orders-slo.yaml\<close> computes
  it from the request counter of the RED middleware: responses whose code does not match \<open>5..\<close>,
  over all responses of the route \<open>post_orders\<close>, between two readings of the counter. The lemmas
  connect those expressions to the code: they relate the burn rate to the answers of
  \<open>handleCreate\<close> and, through the payments service, to what the inventory service does.
\<close>

section \<open>Model\<close>

text \<open>Requests that reach the route \<open>POST /orders\<close>, one after the other, through the middleware.\<close>

fun serve_orders :: "app \<Rightarrow> (('s, 'j) order_env \<times> string \<times> duration) list \<Rightarrow> HTTPMetrics \<times> 's \<times> 'j \<Rightarrow>
    int list \<times> HTTPMetrics \<times> 's \<times> 'j" where
  "serve_orders a [] st = ([], st)"
| "serve_orders a ((env, req_body, elapsed) # rs) (m, st) =
    (let (ops, st1) = handleCreate env a req_body st;
         (sent, m1) = Wrap ''post_orders'' ''POST'' elapsed ops m;
         (cs, st2) = serve_orders a rs (m1, st1)
     in (code sent # cs, st2))"

text \<open>
  The matcher \<open>code=~"5.."\<close>, and \<open>sum(orders_http_requests_total{handler="post_orders", ...})\<close>
  over the series whose code label satisfies a predicate.
\<close>

definition is_5xx :: "string \<Rightarrow> bool" where
  "is_5xx c \<longleftrightarrow> length c = 3 \<and> hd c = CHR ''5'' \<and> CHR 0x0A \<notin> set c"

definition series :: "HTTPMetrics \<Rightarrow> red_labels set" where
  "series m = {ls. requests_total m ls \<noteq> 0}"

definition requests_sum :: "(string \<Rightarrow> bool) \<Rightarrow> HTTPMetrics \<Rightarrow> nat" where
  "requests_sum P m = (\<Sum>ls \<in> {ls \<in> series m. fst ls = ''post_orders'' \<and> P (snd (snd ls))}. requests_total m ls)"

text \<open>
  \<open>slo:orders_success_ratio\<close> and \<open>slo:orders_burn_rate\<close> over a window, from the counters at its two
  ends. With no request in the window the quotient is not a number, rendered as \<open>None\<close>, and a
  comparison with it yields no alert.
\<close>

definition success_ratio :: "HTTPMetrics \<Rightarrow> HTTPMetrics \<Rightarrow> rat option" where
  "success_ratio m m' =
    (let good = requests_sum (\<lambda>c. \<not> is_5xx c) m' - requests_sum (\<lambda>c. \<not> is_5xx c) m;
         all = requests_sum (\<lambda>_. True) m' - requests_sum (\<lambda>_. True) m
     in if all = 0 then None else Some (of_nat good / of_nat all))"

definition burn_rate :: "HTTPMetrics \<Rightarrow> HTTPMetrics \<Rightarrow> rat option" where
  "burn_rate m m' = map_option (\<lambda>r. (1 - r) / (5 / 1000)) (success_ratio m m')"

definition exceeds :: "rat option \<Rightarrow> rat \<Rightarrow> bool" where
  "exceeds v bound = (case v of None \<Rightarrow> False | Some b \<Rightarrow> bound < b)"

text \<open>The expressions of the two availability alerts, for the counters six hours ago, one hour ago
  and now.\<close>

definition fast_burn :: "HTTPMetrics \<Rightarrow> HTTPMetrics \<Rightarrow> HTTPMetrics \<Rightarrow> bool" where
  "fast_burn m6 m1 m \<longleftrightarrow> exceeds (burn_rate m1 m) (144 / 10) \<and> exceeds (burn_rate m6 m) 6"

definition slow_burn :: "HTTPMetrics \<Rightarrow> HTTPMetrics \<Rightarrow> HTTPMetrics \<Rightarrow> bool" where
  "slow_burn m6 m1 m \<longleftrightarrow> exceeds (burn_rate m6 m) 6 \<and> exceeds (burn_rate m1 m) 1"

section \<open>Lemmas\<close>

lemma series_Wrap:
  assumes "finite (series m)"
  shows "finite (series (snd (Wrap h me el ops m)))"
  by (rule finite_subset [of _ "insert (h, me, Itoa (recorded_code ops)) (series m)"])
    (use assms in \<open>auto simp: series_def Wrap_def Let_def split: if_splits\<close>)

lemma sum_superset:
  assumes "finite A" "series m \<subseteq> A"
  shows "requests_sum P m = (\<Sum>ls \<in> {ls \<in> A. fst ls = ''post_orders'' \<and> P (snd (snd ls))}. requests_total m ls)"
  unfolding requests_sum_def using assms by (intro sum.mono_neutral_left) (auto simp: series_def)

lemma sum_Wrap:
  assumes "finite (series m)" "headers_before_writes ops"
  shows "requests_sum P (snd (Wrap ''post_orders'' me el ops m)) = requests_sum P m + (if P (Itoa (code ops)) then 1 else 0)"
proof -
  let ?l = "(''post_orders'', me, Itoa (code ops))"
  let ?m = "snd (Wrap ''post_orders'' me el ops m)"
  let ?A = "insert ?l (series m)"
  let ?B = "{ls \<in> ?A. fst ls = ''post_orders'' \<and> P (snd (snd ls))}"
  have upd: "requests_total ?m = (requests_total m)(?l := requests_total m ?l + 1)"
    using recorded_code_is [OF assms(2)] by (simp add: Wrap_def Let_def)
  then have sub: "series ?m \<subseteq> ?A" by (auto simp: series_def split: if_splits)
  have "requests_sum P ?m = (\<Sum>ls \<in> ?B. requests_total m ls + (if ls = ?l then 1 else 0))"
    unfolding sum_superset [OF _ sub, of P, simplified, OF assms(1)]
    by (rule sum.cong) (simp_all add: upd)
  also have "\<dots> = requests_sum P m + (if ?l \<in> ?B then 1 else 0)"
    using assms(1) sum_superset [of ?A m P] by (simp add: sum.distrib subset_insertI del: mem_Collect_eq)
  finally show ?thesis by simp
qed

lemma handleCreate_codes:
  "code (fst (handleCreate env a req_body st)) \<in> {StatusOK, StatusBadRequest, StatusPaymentRequired, StatusBadGateway}"
  by (auto simp: handleCreate_def Let_def informational_def code_reply split: prod.splits option.splits)

lemma is_5xx_codes:
  "\<not> is_5xx (Itoa StatusOK)" "\<not> is_5xx (Itoa StatusBadRequest)"
  "\<not> is_5xx (Itoa StatusPaymentRequired)" "is_5xx (Itoa StatusBadGateway)"
  by code_simp+

lemma serve_orders_counts:
  assumes "finite (series m)" "serve_orders a rs (m, st) = (cs, m', st')"
  shows "finite (series m') \<and> length cs = length rs
    \<and> requests_sum P m' = requests_sum P m + length (filter (\<lambda>c. P (Itoa c)) cs)
    \<and> set cs \<subseteq> {StatusOK, StatusBadRequest, StatusPaymentRequired, StatusBadGateway}"
  using assms
proof (induction rs arbitrary: m st cs)
  case (Cons r rs)
  obtain env req_body elapsed where r: "r = (env, req_body, elapsed)" by (cases r)
  obtain ops st1 where h: "handleCreate env a req_body st = (ops, st1)" by (metis surj_pair)
  let ?m = "snd (Wrap ''post_orders'' ''POST'' elapsed ops m)"
  obtain cs1 where cs: "serve_orders a rs (?m, st1) = (cs1, m', st')" "cs = code ops # cs1"
    using Cons.prems(2) by (auto simp: r h Wrap_def Let_def split: prod.splits)
  have "headers_before_writes ops" using handleCreate_headers_first [of env a req_body st] h by simp
  note step = sum_Wrap [OF Cons.prems(1) this, of P "''POST''" elapsed]
  have "code ops \<in> {StatusOK, StatusBadRequest, StatusPaymentRequired, StatusBadGateway}"
    using handleCreate_codes [of env a req_body st] h by simp
  with Cons.IH [OF series_Wrap [OF Cons.prems(1)] cs(1)] step show ?case by (simp add: cs(2))
qed simp


text \<open>
  A connection over which a call to a method takes a given time: the caller gets the answer if that
  is within its deadline, and an error if it is not, in which case the server may have handled the
  call or not. \<open>timed_conn\<close> is one that loses the late calls.
\<close>

definition call_takes :: "(duration \<Rightarrow> ('q, 'r, 's) transport) \<Rightarrow> ('q, 'r, 's) rpc_method \<Rightarrow> duration \<Rightarrow> bool" where
  "call_takes conn srv took \<longleftrightarrow> (\<forall>limit m inp s.
     if took \<le> limit then conn limit m inp s = local_transport srv m inp s
     else isl (fst (conn limit m inp s)))"

definition timed_conn :: "('q, 'r, 's) rpc_method \<Rightarrow> duration \<Rightarrow> duration \<Rightarrow> ('q, 'r, 's) transport" where
  "timed_conn srv took limit = (if took \<le> limit then local_transport srv else down_transport)"

lemma call_takes_timed: "call_takes (timed_conn srv took) srv took"
  by (simp add: call_takes_def timed_conn_def down_transport_def)

lemma call_takesD:
  assumes "call_takes conn srv took"
  shows "took \<le> limit \<Longrightarrow> conn limit = local_transport srv"
    and "limit < took \<Longrightarrow> isl (fst (conn limit m inp s))"
  using assms unfolding call_takes_def by (metis ext, metis linorder_not_le)

text \<open>A payments service that is reached answers without an error, whatever the inventory does;
  when the inventory cannot be reached its answer is a decline.\<close>

lemma reached_no_502:
  assumes "pay env call_timeout = local_transport (Charge invoke rnd uuid)"
  shows "code (fst (handleCreate env a req_body st)) \<noteq> StatusBadGateway"
  by (auto simp: handleCreate_def assms paymentsServiceClient_Charge_def unary_call_def local_transport_def
      Charge_def Let_def informational_def code_reply split: prod.splits option.splits sum.splits if_splits)

lemma outage_402:
  assumes "pay env call_timeout = local_transport (Charge invoke rnd uuid)"
    and "\<forall>inp s. isl (fst (invoke InventoryService_Reserve_FullMethodName inp s))"
    and "Decode dec_order zero_order req_body \<noteq> None"
  shows "code (fst (handleCreate env a req_body st)) = StatusPaymentRequired"
proof -
  obtain req where req: "Decode dec_order zero_order req_body = Some req" using assms(3) by blast
  obtain s slept j where st: "st = ((s, slept), j)" by (metis surj_pair)
  let ?inp = "Some \<lparr>reserve_OrderId = charge_OrderId (charge_request (new_uuid env) req),
    reserve_Items = [Some default_item]\<rparr>"
  obtain e s' where "invoke InventoryService_Reserve_FullMethodName ?inp s = (Inl e, s')"
    using assms(2) by (metis isl_def prod.collapse)
  then show ?thesis
    by (simp add: handleCreate_def req st assms(1) paymentsServiceClient_Charge_def unary_call_def
        local_transport_def Charge_def inventoryServiceClient_Reserve_def getter_defs charge_status_defs
        informational_def Let_def)
qed

lemma late_502:
  assumes "isl (fst (pay env call_timeout PaymentsService_Charge_FullMethodName inp (fst st)))"
    and "Decode dec_order zero_order req_body = Some req" "inp = Some (charge_request (new_uuid env) req)"
  shows "code (fst (handleCreate env a req_body st)) = StatusBadGateway"
proof -
  obtain s j where st: "st = (s, j)" by fastforce
  obtain e s1 where "pay env call_timeout PaymentsService_Charge_FullMethodName inp s = (Inl e, s1)"
    using assms(1) by (metis st fst_conv isl_def prod.collapse)
  then show ?thesis
    using assms(2,3)
    by (simp add: handleCreate_def st paymentsServiceClient_Charge_def unary_call_def informational_def)
qed

text \<open>A request is answered 502 exactly when it decodes and its call takes longer than the deadline.\<close>

lemma timed_502:
  assumes "call_takes (pay env) (Charge invoke rnd uuid) took"
  shows "code (fst (handleCreate env a req_body st)) = StatusBadGateway \<longleftrightarrow>
    call_timeout < took \<and> Decode dec_order zero_order req_body \<noteq> None"
proof (cases "took \<le> call_timeout")
  case True
  then show ?thesis using reached_no_502 [OF call_takesD(1) [OF assms True]] by simp
next
  case False
  then have late: "isl (fst (pay env call_timeout m inp s))" for m inp s
    using call_takesD(2) [OF assms] by simp
  show ?thesis
  proof (cases "Decode dec_order zero_order req_body")
    case None
    then show ?thesis by (cases st) (simp add: handleCreate_def informational_def)
  next
    case (Some req)
    then show ?thesis using late_502 [OF late Some refl] False by simp
  qed
qed

lemma serve_orders_all2:
  assumes "serve_orders a rs (m, st) = (cs, m', st')" "length ts = length rs"
    and "\<And>t env req_body el st. (t, env, req_body, el) \<in> set (zip ts rs) \<Longrightarrow>
      P (t, env, req_body, el) (code (fst (handleCreate env a req_body st)))"
  shows "list_all2 P (zip ts rs) cs"
  using assms
proof (induction rs arbitrary: m st cs ts)
  case (Cons r rs)
  obtain env req_body elapsed where r: "r = (env, req_body, elapsed)" by (cases r)
  obtain t ts1 where ts: "ts = t # ts1" using Cons.prems(2) by (cases ts) auto
  obtain ops st1 where h: "handleCreate env a req_body st = (ops, st1)" by (metis surj_pair)
  obtain cs1 where cs: "serve_orders a rs (snd (Wrap ''post_orders'' ''POST'' elapsed ops m), st1) = (cs1, m', st')"
    "cs = code ops # cs1"
    using Cons.prems(1) by (auto simp: r h Wrap_def Let_def split: prod.splits)
  have "list_all2 P (zip ts1 rs) cs1"
    by (rule Cons.IH [OF cs(1)]) (use Cons.prems(2,3) in \<open>auto simp: ts\<close>)
  with Cons.prems(3) [of t env req_body elapsed st] show ?case by (simp add: cs(2) r h ts)
qed simp

lemma all2_right: "list_all2 (\<lambda>x y. Q y) xs ys \<Longrightarrow> \<forall>y \<in> set ys. Q y"
  by (induction rule: list_all2_induct) auto

lemma count_all2: "list_all2 (\<lambda>x y. P x = Q y) xs ys \<Longrightarrow> length (filter P xs) = length (filter Q ys)"
  by (induction rule: list_all2_induct) auto

lemma burn_of_codes:
  assumes "finite (series m)" "serve_orders a rs (m, st) = (cs, m', st')" "rs \<noteq> []"
  shows "burn_rate m m' = Some (200 * of_nat (length (filter (\<lambda>c. c = StatusBadGateway) cs)) / of_nat (length rs))"
proof -
  note counts = serve_orders_counts [OF assms(1,2)]
  have codes: "set cs \<subseteq> {StatusOK, StatusBadRequest, StatusPaymentRequired, StatusBadGateway}"
    and len: "length cs = length rs" using counts by blast+
  let ?bad = "length (filter (\<lambda>c. c = StatusBadGateway) cs)"
  have "filter (\<lambda>c. \<not> is_5xx (Itoa c)) cs = filter (\<lambda>c. c \<noteq> StatusBadGateway) cs"
    using codes is_5xx_codes by (intro filter_cong) auto
  moreover have "?bad + length (filter (\<lambda>c. c \<noteq> StatusBadGateway) cs) = length rs"
    using sum_length_filter_compl [of "\<lambda>c. c = StatusBadGateway" cs] len by simp
  ultimately have "requests_sum (\<lambda>c. \<not> is_5xx c) m' - requests_sum (\<lambda>c. \<not> is_5xx c) m = length rs - ?bad"
    using conjunct1 [OF conjunct2 [OF conjunct2 [OF counts]], of "\<lambda>c. \<not> is_5xx c"] by simp
  moreover have "requests_sum (\<lambda>_. True) m' - requests_sum (\<lambda>_. True) m = length rs"
    using conjunct1 [OF conjunct2 [OF conjunct2 [OF counts]], of "\<lambda>_. True"] len by simp
  moreover have "?bad \<le> length rs" using len by (metis length_filter_le)
  ultimately show ?thesis using assms(3)
    by (simp add: burn_rate_def success_ratio_def Let_def of_nat_diff field_simps)
qed

section \<open>Properties\<close>

text \<open>
  C31: what the availability alert measures. Over any non-empty window of requests to the create
  handler, the burn rate computed from the request counters is two hundred times the share of
  requests answered 502, which are those whose call to the payments service failed; so the
  one-hour condition of the fast-burn alert holds exactly when more than 7.2 percent of the
  requests of the window got that answer.
\<close>

theorem orders_burn_rate:
  assumes "finite (series m)" "serve_orders a rs (m, st) = (cs, m', st')" "rs \<noteq> []"
  shows "length cs = length rs
    \<and> burn_rate m m' = Some (200 * of_nat (length (filter (\<lambda>c. c = StatusBadGateway) cs)) / of_nat (length rs))
    \<and> (exceeds (burn_rate m m') (144 / 10) \<longleftrightarrow>
        72 * length rs < 1000 * length (filter (\<lambda>c. c = StatusBadGateway) cs))"
proof -
  let ?bad = "length (filter (\<lambda>c. c = StatusBadGateway) cs)"
  note b = burn_of_codes [OF assms]
  have "(144 / 10 < (200 * of_nat ?bad / of_nat (length rs) :: rat)) \<longleftrightarrow>
      (of_nat (72 * length rs) :: rat) < of_nat (1000 * ?bad)"
    using assms(3) by (simp add: field_simps)
  then have "exceeds (burn_rate m m') (144 / 10) \<longleftrightarrow> 72 * length rs < 1000 * ?bad"
    unfolding b exceeds_def option.case of_nat_less_iff .
  with b serve_orders_counts [OF assms(1,2)] show ?thesis by blast
qed

definition sample_env :: "(ChargeRequest, ChargeResponse, 's) transport \<Rightarrow> ('s, unit) order_env" where
  "sample_env tr = \<lparr>pay = (\<lambda>_. tr), PublishMsg = (\<lambda>_ j. (None, j)), trace_headers = [], new_uuid = ''o1'',
     now_utc = sample_time\<rparr>"

abbreviation sample_app :: app where
  "sample_app \<equiv> \<lparr>subject = ''orders.events.created'', publishingPaused = False\<rparr>"

lemma series_new: "finite (series NewHTTPMetrics)"
  by (simp add: series_def NewHTTPMetrics_def)

theorem orders_burn_rate_witness:
  "\<exists>m'. serve_orders sample_app [(sample_env down_transport, [CHR 0x7B, CHR 0x7D], 7)] (NewHTTPMetrics, (), ()) =
      ([StatusBadGateway], m', ((), ())) \<and> burn_rate NewHTTPMetrics m' = Some 200"
proof -
  let ?rs = "[(sample_env down_transport, [CHR 0x7B, CHR 0x7D], 7)] :: ((unit, unit) order_env \<times> string \<times> duration) list"
  obtain m' where run: "serve_orders sample_app ?rs (NewHTTPMetrics, ((), ())) = ([StatusBadGateway], m', ((), ()))"
    by (simp add: handleCreate_def empty_object_decodes sample_env_def paymentsServiceClient_Charge_def
        unary_call_def down_transport_def Wrap_def Let_def informational_def)
  from orders_burn_rate [OF series_new run] have "burn_rate NewHTTPMetrics m' = Some 200" by simp
  with run show ?thesis by blast
qed

text \<open>
  C30: what the objective sees of the inventory. Over a window of requests whose connections reach the
  payments service, the burn rate of the orders service is two hundred times the share of decodable
  requests whose call to the payments service took longer than its deadline of five seconds, as it
  does when the inventory hangs. So an inventory that answers in time, however it answers, burns
  nothing and neither availability alert can fire; in particular one that fails fast turns every
  decodable order of the window into a 402, which the rules count as a success.
\<close>

theorem inventory_outage_unseen:
  assumes "finite (series m)" "serve_orders a rs (m, st) = (cs, m', st')" "rs \<noteq> []"
    and "list_all2 (\<lambda>took (env, req_body, el). \<exists>rnd uuid. call_takes (pay env) (Charge invoke rnd uuid) took) ts rs"
  shows "burn_rate m m' = Some (200 * of_nat (length (filter (\<lambda>(took, env, req_body, el).
        5 * second < took \<and> Decode dec_order zero_order req_body \<noteq> None) (zip ts rs))) / of_nat (length rs))
    \<and> ((\<forall>took \<in> set ts. took \<le> 5 * second) \<longrightarrow>
        burn_rate m m' = Some 0 \<and> \<not> fast_burn m6 m m' \<and> \<not> slow_burn m6 m m'
        \<and> ((\<forall>inp s. isl (fst (invoke InventoryService_Reserve_FullMethodName inp s)))
            \<longrightarrow> (\<forall>(env, req_body, el) \<in> set rs. Decode dec_order zero_order req_body \<noteq> None)
            \<longrightarrow> (\<forall>c \<in> set cs. c = StatusPaymentRequired)))"
proof -
  have len: "length ts = length rs" using assms(4) by (rule list_all2_lengthD)
  have conn: "\<exists>rnd uuid. call_takes (pay env) (Charge invoke rnd uuid) took"
    if "(took, env, req_body, el) \<in> set (zip ts rs)" for took env req_body el
    using assms(4) that by (auto simp: list_all2_iff)
  let ?late = "\<lambda>(took, env, req_body, el). 5 * second < took \<and> Decode dec_order zero_order req_body \<noteq> None"
  have "list_all2 (\<lambda>x c. ?late x = (c = StatusBadGateway)) (zip ts rs) cs"
    by (rule serve_orders_all2 [OF assms(2) len]) (use conn timed_502 in \<open>fastforce simp: call_timeout_def\<close>)
  then have burn: "burn_rate m m' = Some (200 * of_nat (length (filter ?late (zip ts rs))) / of_nat (length rs))"
    using burn_of_codes [OF assms(1-3)] count_all2 by metis
  show ?thesis
  proof (intro conjI impI burn)
    assume fast: "\<forall>took \<in> set ts. took \<le> 5 * second"
    then have "filter ?late (zip ts rs) = []" by (auto simp: filter_empty_conv dest!: set_zip_leftD)
    then show b: "burn_rate m m' = Some 0" using burn by simp
    show "\<not> fast_burn m6 m m'" "\<not> slow_burn m6 m m'"
      using b by (simp_all add: fast_burn_def slow_burn_def exceeds_def)
    assume down: "\<forall>inp s. isl (fst (invoke InventoryService_Reserve_FullMethodName inp s))"
      and dec: "\<forall>(env, req_body, el) \<in> set rs. Decode dec_order zero_order req_body \<noteq> None"
    have "list_all2 (\<lambda>x c. c = StatusPaymentRequired) (zip ts rs) cs"
    proof (rule serve_orders_all2 [OF assms(2) len])
      fix took env req_body el st
      assume mem: "(took, env, req_body, el) \<in> set (zip ts rs)"
      then obtain rnd uuid where c: "call_takes (pay env) (Charge invoke rnd uuid) took" using conn by blast
      have "took \<le> call_timeout" using fast set_zip_leftD [OF mem] by (simp add: call_timeout_def)
      moreover have "Decode dec_order zero_order req_body \<noteq> None" using dec set_zip_rightD [OF mem] by auto
      ultimately show "code (fst (handleCreate env a req_body st)) = StatusPaymentRequired"
        using outage_402 [OF call_takesD(1) [OF c] down] by blast
    qed
    then show "\<forall>c \<in> set cs. c = StatusPaymentRequired" by (rule all2_right)
  qed
qed

text \<open>One order with an inventory that fails fast, and one whose call hangs.\<close>

definition slo_env :: "duration \<Rightarrow> (inventory_server \<times> duration, unit) order_env" where
  "slo_env took = (sample_env down_transport)\<lparr>pay := timed_conn (Charge down_transport 3 ''p1'') took\<rparr>"

theorem inventory_outage_unseen_witness:
  "\<exists>cs m' st'. serve_orders sample_app
      [(slo_env millisecond, [CHR 0x7B, CHR 0x7D], 7), (slo_env (6 * second), [CHR 0x7B, CHR 0x7D], 7)]
      (NewHTTPMetrics, (new_inventory, 0), ()) = (cs, m', st')
    \<and> burn_rate NewHTTPMetrics m' = Some 100"
proof -
  let ?rs = "[(slo_env millisecond, [CHR 0x7B, CHR 0x7D], 7), (slo_env (6 * second), [CHR 0x7B, CHR 0x7D], 7)] ::
      ((inventory_server \<times> duration, unit) order_env \<times> string \<times> duration) list"
  obtain cs m' st' where run: "serve_orders sample_app ?rs (NewHTTPMetrics, (new_inventory, 0), ()) = (cs, m', st')"
    by (metis surj_pair)
  have "\<exists>rnd uuid. call_takes (pay (slo_env took)) (Charge down_transport rnd uuid) took" for took
    using call_takes_timed by (auto simp: slo_env_def)
  then have reach: "list_all2 (\<lambda>took (env, req_body, el). \<exists>rnd uuid. call_takes (pay env) (Charge down_transport rnd uuid) took)
      [millisecond, 6 * second] ?rs" by simp
  from inventory_outage_unseen [OF series_new run _ reach] have "burn_rate NewHTTPMetrics m' = Some 100"
    by (simp add: empty_object_decodes)
  with run show ?thesis by blast
qed

end
