(* ===== verification/Email_Delivery.thy ===== *)
theory Email_Delivery
  imports Email_Worker
begin

text \<open>
  The email worker behind its JetStream consumer: messages arrive in the stream, the consumer
  delivers them to the worker as far as \<open>MaxAckPending\<close> allows, \<open>Consume\<close> calls the handler for one
  message at a time, and a message that is not settled within \<open>AckWait\<close> of its delivery is delivered
  once more. The stream and the consumer follow the documentation of JetStream; the configuration
  and the handler are those of \<open>services/email-worker/main.go\<close>. The stream's \<open>MaxAge\<close>, at which it discards
  messages, is left to \<open>Email_Retention\<close>, which shows that it is not reached here. The lemmas show below which handling
  time no message is delivered twice, and how long a message waits behind a backlog.
\<close>

section \<open>The flow of messages\<close>

text \<open>Messages are numbered by their position in the stream. \<open>sent\<close> has their data, the time of
  their arrival and the number of unsettled messages they found; \<open>ack_pending\<close> the time of the latest
  delivery of each delivered and unsettled message; \<open>in_worker\<close> what the worker has received, the first of
  which its handler has worked on for \<open>busy\<close>; \<open>outcomes\<close> what was settled, how, and when.\<close>

record message =
  m_data :: string
  m_arrived :: duration
  m_ahead :: nat

record flow =
  clock :: duration
  sent :: "message list"
  next_seq :: nat
  ack_pending :: "nat \<rightharpoonup> duration"
  in_worker :: "nat list"
  busy :: duration
  outcomes :: "(nat \<times> settle \<times> duration) list"

datatype flow_event = Publish string | Deliver | Expire nat | Settle | Wait duration

definition flow_init :: flow where
  "flow_init = \<lparr>clock = 0, sent = [], next_seq = 0, ack_pending = Map.empty, in_worker = [], busy = 0, outcomes = []\<rparr>"

definition deliverable :: "consumer_config \<Rightarrow> flow \<Rightarrow> bool" where
  "deliverable c s \<longleftrightarrow> next_seq s < length (sent s) \<and> card (dom (ack_pending s)) < cons_MaxAckPending c"

text \<open>The time the handler needs for a message: what it sleeps, and what the rest takes.\<close>

definition handling :: "(nat \<Rightarrow> duration) \<Rightarrow> flow \<Rightarrow> nat \<Rightarrow> duration" where
  "handling extra s n = slept (handler None (m_data (sent s ! n))) + extra n"

inductive flow_step :: "consumer_config \<Rightarrow> (nat \<Rightarrow> duration) \<Rightarrow> flow \<Rightarrow> flow_event \<Rightarrow> flow \<Rightarrow> bool"
  for c extra where
  publish: "flow_step c extra s (Publish d)
    (s\<lparr>sent := sent s @ [\<lparr>m_data = d, m_arrived = clock s,
        m_ahead = length (sent s) - next_seq s + card (dom (ack_pending s))\<rparr>]\<rparr>)"
| deliver: "deliverable c s \<Longrightarrow> flow_step c extra s Deliver
    (s\<lparr>next_seq := next_seq s + 1, ack_pending := (ack_pending s)(next_seq s \<mapsto> clock s),
       in_worker := in_worker s @ [next_seq s]\<rparr>)"
| expire: "ack_pending s n = Some t \<Longrightarrow> cons_AckWait c \<le> clock s - t \<Longrightarrow> flow_step c extra s (Expire n)
    (s\<lparr>ack_pending := (ack_pending s)(n \<mapsto> clock s), in_worker := in_worker s @ [n]\<rparr>)"
| settle: "in_worker s = n # ns \<Longrightarrow> busy s = handling extra s n \<Longrightarrow> flow_step c extra s Settle
    (s\<lparr>ack_pending := (ack_pending s)(n := None), in_worker := ns, busy := 0,
       outcomes := outcomes s @ [(n, hd (settled (handler None (m_data (sent s ! n)))), clock s)]\<rparr>)"
| wait: "0 < d \<Longrightarrow> \<not> deliverable c s \<Longrightarrow>
    (\<And>n ns. in_worker s = n # ns \<Longrightarrow> busy s + d \<le> handling extra s n) \<Longrightarrow> flow_step c extra s (Wait d)
    (s\<lparr>clock := clock s + d, busy := (if in_worker s = [] then busy s else busy s + d)\<rparr>)"

inductive_cases flow_stepE: "flow_step c extra s e s'"
inductive_simps flow_step_simps:
  "flow_step c extra s (Publish d) s'" "flow_step c extra s Deliver s'" "flow_step c extra s (Expire n) s'"
  "flow_step c extra s Settle s'" "flow_step c extra s (Wait d) s'"

interpretation flow: machine "\<lambda>s. s = flow_init" "flow_step c extra" for c extra .

section \<open>The invariant\<close>

text \<open>While every message is handled within \<open>D\<close>, and \<open>MaxAckPending\<close> times \<open>D\<close> is less than \<open>AckWait\<close>: the worker
  has the messages between the settled and the undelivered ones, in order, and each has waited at
  most as long as those settled since took.\<close>

definition windowed :: "consumer_config \<Rightarrow> nat \<Rightarrow> flow \<Rightarrow> bool" where
  "windowed c a s \<longleftrightarrow> a \<le> next_seq s \<and> next_seq s \<le> length (sent s) \<and> next_seq s - a \<le> cons_MaxAckPending c
    \<and> in_worker s = [a..<next_seq s] \<and> dom (ack_pending s) = {a..<next_seq s} \<and> map fst (outcomes s) = [0..<a]
    \<and> (a = next_seq s \<longrightarrow> busy s = 0)"

definition timely :: "consumer_config \<Rightarrow> duration \<Rightarrow> nat \<Rightarrow> flow \<Rightarrow> bool" where
  "timely c D a s \<longleftrightarrow> 0 \<le> busy s \<and> busy s \<le> D
    \<and> (\<forall>n t. ack_pending s n = Some t \<longrightarrow>
         clock s - t - busy s \<le> (int (cons_MaxAckPending c) - 1 - (int n - int a)) * D)
    \<and> (\<forall>n. a \<le> n \<and> n < length (sent s) \<longrightarrow> int n - int a \<le> int (m_ahead (sent s ! n))
         \<and> clock s - m_arrived (sent s ! n) - busy s \<le> (int (m_ahead (sent s ! n)) - (int n - int a)) * D)
    \<and> (\<forall>(n, r, u) \<in> set (outcomes s). n < length (sent s) \<and> r = hd (settled (handler None (m_data (sent s ! n))))
         \<and> u - m_arrived (sent s ! n) \<le> (int (m_ahead (sent s ! n)) + 1) * D)"

lemmas flow_inv_defs = windowed_def timely_def

lemma flow_init_inv: "0 \<le> D \<Longrightarrow> windowed c 0 flow_init \<and> timely c D 0 flow_init"
  by (simp add: flow_inv_defs flow_init_def)

lemma slept_bounds: "0 \<le> slept (handler r d)" "slept (handler r d) \<le> 100 * millisecond"
  by (simp_all add: handler_def Let_def split: option.splits)

lemma head_of_window: "windowed c a s \<Longrightarrow> in_worker s = n # ns \<Longrightarrow> n = a \<and> a < next_seq s \<and> ns = [Suc a..<next_seq s]"
  by (cases "a < next_seq s") (auto simp: windowed_def upt_conv_Cons)

lemma publish_inv:
  assumes "windowed c a s" "timely c D a s" "flow_step c extra s (Publish d) s'" "0 \<le> D"
  shows "windowed c a s' \<and> timely c D a s'"
proof -
  have "card (dom (ack_pending s)) = next_seq s - a" using assms(1) by (simp add: windowed_def)
  with assms show ?thesis
    by (auto simp: flow_inv_defs flow_step_simps nth_append less_Suc_eq of_nat_diff)
qed

lemma deliver_inv:
  assumes "windowed c a s" "timely c D a s" "flow_step c extra s Deliver s'" "0 \<le> D"
  shows "windowed c a s' \<and> timely c D a s'"
proof -
  have card: "card (dom (ack_pending s)) = next_seq s - a" using assms(1) by (simp add: windowed_def)
  have s': "s' = s\<lparr>next_seq := next_seq s + 1, ack_pending := (ack_pending s)(next_seq s \<mapsto> clock s),
       in_worker := in_worker s @ [next_seq s]\<rparr>"
    and more: "next_seq s < length (sent s)" "next_seq s - a < cons_MaxAckPending c"
    using assms(3) card by (auto simp: flow_step_simps deliverable_def)
  have "windowed c a s'"
    using assms(1) more by (auto simp: windowed_def s')
  moreover have "0 \<le> (int (cons_MaxAckPending c) - 1 - (int (next_seq s) - int a)) * D"
    using more assms(1,4) by (auto simp: windowed_def)
  then have "timely c D a s'"
    using assms(2) by (auto simp: timely_def s')
  ultimately show ?thesis ..
qed

lemma settle_inv:
  assumes "windowed c a s" "timely c D a s" "flow_step c extra s Settle s'" "0 \<le> D"
  shows "windowed c (Suc a) s' \<and> timely c D (Suc a) s'"
proof -
  obtain n ns where "in_worker s = n # ns" and
    "s' = s\<lparr>ack_pending := (ack_pending s)(n := None), in_worker := ns, busy := 0,
       outcomes := outcomes s @ [(n, hd (settled (handler None (m_data (sent s ! n)))), clock s)]\<rparr>"
    using assms(3) by (auto simp: flow_step_simps)
  with head_of_window [OF assms(1)] have a: "a < next_seq s"
    and s': "s' = s\<lparr>ack_pending := (ack_pending s)(a := None), in_worker := [Suc a..<next_seq s], busy := 0,
       outcomes := outcomes s @ [(a, hd (settled (handler None (m_data (sent s ! a)))), clock s)]\<rparr>" by auto
  have "windowed c (Suc a) s'"
    using assms(1) a by (auto simp: windowed_def s')
  moreover have "timely c D (Suc a) s'"
    unfolding timely_def
  proof (intro conjI allI impI)
    fix n t assume "ack_pending s' n = Some t"
    with assms(2) have "clock s - t - busy s \<le> (int (cons_MaxAckPending c) - 1 - (int n - int a)) * D" "busy s \<le> D"
      by (auto simp: timely_def s' split: if_splits)
    then show "clock s' - t - busy s' \<le> (int (cons_MaxAckPending c) - 1 - (int n - int (Suc a))) * D"
      by (simp add: s' algebra_simps)
  next
    fix n assume n: "Suc a \<le> n \<and> n < length (sent s')"
    with assms(2) have "int n - int a \<le> int (m_ahead (sent s ! n))" "busy s \<le> D"
      "clock s - m_arrived (sent s ! n) - busy s \<le> (int (m_ahead (sent s ! n)) - (int n - int a)) * D"
      by (auto simp: timely_def s')
    then show "int n - int (Suc a) \<le> int (m_ahead (sent s' ! n))"
      "clock s' - m_arrived (sent s' ! n) - busy s' \<le> (int (m_ahead (sent s' ! n)) - (int n - int (Suc a))) * D"
      by (simp_all add: s' algebra_simps)
  next
    have "a < length (sent s)" using a assms(1) by (simp add: windowed_def)
    with assms(2) have "clock s - m_arrived (sent s ! a) - busy s \<le> int (m_ahead (sent s ! a)) * D" "busy s \<le> D"
      by (auto simp: timely_def)
    then have "clock s - m_arrived (sent s ! a) \<le> (int (m_ahead (sent s ! a)) + 1) * D"
      by (simp add: algebra_simps)
    with assms(2) \<open>a < length (sent s)\<close>
    show "\<forall>(n, r, u) \<in> set (outcomes s'). n < length (sent s') \<and> r = hd (settled (handler None (m_data (sent s' ! n))))
         \<and> u - m_arrived (sent s' ! n) \<le> (int (m_ahead (sent s' ! n)) + 1) * D"
      by (auto simp: timely_def s')
  qed (use assms(4) in \<open>simp_all add: s'\<close>)
  ultimately show ?thesis ..
qed

lemma wait_inv:
  assumes "windowed c a s" "timely c D a s" "flow_step c extra s (Wait d) s'" "0 < cons_MaxAckPending c"
    and "\<And>n. handling extra s n \<le> D"
  shows "windowed c a s' \<and> timely c D a s'"
proof (cases "a = next_seq s")
  case True
  then have "dom (ack_pending s) = {}" "in_worker s = []" using assms(1) by (simp_all add: windowed_def)
  moreover from this(1) have "length (sent s) \<le> next_seq s"
    using assms(3,4) by (auto simp: flow_step_simps deliverable_def)
  ultimately show ?thesis
    using assms(1-3) True by (auto simp: flow_inv_defs flow_step_simps)
next
  case False
  then have "in_worker s = a # [Suc a..<next_seq s]"
    using assms(1) by (simp add: windowed_def upt_conv_Cons)
  with assms(3) have "0 < d" "busy s + d \<le> handling extra s a" "s' = s\<lparr>clock := clock s + d, busy := busy s + d\<rparr>"
    by (auto simp: flow_step_simps)
  moreover from this(2) have "busy s + d \<le> D" using assms(5) [of a] by linarith
  ultimately show ?thesis using assms(1,2) False by (auto simp: flow_inv_defs algebra_simps)
qed

lemma no_expiry:
  assumes "windowed c a s" "timely c D a s" "int (cons_MaxAckPending c) * D < cons_AckWait c" "ack_pending s n = Some t" "0 \<le> D"
  shows "clock s - t < cons_AckWait c"
proof -
  have "n \<in> {a..<next_seq s}" using assms(1,4) by (auto simp: windowed_def dom_def)
  then have "(int n - int a) * D \<ge> 0" using assms(5) by simp
  moreover have "clock s - t - busy s \<le> (int (cons_MaxAckPending c) - 1 - (int n - int a)) * D" "busy s \<le> D"
    using assms(2,4) by (auto simp: timely_def)
  ultimately show ?thesis using assms(3) by (simp add: algebra_simps)
qed

text \<open>Every reachable state, by rule induction on the run.\<close>

lemma flow_inv:
  assumes "flow.reachable c extra s" "0 < cons_MaxAckPending c" "int (cons_MaxAckPending c) * D < cons_AckWait c"
    and "0 \<le> D" "\<And>n. extra n \<le> D - 100 * millisecond"
  shows "\<exists>a. windowed c a s \<and> timely c D a s"
proof (rule flow.reachable_invariant [OF assms(1), where I = "\<lambda>s. \<exists>a. windowed c a s \<and> timely c D a s"])
  show "\<exists>a. windowed c a s \<and> timely c D a s" if "s = flow_init" for s
    using flow_init_inv [OF assms(4)] that by blast
  fix s e s' assume step: "flow_step c extra s e s'" and "\<exists>a. windowed c a s \<and> timely c D a s"
  then obtain a where a: "windowed c a s" "timely c D a s" by blast
  have "handling extra s n \<le> D" for n
    using slept_bounds(2) [of None "m_data (sent s ! n)"] assms(5) [of n] by (simp add: handling_def)
  then show "\<exists>a. windowed c a s' \<and> timely c D a s'"
  proof (cases e)
    case (Expire n)
    with step obtain t where "ack_pending s n = Some t" "cons_AckWait c \<le> clock s - t" by (auto simp: flow_step_simps)
    with no_expiry [OF a assms(3) this(1) assms(4)] show ?thesis by simp
  qed (use step a publish_inv [OF a] deliver_inv [OF a] settle_inv [OF a] wait_inv [OF a] assms(2,4) in blast)+
qed

lemma expiry_free:
  assumes "flow.reachable (email_consumer subject) extra s"
    and "D < 300 * millisecond" "\<And>n. 0 \<le> extra n \<and> extra n \<le> D - 100 * millisecond"
  shows "\<exists>a. windowed (email_consumer subject) a s \<and> timely (email_consumer subject) D a s"
    and "\<not> flow_step (email_consumer subject) extra s (Expire n) s'"
proof -
  let ?c = "email_consumer subject"
  have D: "0 \<le> D" "int (cons_MaxAckPending ?c) * D < cons_AckWait ?c" "0 < cons_MaxAckPending ?c"
    using assms(2) assms(3) [of 0] by (simp_all add: email_consumer_def)
  then show inv: "\<exists>a. windowed ?c a s \<and> timely ?c D a s"
    using flow_inv [OF assms(1) D(3,2,1)] assms(3) by blast
  then obtain a where a: "windowed ?c a s" "timely ?c D a s" by blast
  show "\<not> flow_step ?c extra s (Expire n) s'"
    using no_expiry [OF a D(2) _ D(1)] by (fastforce simp: flow_step_simps)
qed

lemma empty_event_decodes: "Unmarshal dec_incoming zero_incoming ''{}'' \<noteq> None"
  by (simp add: Unmarshal_def dec_incoming_def dec_struct_def begin_value_def end_value_def
      top_value_def is_ws_def maxNestingDepth_def)

section \<open>Properties\<close>

text \<open>
  C19: every email is sent once, in order, and in a bounded time. As long as the handler needs less than
  200 ms for each message beyond the 100 ms it sleeps, the acknowledgements of a full window of
  100 messages arrive within \<open>AckWait\<close>: no message is ever delivered twice, messages are settled in the order
  of their arrival, the ones with data of the right shape by \<open>Ack\<close> and the others by \<open>Term\<close>, and a message that
  found \<open>k\<close> unsettled ones is settled within \<open>k + 1\<close> handling times of its arrival.
\<close>

theorem emails_once_in_order:
  assumes "flow.reachable (email_consumer subject) extra s"
    and "D < 300 * millisecond" "\<And>n. 0 \<le> extra n \<and> extra n \<le> D - 100 * millisecond"
  shows "map fst (outcomes s) = [0..<length (outcomes s)] \<and> length (outcomes s) \<le> length (sent s)
    \<and> (\<forall>n s'. \<not> flow_step (email_consumer subject) extra s (Expire n) s')
    \<and> (\<forall>(n, r, u) \<in> set (outcomes s).
        (r = Ack \<longleftrightarrow> Unmarshal dec_incoming zero_incoming (m_data (sent s ! n)) \<noteq> None)
        \<and> u - m_arrived (sent s ! n) \<le> (int (m_ahead (sent s ! n)) + 1) * D)"
proof -
  obtain a where a: "windowed (email_consumer subject) a s" "timely (email_consumer subject) D a s"
    using expiry_free(1) [OF assms] by blast
  then have "map fst (outcomes s) = [0..<a]" "a \<le> length (sent s)" by (auto simp: windowed_def)
  moreover from this(1) have "length (outcomes s) = a" by (metis length_map length_upt diff_zero)
  moreover have "\<not> flow_step (email_consumer subject) extra s (Expire n) s'" for n s'
    by (rule expiry_free(2) [OF assms])
  moreover have "hd (settled (handler None d)) = Ack \<longleftrightarrow> Unmarshal dec_incoming zero_incoming d \<noteq> None" for d
    by (auto simp: handler_def Let_def split: option.splits)
  then have "(r = Ack \<longleftrightarrow> Unmarshal dec_incoming zero_incoming (m_data (sent s ! n)) \<noteq> None)
      \<and> u - m_arrived (sent s ! n) \<le> (int (m_ahead (sent s ! n)) + 1) * D" if "(n, r, u) \<in> set (outcomes s)" for n r u
    using a(2) that by (fastforce simp: timely_def)
  ultimately show ?thesis by blast
qed


section \<open>A slow worker\<close>

text \<open>A burst of messages that fills the window, and the worker after \<open>j\<close> of them.\<close>

definition burst :: "string \<Rightarrow> nat \<Rightarrow> message list" where
  "burst d k = map (\<lambda>i. \<lparr>m_data = d, m_arrived = 0, m_ahead = i\<rparr>) [0..<k]"

definition drained :: "string \<Rightarrow> duration \<Rightarrow> nat \<Rightarrow> nat \<Rightarrow> flow" where
  "drained d D k j = \<lparr>clock = int j * D, sent = burst d k, next_seq = k,
     ack_pending = (\<lambda>n. if j \<le> n \<and> n < k then Some 0 else None), in_worker = [j..<k], busy = 0,
     outcomes = map (\<lambda>i. (i, Ack, (int i + 1) * D)) [0..<j]\<rparr>"

lemma burst_simps [simp]: "length (burst d k) = k" "i < k \<Longrightarrow> burst d k ! i = \<lparr>m_data = d, m_arrived = 0, m_ahead = i\<rparr>"
  by (simp_all add: burst_def)

lemma reach_burst: "flow.reachable c extra (flow_init\<lparr>sent := burst d k\<rparr>)"
proof (induction k)
  case 0
  have "flow_init\<lparr>sent := burst d 0\<rparr> = flow_init" by (simp add: burst_def flow_init_def)
  then show ?case by (simp only: flow.reachable_init)
next
  case (Suc k)
  have "flow_step c extra (flow_init\<lparr>sent := burst d k\<rparr>) (Publish d) (flow_init\<lparr>sent := burst d (Suc k)\<rparr>)"
    by (simp add: flow_step_simps flow_init_def burst_def)
  with Suc.IH show ?case by (rule flow.reachable_step)
qed

lemma reach_delivered:
  assumes "k \<le> cons_MaxAckPending c" "j \<le> k"
  shows "flow.reachable c extra (flow_init\<lparr>sent := burst d k, next_seq := j,
    ack_pending := (\<lambda>n. if n < j then Some 0 else None), in_worker := [0..<j]\<rparr>)"
  using assms(2)
proof (induction j)
  case 0
  then show ?case using reach_burst [of c extra d k] by (simp add: flow_init_def)
next
  case (Suc j)
  have "dom (\<lambda>n. if n < j then Some (0 :: duration) else None) = {0..<j}" by (auto split: if_splits)
  then show ?case using Suc.prems assms(1)
    by (intro flow.reachable_step [OF Suc.IH [OF Suc_leD [OF Suc.prems]], of Deliver])
      (auto simp: flow_step_simps deliverable_def flow_init_def fun_eq_iff)
qed

lemma handling_burst:
  assumes "Unmarshal dec_incoming zero_incoming d = Some evt" "sent s = burst d k" "n < k"
  shows "handling (\<lambda>_. e) s n = 100 * millisecond + e" "settled (handler None (m_data (sent s ! n))) = [Ack]"
  using assms by (simp_all add: handling_def handler_def)

lemma drained_wait:
  assumes "Unmarshal dec_incoming zero_incoming d = Some evt" "0 \<le> e" "D = 100 * millisecond + e" "j < k"
  shows "flow_step c (\<lambda>_. e) (drained d D k j) (Wait D) ((drained d D k j)\<lparr>clock := (int j + 1) * D, busy := D\<rparr>)"
  using handling_burst(1) [OF assms(1) _ assms(4), of "drained d D k j" e] assms(2-4)
  by (auto simp: flow_step_simps deliverable_def drained_def upt_conv_Cons algebra_simps)

lemma reach_drained:
  assumes "Unmarshal dec_incoming zero_incoming d = Some evt" "0 \<le> e" "D = 100 * millisecond + e"
    and "k \<le> cons_MaxAckPending c" "j \<le> k"
  shows "flow.reachable c (\<lambda>_. e) (drained d D k j)"
  using assms(5)
proof (induction j)
  case 0
  then show ?case using reach_delivered [OF assms(4) le_refl, of "\<lambda>_. e" d] by (simp add: drained_def flow_init_def)
next
  case (Suc j)
  then have j: "j < k" by simp
  let ?s = "(drained d D k j)\<lparr>clock := (int j + 1) * D, busy := D\<rparr>"
  have "flow.reachable c (\<lambda>_. e) ?s"
    using flow.reachable_step [OF Suc.IH drained_wait [OF assms(1-3) j]] Suc.prems by simp
  moreover have "flow_step c (\<lambda>_. e) ?s Settle (drained d D k (Suc j))"
    using handling_burst(1) [OF assms(1) _ j, of ?s e] handling_burst(2) [OF assms(1) _ j, of ?s] j assms(3)
    by (auto simp: flow_step_simps drained_def upt_conv_Cons fun_eq_iff algebra_simps)
  ultimately show ?case by (rule flow.reachable_step)
qed

text \<open>
  C20: the window is exactly as long as \<open>AckWait\<close> allows. When every message takes \<open>e\<close> beyond the 100 ms of
  the simulated send, a message can be delivered a second time, and its email sent twice,
  if and only if \<open>e\<close> is 200 ms or more: 100 messages of 300 ms fill the 30 s of \<open>AckWait\<close>.
\<close>

theorem redelivery_threshold:
  assumes "0 \<le> e"
  shows "(\<exists>s n s'. flow.reachable (email_consumer subject) (\<lambda>_. e) s
      \<and> flow_step (email_consumer subject) (\<lambda>_. e) s (Expire n) s') \<longleftrightarrow> 200 * millisecond \<le> e"
  (is "?expires \<longleftrightarrow> _")
proof
  show "200 * millisecond \<le> e" if ?expires
  proof (rule ccontr)
    assume "\<not> 200 * millisecond \<le> e"
    then have "\<not> flow_step (email_consumer subject) (\<lambda>_. e) s (Expire n) s'"
      if "flow.reachable (email_consumer subject) (\<lambda>_. e) s" for s n s'
      using expiry_free(2) [OF that, of "100 * millisecond + e" n s'] assms by simp
    with \<open>?expires\<close> show False by blast
  qed
next
  let ?c = "email_consumer subject" and ?D = "100 * millisecond + e"
  assume e: "200 * millisecond \<le> e"
  obtain evt where evt: "Unmarshal dec_incoming zero_incoming ''{}'' = Some evt" using empty_event_decodes by blast
  let ?s = "(drained ''{}'' ?D 100 99)\<lparr>clock := (int 99 + 1) * ?D, busy := ?D\<rparr>"
  have "flow.reachable ?c (\<lambda>_. e) (drained ''{}'' ?D 100 99)"
    by (rule reach_drained [OF evt assms refl]) (simp_all add: email_consumer_def)
  from flow.reachable_step [OF this drained_wait [OF evt assms refl]]
  have "flow.reachable ?c (\<lambda>_. e) ?s" by simp
  moreover have "\<exists>s'. flow_step ?c (\<lambda>_. e) ?s (Expire 99) s'"
    using e by (simp add: flow_step_simps drained_def email_consumer_def)
  ultimately show ?expires by blast
qed

theorem redelivery_threshold_witness:
  "\<exists>s n s'. flow.reachable (email_consumer ''orders.events.created'') (\<lambda>_. 250 * millisecond) s
      \<and> flow_step (email_consumer ''orders.events.created'') (\<lambda>_. 250 * millisecond) s (Expire n) s'"
  using redelivery_threshold [of "250 * millisecond" "''orders.events.created''"] by simp

theorem emails_once_in_order_witness:
  "\<exists>s. flow.reachable (email_consumer ''orders.events.created'') (\<lambda>_. 100 * millisecond) s \<and> length (outcomes s) = 3
    \<and> map fst (outcomes s) = [0, 1, 2] \<and> (\<forall>(n, r, u) \<in> set (outcomes s). r = Ack \<and> u \<le> 600 * millisecond)"
proof -
  let ?c = "email_consumer ''orders.events.created''" and ?s = "drained ''{}'' (200 * millisecond) 3 3"
  obtain evt where evt: "Unmarshal dec_incoming zero_incoming ''{}'' = Some evt" using empty_event_decodes by blast
  have r: "flow.reachable ?c (\<lambda>_. 100 * millisecond) ?s"
    by (rule reach_drained [OF evt]) (simp_all add: email_consumer_def)
  have "map fst (outcomes ?s) = [0, 1, 2]" "length (outcomes ?s) = 3"
    using conjunct1 [OF emails_once_in_order [OF r, of "200 * millisecond"]]
    by (simp_all add: drained_def upt_rec)
  then show ?thesis using r by (intro exI [of _ ?s]) (auto simp: drained_def)
qed

end
