(* ===== verification/Email_Retention.thy ===== *)
theory Email_Retention
  imports Email_Delivery
begin

text \<open>
  The email worker behind a stream that forgets (\<open>services/email-worker/main.go\<close>, \<open>StreamConfig\<close>): with
  \<open>LimitsPolicy\<close> and a \<open>MaxAge\<close> of 24 hours JetStream discards every message of that age, settled or
  not, and the consumer then neither delivers nor redelivers it. The machine adds these steps to the
  one of \<open>Email_Delivery\<close>. The lemmas show that a worker within the handling time that \<open>AckWait\<close> allows
  never loses a message to them, up to a backlog of 288000 messages.
\<close>

section \<open>A stream with a maximal age\<close>

text \<open>The flow of \<open>Email_Delivery\<close> and the messages that the stream has discarded. The consumer skips a
  discarded message that was not delivered yet, and drops one that it was waiting for.\<close>

datatype keep_event = Flow flow_event | Discard nat | Skip | Drop nat

inductive keep_step :: "stream_config \<Rightarrow> consumer_config \<Rightarrow> (nat \<Rightarrow> duration) \<Rightarrow>
    flow \<times> nat set \<Rightarrow> keep_event \<Rightarrow> flow \<times> nat set \<Rightarrow> bool"
  for st c extra where
  flows: "flow_step c extra s e s' \<Longrightarrow> e = Deliver \<longrightarrow> next_seq s \<notin> gone \<Longrightarrow> \<forall>n \<in> gone. e \<noteq> Expire n \<Longrightarrow>
    keep_step st c extra (s, gone) (Flow e) (s', gone)"
| discard: "n < length (sent s) \<Longrightarrow> n \<notin> gone \<Longrightarrow> stream_MaxAge st \<le> clock s - m_arrived (sent s ! n) \<Longrightarrow>
    keep_step st c extra (s, gone) (Discard n) (s, insert n gone)"
| skip: "next_seq s \<in> gone \<Longrightarrow> keep_step st c extra (s, gone) Skip (s\<lparr>next_seq := next_seq s + 1\<rparr>, gone)"
| drop: "n \<in> gone \<Longrightarrow> ack_pending s n \<noteq> None \<Longrightarrow>
    keep_step st c extra (s, gone) (Drop n) (s\<lparr>ack_pending := (ack_pending s)(n := None)\<rparr>, gone)"

inductive_cases keep_stepE: "keep_step st c extra sg e sg'"

interpretation keep: machine "\<lambda>sg. sg = (flow_init, {})" "keep_step st c extra" for st c extra .

section \<open>Lemmas\<close>

text \<open>A backlog that is handled before its messages reach the age at which they are discarded.\<close>

definition backlog_below :: "nat \<Rightarrow> flow \<Rightarrow> bool" where
  "backlog_below k s \<longleftrightarrow> (\<forall>m \<in> set (sent s). m_ahead m < k)"

lemma backlog_step: "flow_step c extra s e s' \<Longrightarrow> backlog_below k s' \<Longrightarrow> backlog_below k s"
  by (erule flow_stepE) (auto simp: backlog_below_def)

lemma outcomes_step: "flow_step c extra s e s' \<Longrightarrow> length (outcomes s) \<le> length (outcomes s')"
  by (erule flow_stepE) auto

lemma unsettled_young:
  assumes "windowed c a s" "timely c D a s" "backlog_below k s" "0 \<le> D" "a \<le> n" "n < length (sent s)"
  shows "clock s - m_arrived (sent s ! n) \<le> int k * D"
proof -
  let ?m = "sent s ! n"
  have "m_ahead ?m < k" using assms(3,6) by (simp add: backlog_below_def)
  then have "(int (m_ahead ?m) + 1) * D \<le> int k * D" using assms(4) by (intro mult_right_mono) auto
  moreover have "clock s - m_arrived ?m - busy s \<le> (int (m_ahead ?m) - (int n - int a)) * D" "busy s \<le> D"
    using assms(2,5,6) by (auto simp: timely_def)
  moreover have "(int (m_ahead ?m) - (int n - int a)) * D \<le> int (m_ahead ?m) * D"
    using assms(4,5) by (intro mult_right_mono) auto
  ultimately show ?thesis by (simp add: algebra_simps)
qed

lemma settled_windowed: "windowed c a s \<Longrightarrow> length (outcomes s) = a"
  unfolding windowed_def by (metis length_map length_upt diff_zero)

definition retention_inv :: "consumer_config \<Rightarrow> (nat \<Rightarrow> duration) \<Rightarrow> nat \<Rightarrow> flow \<times> nat set \<Rightarrow> bool" where
  "retention_inv c extra k sg \<longleftrightarrow> (backlog_below k (fst sg) \<longrightarrow>
     flow.reachable c extra (fst sg) \<and> snd sg \<subseteq> {0..<length (outcomes (fst sg))})"

lemma retention_step:
  assumes "keep_step email_stream (email_consumer subject) extra sg e sg'"
    and "retention_inv (email_consumer subject) extra 288000 sg"
    and "D < 300 * millisecond" "\<And>n. 0 \<le> extra n \<and> extra n \<le> D - 100 * millisecond"
  shows "retention_inv (email_consumer subject) extra 288000 sg'"
proof -
  let ?c = "email_consumer subject"
  obtain s gone where sg: "sg = (s, gone)" by fastforce
  have D: "0 \<le> D" using assms(4) [of 0] by simp
  have inv: "\<exists>a. windowed ?c a s \<and> timely ?c D a s \<and> gone \<subseteq> {0..<a} \<and> length (outcomes s) = a"
    if "backlog_below 288000 s"
    using that assms(2) expiry_free(1) [where s = s and subject = subject, OF _ assms(3,4)] settled_windowed
    by (fastforce simp: sg retention_inv_def)
  show ?thesis
    using assms(1) unfolding sg
  proof (cases rule: keep_step.cases)
    case (flows ev s')
    then show ?thesis
      using assms(2) flow.reachable_step backlog_step [OF flows(3)] outcomes_step [OF flows(3)]
      by (fastforce simp: sg retention_inv_def)
  next
    case (discard n)
    have "n < length (outcomes s)" if b: "backlog_below 288000 s"
    proof (rule ccontr)
      assume "\<not> n < length (outcomes s)"
      with inv [OF b] obtain a where "windowed ?c a s" "timely ?c D a s" "a \<le> n" by auto
      from unsettled_young [OF this(1,2) b D this(3) discard(3)] discard(5) assms(3)
      show False by (simp add: email_stream_def)
    qed
    then show ?thesis using assms(2) discard by (auto simp: sg retention_inv_def)
  next
    case skip
    then have "\<not> backlog_below 288000 s" using inv by (fastforce simp: windowed_def)
    then show ?thesis using skip(2) by (auto simp add: retention_inv_def backlog_below_def)
  next
    case (drop n)
    have "\<not> backlog_below 288000 s"
    proof
      assume "backlog_below 288000 s"
      with inv obtain a where "windowed (email_consumer subject) a s" "gone \<subseteq> {0..<a}" by blast
      then have "n \<in> {a..<next_seq s}" "n \<in> {0..<a}" using drop(3,4) by (auto simp: windowed_def)
      then show False by simp
    qed
    then show ?thesis using drop(2) by (auto simp add: retention_inv_def backlog_below_def)
  qed
qed

lemma retention_reachable:
  assumes "keep.reachable email_stream (email_consumer subject) extra sg"
    and "D < 300 * millisecond" "\<And>n. 0 \<le> extra n \<and> extra n \<le> D - 100 * millisecond"
  shows "retention_inv (email_consumer subject) extra 288000 sg"
proof (rule keep.reachable_invariant [OF assms(1)])
  show "retention_inv (email_consumer subject) extra 288000 sg" if "sg = (flow_init, {})" for sg
    using that by (simp add: retention_inv_def flow.reachable_init)
  show "retention_inv (email_consumer subject) extra 288000 t"
    if "keep_step email_stream (email_consumer subject) extra s e t"
      "retention_inv (email_consumer subject) extra 288000 s" for s e t
    by (rule retention_step [OF that assms(2,3)])
qed

section \<open>Properties\<close>

text \<open>
  C21: no email is lost to the stream's maximal age. The stream discards messages of 24 hours, settled
  or not; but as long as the handler needs less than 200 ms for each message beyond the 100 ms it
  sleeps, and no message found 288000 unsettled ones or more before it, in every state that is reached
  every discarded message had been settled, the messages are settled in the order of their arrival,
  and none that is still unsettled is 24 hours old.
\<close>

theorem no_email_outlives_stream:
  assumes "keep.reachable email_stream (email_consumer subject) extra (s, gone)"
    and "D < 300 * millisecond" "\<And>n. 0 \<le> extra n \<and> extra n \<le> D - 100 * millisecond"
    and "\<forall>m \<in> set (sent s). m_ahead m < 288000"
  shows "gone \<subseteq> {0..<length (outcomes s)} \<and> map fst (outcomes s) = [0..<length (outcomes s)]
    \<and> (\<forall>n. length (outcomes s) \<le> n \<and> n < length (sent s) \<longrightarrow>
        clock s - m_arrived (sent s ! n) < stream_MaxAge email_stream)"
proof -
  have b: "backlog_below 288000 s" using assms(4) by (simp add: backlog_below_def)
  with retention_reachable [OF assms(1-3)]
  have r: "flow.reachable (email_consumer subject) extra s" "gone \<subseteq> {0..<length (outcomes s)}"
    by (simp_all add: retention_inv_def)
  obtain a where a: "windowed (email_consumer subject) a s" "timely (email_consumer subject) D a s"
    using expiry_free(1) [OF r(1) assms(2,3)] by blast
  have D: "0 \<le> D" using assms(3) [of 0] by simp
  have "clock s - m_arrived (sent s ! n) < stream_MaxAge email_stream" if "a \<le> n" "n < length (sent s)" for n
    using unsettled_young [OF a b D that] assms(2) by (simp add: email_stream_def)
  moreover have "map fst (outcomes s) = [0..<a]" using a(1) by (simp add: windowed_def)
  ultimately show ?thesis using r(2) settled_windowed [OF a(1)] by simp
qed

text \<open>Three settled messages, the first of which the stream has discarded a day later.\<close>

definition day_later :: flow where
  "day_later = (drained ''{}'' (200 * millisecond) 3 3)\<lparr>clock := 24 * 60 * minute + 600 * millisecond\<rparr>"

lemma keep_flow:
  assumes "flow.reachable c extra s"
  shows "keep.reachable st c extra (s, {})"
proof -
  have "\<exists>sg. keep.reachable st c extra sg \<and> sg = (s, {})"
    using assms
  proof (rule flow.reachable_invariant [where I = "\<lambda>s. \<exists>sg. keep.reachable st c extra sg \<and> sg = (s, {})"])
    show "\<exists>sg. keep.reachable st c extra sg \<and> sg = (s, {})" if "s = flow_init" for s
      using that keep.reachable_init by blast
    show "\<exists>sg. keep.reachable st c extra sg \<and> sg = (t, {})"
      if "flow_step c extra s e t" "\<exists>sg. keep.reachable st c extra sg \<and> sg = (s, {})" for s e t
      using that keep.reachable_step [of st c extra "(s, {})" "Flow e" "(t, {})"] keep_step.flows [OF that(1)] by auto
  qed
  then show ?thesis by blast
qed

theorem no_email_outlives_stream_witness:
  "\<exists>s. keep.reachable email_stream (email_consumer ''orders.events.created'') (\<lambda>_. 100 * millisecond) (s, {0})
    \<and> map fst (outcomes s) = [0, 1, 2]"
proof -
  let ?c = "email_consumer ''orders.events.created''" and ?x = "\<lambda>_ :: nat. 100 * millisecond"
  let ?d = "drained ''{}'' (200 * millisecond) 3 3"
  obtain evt where evt: "Unmarshal dec_incoming zero_incoming ''{}'' = Some evt" using empty_event_decodes by blast
  have r: "flow.reachable ?c ?x ?d"
    by (rule reach_drained [OF evt]) (simp_all add: email_consumer_def)
  have "flow_step ?c ?x ?d (Wait (24 * 60 * minute)) day_later"
    by (simp add: flow_step_simps day_later_def drained_def deliverable_def)
  with r have "flow.reachable ?c ?x day_later" by (rule flow.reachable_step)
  then have k: "keep.reachable email_stream ?c ?x (day_later, {})" by (rule keep_flow)
  have "keep_step email_stream ?c ?x (day_later, {}) (Discard 0) (day_later, insert 0 {})"
    by (rule keep_step.discard) (simp_all add: day_later_def drained_def email_stream_def)
  with k have g: "keep.reachable email_stream ?c ?x (day_later, {0})" by (rule keep.reachable_step)
  have "\<forall>m \<in> set (sent day_later). m_ahead m < 288000"
    by (simp add: day_later_def drained_def burst_def)
  note settled = no_email_outlives_stream [OF g _ _ this, of "200 * millisecond", THEN conjunct2, THEN conjunct1]
  have "length (outcomes day_later) = 3" by (simp add: day_later_def drained_def)
  then have "map fst (outcomes day_later) = [0..<3]" by (rule subst) (rule settled; simp)
  also have "[0..<3] = [0, 1, 2 :: nat]" by (simp add: upt_rec)
  finally show ?thesis using g by (intro exI [of _ day_later] conjI)
qed

end
