(* ===== verification/Go_UTF8.thy ===== *)
theory Go_UTF8
  imports Go_JSON_Text
begin

text \<open>
  Valid UTF-8 (\<open>unicode/utf8\<close>), and that every string \<open>encoding/json\<close> decodes is valid: the scanner only
  lets complete escapes into a literal, and \<open>unquote\<close> encodes whole code points. The services rely on it
  when they hand a decoded string to protobuf, which refuses any other.
\<close>

section \<open>Validity\<close>

text \<open>\<open>utf8.ValidString\<close>: replacing what is invalid changes nothing.\<close>

definition ValidString :: "string \<Rightarrow> bool" where
  "ValidString s \<longleftrightarrow> to_valid s = s"

lemma Decode_replacement:
  "DecodeRune ([char_of (0xEF :: nat), char_of (0xBF :: nat), char_of (0xBD :: nat)] @ s) = (RuneError, 3)"
proof -
  have "byte (char_of (0xEF :: nat)) = 0xEF" by simp
  then show ?thesis
    unfolding DecodeRune_def append.simps list.case Let_def
    by (simp add: second_ok_def cont_byte_def RuneError_def)
qed

lemma Decode_three:
  assumes "byte c0 = 0xE0 + a" "byte c1 = 0x80 + b" "byte c2 = 0x80 + c" "a < 16" "b < 64" "c < 64"
    and "a = 0 \<Longrightarrow> 32 \<le> b" "a = 13 \<Longrightarrow> b \<le> 31"
  shows "DecodeRune (c0 # c1 # c2 # s) = (a * 4096 + b * 64 + c, 3)"
proof -
  have "second_ok (0xE0 + a) c1"
    using assms(2,4-) by (simp add: second_ok_def cont_byte_def)
  moreover have "cont_byte c2" using assms(3,6) by (simp add: cont_byte_def)
  ultimately show ?thesis using assms(1-6) by (simp add: DecodeRune_def)
qed

lemma Decode_four:
  assumes "byte c0 = 0xF0 + a" "byte c1 = 0x80 + b" "byte c2 = 0x80 + c" "byte c3 = 0x80 + d"
    and "a < 5" "b < 64" "c < 64" "d < 64" "a = 0 \<Longrightarrow> 16 \<le> b" "a = 4 \<Longrightarrow> b \<le> 15"
  shows "DecodeRune (c0 # c1 # c2 # c3 # s) = (a * 262144 + b * 4096 + c * 64 + d, 4)"
proof -
  have "second_ok (0xF0 + a) c1"
    using assms(2,5-) by (simp add: second_ok_def cont_byte_def)
  moreover have "cont_byte c2" "cont_byte c3" using assms(3,4,7,8) by (simp_all add: cont_byte_def)
  ultimately show ?thesis using assms(1-8) by (simp add: DecodeRune_def)
qed

lemma cont_byte_of: "n < 64 \<Longrightarrow> cont_byte (char_of (0x80 + n))" "n < 64 \<Longrightarrow> byte (char_of (0x80 + n)) = 0x80 + n"
  by (simp_all add: cont_byte_def)

lemma Decode_Encode:
  "\<exists>r'. DecodeRune (EncodeRune r @ s) = (r', length (EncodeRune r)) \<and> EncodeRune r' = EncodeRune r"
proof -
  consider "r < 0x80" | "0x80 \<le> r" "r < 0x800" | "0x110000 \<le> r \<or> 0xD800 \<le> r \<and> r \<le> 0xDFFF"
    | "0x800 \<le> r" "r < 0x10000" "\<not> (0xD800 \<le> r \<and> r \<le> 0xDFFF)" | "0x10000 \<le> r" "r < 0x110000" by linarith
  then show ?thesis
  proof cases
    case 1
    then show ?thesis by (auto simp: EncodeRune_def DecodeRune_def)
  next
    case 2
    have "r div 64 < 32" "2 \<le> r div 64" using 2 by (simp_all add: less_mult_imp_div_less div_le_mono [of 128 r 64, simplified])
    then have "DecodeRune (EncodeRune r @ s) = (r, 2)"
      using 2 by (simp add: EncodeRune_def DecodeRune_def Let_def cont_byte_of)
    then show ?thesis using 2 by (simp add: EncodeRune_def)
  next
    case 3
    let ?e = "[char_of (0xEF :: nat), char_of (0xBF :: nat), char_of (0xBD :: nat)]"
    from 3 have "\<not> r < 0x80" "\<not> r < 0x800" by linarith+
    then have "EncodeRune r = ?e" unfolding EncodeRune_def using 3 by (simp only: if_False if_True)
    moreover have "EncodeRune RuneError = ?e" by (simp add: EncodeRune_def RuneError_def)
    ultimately show ?thesis using Decode_replacement [of s] by (intro exI [of _ RuneError]) (simp only:, simp)
  next
    case 4
    define a b c where "a = r div 4096" "b = r div 64 mod 64" "c = r mod 64"
    have "r div 4096 = r div 64 div 64" by (simp add: div_mult2_eq [symmetric])
    then have r: "r = a * 4096 + b * 64 + c" "b < 64" "c < 64"
      using div_mult_mod_eq [of r 64] div_mult_mod_eq [of "r div 64" 64] unfolding a_b_c_def by (linarith, simp_all)
    have "a < 16" "a = 0 \<Longrightarrow> 32 \<le> b" "a = 13 \<Longrightarrow> b \<le> 31" using 4 r by linarith+
    moreover have e: "EncodeRune r = [char_of (0xE0 + a), char_of (0x80 + b), char_of (0x80 + c)]"
      using 4 by (auto simp: EncodeRune_def a_b_c_def)
    ultimately have "DecodeRune (char_of (0xE0 + a) # char_of (0x80 + b) # char_of (0x80 + c) # s) = (a * 4096 + b * 64 + c, 3)"
      using r(2,3) by (intro Decode_three) simp_all
    then have "DecodeRune (EncodeRune r @ s) = (r, length (EncodeRune r))"
      unfolding e append.simps r(1) [symmetric] by simp
    then show ?thesis by blast
  next
    case 5
    define a b c d where "a = r div 262144" "b = r div 4096 mod 64" "c = r div 64 mod 64" "d = r mod 64"
    have "r div 4096 = r div 64 div 64" "r div 262144 = r div 4096 div 64" by (simp_all add: div_mult2_eq [symmetric])
    then have r: "r = a * 262144 + b * 4096 + c * 64 + d" "b < 64" "c < 64" "d < 64"
      using div_mult_mod_eq [of r 64] div_mult_mod_eq [of "r div 64" 64] div_mult_mod_eq [of "r div 4096" 64]
      unfolding a_b_c_d_def by (linarith, simp_all)
    have "a < 5" "a = 0 \<Longrightarrow> 16 \<le> b" "a = 4 \<Longrightarrow> b \<le> 15" using 5 r by linarith+
    moreover have e: "EncodeRune r = [char_of (0xF0 + a), char_of (0x80 + b), char_of (0x80 + c), char_of (0x80 + d)]"
      using 5 by (simp add: EncodeRune_def a_b_c_d_def)
    ultimately have "DecodeRune (char_of (0xF0 + a) # char_of (0x80 + b) # char_of (0x80 + c) # char_of (0x80 + d) # s) =
        (a * 262144 + b * 4096 + c * 64 + d, 4)"
      using r(2-4) by (intro Decode_four) simp_all
    then have "DecodeRune (EncodeRune r @ s) = (r, length (EncodeRune r))"
      unfolding e append.simps r(1) [symmetric] by simp
    then show ?thesis by blast
  qed
qed

lemma to_valid_Encode: "to_valid (EncodeRune r @ s) = EncodeRune r @ to_valid s"
proof -
  obtain r' where d: "DecodeRune (EncodeRune r @ s) = (r', length (EncodeRune r))" "EncodeRune r' = EncodeRune r"
    using Decode_Encode by blast
  have ne: "EncodeRune r \<noteq> []" by (simp add: EncodeRune_def)
  then have "max 1 (length (EncodeRune r)) = length (EncodeRune r)" by (cases "EncodeRune r") auto
  with ne d show ?thesis by (subst to_valid.simps) simp
qed

lemma ValidString_simps [simp]:
  "ValidString []" "ValidString (EncodeRune r @ s) \<longleftrightarrow> ValidString s"
  by (simp_all add: ValidString_def to_valid_Encode to_valid.simps [of "[]"])

lemma ValidString_ascii_Cons [simp]: "byte c < 0x80 \<Longrightarrow> ValidString (c # s) \<longleftrightarrow> ValidString s"
  using ValidString_simps(2) [of "byte c" s] by (simp add: EncodeRune_ascii)

lemma ValidString_to_valid [simp]: "ValidString (to_valid s)"
  by (induction s rule: to_valid.induct) (subst to_valid.simps, simp)

section \<open>Literals\<close>

abbreviation lit_ok :: "string \<Rightarrow> bool" where
  "lit_ok raw \<equiv> str_fold SPlain raw = Some SPlain"


lemma str_next_plain: "str_next SPlain c = Some s \<Longrightarrow> c \<noteq> CHR 0x5C \<Longrightarrow> s = SPlain"
  by (auto simp: str_next_def split: if_splits)

lemma lit_high_drop:
  assumes "lit_ok (c # t)" "0x80 \<le> byte c"
  shows "lit_ok (drop (max 1 (snd (DecodeRune (c # t)))) (c # t))"
proof -
  obtain r w where d: "DecodeRune (c # t) = (r, w)" by fastforce
  have w: "1 \<le> w" using DecodeRune_width [of "c # t"] d by simp
  have high: "\<forall>x \<in> set (take w (c # t)). 0x80 \<le> byte x"
  proof (cases "r = RuneError \<and> w \<le> 1")
    case True
    with w have "w = 1" by simp
    with assms(2) show ?thesis by simp
  qed (use DecodeRune_high [OF d _ assms(2)] in blast)
  have "str_fold SPlain (take w (c # t) @ drop w (c # t)) = Some SPlain" using assms(1) by simp
  then show ?thesis using str_fold_high [OF high] w d by (simp only: str_fold_append) (simp add: max_def)
qed

lemma str_fold_SHex:
  "str_fold (SHex n) s = Some SPlain \<Longrightarrow> \<exists>c t. s = c # t \<and> is_hex c \<and> str_fold (if n = 0 then SPlain else SHex (n - 1)) t = Some SPlain"
  by (cases s) (auto simp: str_next_def split: if_splits)

lemma lit_escape:
  assumes "lit_ok (CHR 0x5C # t)"
  obtains (hex) a b c d rest where "t = CHR ''u'' # a # b # c # d # rest" "is_hex a" "is_hex b" "is_hex c" "is_hex d" "lit_ok rest"
  | (simple) e rest where "t = e # rest" "e \<noteq> CHR ''u''" "byte (simple_escape e) < 0x80" "lit_ok rest"
proof -
  have "str_fold SEsc t = Some SPlain" using assms by (simp add: str_next_def)
  then obtain e rest st where t: "t = e # rest" "str_next SEsc e = Some st" "str_fold st rest = Some SPlain"
    by (cases t) (auto simp: Option.bind_eq_Some_conv)
  show thesis
  proof (cases "e = CHR ''u''")
    case True
    then have "str_fold (SHex 3) rest = Some SPlain" using t by (simp add: str_next_def)
    then obtain a b c d rest' where "rest = a # b # c # d # rest'" "is_hex a" "is_hex b" "is_hex c" "is_hex d" "lit_ok rest'"
      by (auto simp: str_next_def Option.bind_eq_Some_conv numeral_3_eq_3 neq_Nil_conv dest!: str_fold_SHex split: if_splits)
    with t True show thesis using hex [of a b c d rest'] by simp
  next
    case False
    define E where "E = [CHR ''b'', CHR ''f'', CHR ''n'', CHR ''r'', CHR ''t'', CHR 0x5C, CHR ''/'', CHR 0x22]"
    have "(if e \<in> set E then Some SPlain else None) = Some st"
      using t(2) False unfolding str_next_def E_def [symmetric] by simp
    then have st: "e \<in> set E" "st = SPlain" by (simp_all split: if_splits)
    have "list_all (\<lambda>e. byte (simple_escape e) < 0x80) E" unfolding E_def by code_simp
    with st(1) have "byte (simple_escape e) < 0x80" by (simp add: list_all_iff)
    with t st(2) False show thesis using simple [of e rest] by simp
  qed
qed


text \<open>What \<open>unquote\<close> makes of a literal the scanner accepts is valid.\<close>

lemma unquote_step:
  assumes "lit_ok s" "s \<noteq> []"
  shows "lit_ok (drop (max 1 (snd (unquote_next s))) s)
    \<and> (\<forall>rest. ValidString (fst (unquote_next s) @ rest) \<longleftrightarrow> ValidString rest)"
proof -
  obtain c t where s: "s = c # t" using assms(2) by (cases s) auto
  consider "c = CHR 0x5C" | "c \<noteq> CHR 0x5C" "byte c < 0x80" | "0x80 \<le> byte c" "c \<noteq> CHR 0x5C" by fastforce
  then show ?thesis
  proof cases
    case 1
    with assms(1) have "lit_ok (CHR 0x5C # t)" unfolding s by simp
    then show ?thesis
    proof (cases rule: lit_escape)
      case (simple e rest)
      then show ?thesis by (simp add: s 1 unquote_next_escape)
    next
      case (hex a b c' d rest)
      have g: "getu4 s = Some (hex4 a b c' d)" using hex by (simp add: s 1)
      have six: "drop 6 s = rest" using hex by (simp add: s 1)
      show ?thesis
      proof (cases "utf16_pair (hex4 a b c' d) (getu4 rest)")
        case (Some r2)
        then obtain r' where r': "getu4 rest = Some r'" by (auto simp: utf16_pair_def split: option.splits)
        then obtain a2 b2 c2 d2 rest2 where rest: "rest = CHR 0x5C # CHR ''u'' # a2 # b2 # c2 # d2 # rest2"
          "is_hex a2" "is_hex b2" "is_hex c2" "is_hex d2"
          by (cases rest rule: getu4.cases) (auto split: if_splits)
        then have "lit_ok rest2" using hex(6) by (simp add: str_next_def)
        moreover have "drop 12 s = rest2" using hex(1) rest(1) by (simp add: s 1)
        ultimately show ?thesis using g six Some hex(6) by (simp add: unquote_next_def s 1)
      qed (use g six hex(6) in \<open>simp add: unquote_next_def s 1\<close>)
    qed
  next
    case 2
    have "lit_ok t" using assms(1) 2 by (auto simp: s str_next_def split: if_splits)
    with 2 show ?thesis by (simp add: s unquote_next_def)
  next
    case 3
    then show ?thesis
      using lit_high_drop [of c t] assms(1) by (simp add: s unquote_next_def case_prod_unfold Let_def)
  qed
qed

lemma unquote_valid: "lit_ok s \<Longrightarrow> ValidString (unquote s)"
proof (induction s rule: unquote.induct)
  case (1 s)
  show ?case
  proof (cases "s = []")
    case False
    with unquote_step [OF 1(2) False] 1(1) show ?thesis by (subst unquote.simps) simp
  qed (simp add: unquote.simps)
qed

section \<open>Trees\<close>

text \<open>A tree whose literals are complete; what the scanner keeps of it.\<close>

inductive tree_ok :: "json \<Rightarrow> bool" where
  "lit_ok raw \<Longrightarrow> tree_ok (JStr raw)"
| "tree_ok JNull"
| "tree_ok (JBool b)"
| "tree_ok (JNum n)"
| "(\<And>j. j \<in> set js \<Longrightarrow> tree_ok j) \<Longrightarrow> tree_ok (JArr js)"
| "(\<And>k j. (k, j) \<in> set ms \<Longrightarrow> tree_ok j) \<Longrightarrow> tree_ok (JObj ms)"

inductive_simps tree_ok_simps [simp]:
  "tree_ok (JStr raw)" "tree_ok JNull" "tree_ok (JBool b)" "tree_ok (JNum n)" "tree_ok (JArr js)" "tree_ok (JObj ms)"

fun frame_ok :: "frame \<Rightarrow> bool" where
  "frame_ok (FArr js) \<longleftrightarrow> (\<forall>j \<in> set js. tree_ok j)"
| "frame_ok (FKey ms) \<longleftrightarrow> (\<forall>k j. (k, j) \<in> set ms \<longrightarrow> tree_ok j)"
| "frame_ok (FVal ms k) \<longleftrightarrow> (\<forall>k j. (k, j) \<in> set ms \<longrightarrow> tree_ok j)"

fun mode_ok :: "mode \<Rightarrow> bool" where
  "mode_ok (MStr key acc s) \<longleftrightarrow> str_fold SPlain (rev acc) = Some s"
| "mode_ok (MLit xs v) \<longleftrightarrow> tree_ok v"
| "mode_ok (MAfter v) \<longleftrightarrow> tree_ok v"
| "mode_ok _ \<longleftrightarrow> True"

lemma end_value_ok:
  "end_value v st c = Some (m', st') \<Longrightarrow> tree_ok v \<Longrightarrow> list_all frame_ok st \<Longrightarrow> mode_ok m' \<and> list_all frame_ok st'"
  by (auto simp: end_value_def split: if_splits list.splits frame.splits)

lemma begin_value_ok:
  "begin_value st c = Some (m', st') \<Longrightarrow> list_all frame_ok st \<Longrightarrow> mode_ok m' \<and> list_all frame_ok st'"
  by (auto simp: begin_value_def split: if_splits)

lemma step_string_next:
  assumes "step_string key acc s st c = Some (m', st')"
  shows "(\<exists>s'. str_next s c = Some s' \<and> m' = MStr key (c # acc) s' \<and> st' = st)
    \<or> s = SPlain \<and> (key \<and> (\<exists>ms st1. st = FKey ms # st1 \<and> m' = MColon \<and> st' = FVal ms (rev acc) # st1)
        \<or> \<not> key \<and> m' = MAfter (JStr (rev acc)) \<and> st' = st)"
proof (cases s)
  case SPlain
  then show ?thesis using assms
    by (auto simp: step_string_def str_next_def split: if_splits list.splits frame.splits)
next
  case SEsc
  define E where "E = set [CHR ''b'', CHR ''f'', CHR ''n'', CHR ''r'', CHR ''t'', CHR 0x5C, CHR ''/'', CHR 0x22]"
  from SEsc assms show ?thesis
    unfolding str_next_def step_string_def E_def [symmetric] by (simp split: if_splits)
next
  case (SHex n)
  then show ?thesis using assms by (auto simp: step_string_def str_next_def split: if_splits)
qed

lemma scan_step_ok:
  assumes "scan_step m st c = Some (m', st')" "mode_ok m" "list_all frame_ok st"
  shows "mode_ok m' \<and> list_all frame_ok st'"
proof (cases m)
  case (MStr key acc s)
  with assms step_string_next [of key acc s st c m' st'] show ?thesis by (auto simp: str_fold_append)
next
  case (MLit xs v)
  with assms show ?thesis by (cases xs) (auto split: if_splits)
qed (use assms end_value_ok begin_value_ok in \<open>auto split: if_splits list.splits frame.splits option.splits\<close>)

lemma top_value_ok: "top_value m st n = Some v \<Longrightarrow> mode_ok m \<Longrightarrow> tree_ok v"
  by (auto simp: top_value_def split: list.splits mode.splits if_splits)

lemma scan_ok: "scan m st s = Some (v, rest) \<Longrightarrow> mode_ok m \<Longrightarrow> list_all frame_ok st \<Longrightarrow> tree_ok v"
proof (induction m st s rule: scan.induct)
  case (2 m st c cs)
  then show ?case
    by (auto split: option.splits dest: top_value_ok scan_step_ok)
qed (auto split: option.splits dest: top_value_ok)

section \<open>Decoders\<close>

text \<open>A decoder that keeps a property of its target on every tree the scanner can make.\<close>

definition dec_keeps :: "('a \<Rightarrow> bool) \<Rightarrow> 'a dec \<Rightarrow> bool" where
  "dec_keeps P d \<longleftrightarrow> (\<forall>j old. tree_ok j \<longrightarrow> P old \<longrightarrow> P (fst (d j old)))"

lemma dec_keeps_string: "dec_keeps ValidString dec_string"
  by (auto simp: dec_keeps_def dec_string_def unquote_valid split: json.splits)

lemma dec_keeps_struct:
  assumes "\<And>n d. (n, d) \<in> set fs \<Longrightarrow> dec_keeps P d"
  shows "dec_keeps P (dec_struct fs)"
proof -
  have f: "dec_keeps P d" if "find_field fs k = Some d" for k d
    using that assms by (fastforce simp: find_field_def split: option.splits dest!: map_of_SomeD)
  have "P (fst (dec_members fs ms r))" if "\<forall>m \<in> set ms. tree_ok (snd m)" "P r" for ms r
    using that
  proof (induction ms arbitrary: r)
    case (Cons m ms)
    obtain k j where m: "m = (k, j)" by fastforce
    let ?r = "fst (case find_field fs (unquote k) of None \<Rightarrow> (r, True) | Some d \<Rightarrow> d j r)"
    have "P ?r" using Cons.prems f [of "unquote k"] by (auto simp: m dec_keeps_def split: option.splits)
    with Cons.IH [of ?r] Cons.prems(1) show ?case by (simp add: m case_prod_unfold Let_def)
  qed simp
  then show ?thesis by (fastforce simp: dec_keeps_def dec_struct_def split: json.splits)
qed

lemma Decode_keeps:
  assumes "dec_keeps P d" "P zero" "Decode d zero s = Some v"
  shows "P v"
proof -
  obtain j rest where "scan MValue [] s = Some (j, rest)" "fst (d j zero) = v"
    using assms(3) by (auto simp: Decode_def case_prod_unfold Let_def split: option.splits if_splits)
  with assms(1,2) scan_ok [of MValue "[]" s j rest] show ?thesis by (auto simp: dec_keeps_def)
qed

end
