(* ===== verification/Proto_Wire.thy ===== *)
theory Proto_Wire
  imports Proto Go_UTF8
begin

text \<open>
  The messages of the generated code on the wire (\<open>gen/go\<close>): the field numbers and kinds that the
  struct tags give them, and the proto3 binary encoding, which belongs to the protobuf runtime and
  follows its documentation: base-128 varints, sign extension of negative integers to ten bytes,
  length-delimited strings that have to be valid UTF-8, absent zero values, repeated messages one
  field each, unknown fields skipped, the last value of a field taken. The lemmas show that every
  message of the repository with valid strings survives its encoding, and is refused otherwise.
\<close>

section \<open>Varints\<close>

fun varint :: "nat \<Rightarrow> string" where
  "varint n = (if n < 128 then [char_of n] else char_of (128 + n mod 128) # varint (n div 128))"

declare varint.simps [simp del]

text \<open>At most ten bytes, the last of which has one bit: the argument counts the bytes still allowed.\<close>

fun get_varint :: "nat \<Rightarrow> string \<Rightarrow> (nat \<times> string) option" where
  "get_varint 0 bs = None"
| "get_varint (Suc k) [] = None"
| "get_varint (Suc k) (b # bs) =
    (if byte b < 128 then (if k = 0 \<and> 1 < byte b then None else Some (byte b, bs))
     else map_option (\<lambda>(n, r). (byte b - 128 + 128 * n, r)) (get_varint k bs))"

lemma get_varint_varint: "n < 2 * 128 ^ k \<Longrightarrow> get_varint (Suc k) (varint n @ r) = Some (n, r)"
proof (induction k arbitrary: n)
  case 0
  then show ?case by (subst varint.simps) simp
next
  case (Suc k)
  show ?case
  proof (cases "n < 128")
    case True
    then show ?thesis by (subst varint.simps) simp
  next
    case False
    have "n div 128 < 2 * 128 ^ k" using Suc.prems by (simp add: less_mult_imp_div_less mult.commute)
    from Suc.IH [OF this] False show ?thesis
      by (subst varint.simps) (simp add: mod_less_divisor [THEN less_imp_le, THEN le_less_trans])
  qed
qed

lemma get_varint_shorter: "get_varint k bs = Some (n, r) \<Longrightarrow> length r < length bs"
  by (induction k bs arbitrary: n r rule: get_varint.induct) (fastforce split: if_splits)+

lemma get_varint_word [simp]: "get_varint 10 (varint (unat (w :: 64 word)) @ r) = Some (unat w, r)"
proof -
  have "unat w < 2 * 128 ^ 9" using unsigned_less [of w, where 'a = nat] by simp
  from get_varint_varint [OF this] show ?thesis by simp
qed

lemma varint_not_Nil [simp]: "varint n \<noteq> []"
  by (subst varint.simps) simp

lemma length_varint: "length (varint n) \<le> Suc n"
proof (induction n rule: varint.induct)
  case (1 n)
  show ?case
  proof (cases "n < 128")
    case False
    then have "Suc (n div 128) \<le> n" by simp
    with 1 [OF False] False show ?thesis by (subst varint.simps) simp
  qed (simp add: varint.simps)
qed

section \<open>Fields\<close>

datatype wire = Varint "64 word" | Len string

definition put_field :: "nat \<times> wire \<Rightarrow> string" where
  "put_field f = (case f of
     (n, Varint w) \<Rightarrow> varint (8 * n) @ varint (unat w)
   | (n, Len s) \<Rightarrow> varint (8 * n + 2) @ varint (length s) @ s)"

text \<open>The value of a field and what follows it. Fixed-width values, which no message of the repository
  has, are skipped; groups, with which no proto3 message is encoded, are refused here.\<close>

definition get_value :: "nat \<Rightarrow> string \<Rightarrow> (wire option \<times> string) option" where
  "get_value typ bs =
    (if typ = 0 then map_option (\<lambda>(v, r). (Some (Varint (word_of_nat v)), r)) (get_varint 10 bs)
     else if typ = 2 then (case get_varint 10 bs of
         None \<Rightarrow> None
       | Some (n, r) \<Rightarrow> if n \<le> length r then Some (Some (Len (take n r)), drop n r) else None)
     else if typ = 1 \<and> 8 \<le> length bs then Some (None, drop 8 bs)
     else if typ = 5 \<and> 4 \<le> length bs then Some (None, drop 4 bs)
     else None)"

lemma get_value_shorter: "get_value typ bs = Some (v, r) \<Longrightarrow> length r \<le> length bs"
  by (auto simp: get_value_def dest!: get_varint_shorter split: if_splits option.splits)

definition get_field :: "string \<Rightarrow> ((nat \<times> wire) option \<times> string) option" where
  "get_field bs = (case get_varint 10 bs of
     None \<Rightarrow> None
   | Some (tag, r) \<Rightarrow>
      if tag div 8 = 0 \<or> 2 ^ 29 \<le> tag div 8 then None
      else map_option (\<lambda>(v, r'). (map_option (Pair (tag div 8)) v, r')) (get_value (tag mod 8) r))"

lemma get_field_shorter: "get_field bs = Some (v, r) \<Longrightarrow> length r < length bs"
  by (fastforce simp: get_field_def dest: get_varint_shorter get_value_shorter split: option.splits if_splits)

function get_fields :: "string \<Rightarrow> (nat \<times> wire) list option" where
  "get_fields bs = (if bs = [] then Some [] else case get_field bs of
     None \<Rightarrow> None
   | Some (f, r) \<Rightarrow> map_option (\<lambda>fs. (case f of None \<Rightarrow> fs | Some x \<Rightarrow> x # fs)) (get_fields r))"
  by pat_completeness auto
termination
  by (relation "measure length") (auto dest: get_field_shorter)

declare get_fields.simps [simp del]

definition field_ok :: "nat \<times> wire \<Rightarrow> bool" where
  "field_ok f \<longleftrightarrow> 1 \<le> fst f \<and> fst f < 2 ^ 29 \<and> (case snd f of Varint _ \<Rightarrow> True | Len s \<Rightarrow> length s < 2 ^ 64)"

lemma get_field_put:
  assumes "field_ok f"
  shows "get_field (put_field f @ r) = Some (Some f, r)"
proof -
  obtain n w where f: "f = (n, w)" by fastforce
  have n: "1 \<le> n" "n < 2 ^ 29" using assms by (simp_all add: f field_ok_def)
  have tag: "get_varint 10 (varint (8 * n + t) @ rest) = Some (8 * n + t, rest)" if "t < 8" for t rest
    using get_varint_varint [of "8 * n + t" 9 rest] n that by simp
  show ?thesis
  proof (cases w)
    case (Varint v)
    then show ?thesis using n tag [of 0] by (simp add: f put_field_def get_field_def get_value_def)
  next
    case (Len s)
    then have "length s < 2 * 128 ^ 9" using assms by (simp add: f field_ok_def)
    from get_varint_varint [OF this] have "get_varint 10 (varint (length s) @ rest) = Some (length s, rest)" for rest by simp
    moreover have "(8 * n + 2) div 8 = n" "(8 * n + 2) mod 8 = 2" by presburger+
    ultimately show ?thesis
      using Len n tag [of 2] by (simp add: f put_field_def get_field_def get_value_def del: add_2_eq_Suc')
  qed
qed

lemma get_fields_put: "list_all field_ok fs \<Longrightarrow> get_fields (concat (map put_field fs)) = Some fs"
proof (induction fs)
  case (Cons f fs)
  have "put_field f \<noteq> []" by (auto simp: put_field_def split: prod.splits wire.splits)
  with Cons show ?case by (subst get_fields.simps) (simp add: get_field_put)
qed (simp add: get_fields.simps)


section \<open>Messages\<close>

text \<open>A field of a message: its number, the values it is sent as (none where it has its zero value), and
  what a received value does to it; a value of another wire type is an unknown field.\<close>

record 'm field_desc =
  fd_num :: nat
  fd_put :: "'m \<Rightarrow> wire list option"
  fd_get :: "wire \<Rightarrow> 'm \<Rightarrow> 'm option"

definition string_field :: "nat \<Rightarrow> ('m \<Rightarrow> string) \<Rightarrow> ((string \<Rightarrow> string) \<Rightarrow> 'm \<Rightarrow> 'm) \<Rightarrow> 'm field_desc" where
  "string_field n get upd = \<lparr>fd_num = n,
     fd_put = (\<lambda>m. if get m = '''' then Some [] else if ValidString (get m) then Some [Len (get m)] else None),
     fd_get = (\<lambda>w m. case w of Len s \<Rightarrow> if ValidString s then Some (upd (\<lambda>_. s) m) else None | _ \<Rightarrow> Some m)\<rparr>"

definition int64_field :: "nat \<Rightarrow> ('m \<Rightarrow> int64) \<Rightarrow> ((int64 \<Rightarrow> int64) \<Rightarrow> 'm \<Rightarrow> 'm) \<Rightarrow> 'm field_desc" where
  "int64_field n get upd = \<lparr>fd_num = n,
     fd_put = (\<lambda>m. Some (if get m = 0 then [] else [Varint (get m)])),
     fd_get = (\<lambda>w m. Some (case w of Varint v \<Rightarrow> upd (\<lambda>_. v) m | _ \<Rightarrow> m))\<rparr>"

text \<open>\<open>int32\<close> and the enums.\<close>

definition int32_field :: "nat \<Rightarrow> ('m \<Rightarrow> int32) \<Rightarrow> ((int32 \<Rightarrow> int32) \<Rightarrow> 'm \<Rightarrow> 'm) \<Rightarrow> 'm field_desc" where
  "int32_field n get upd = \<lparr>fd_num = n,
     fd_put = (\<lambda>m. Some (if get m = 0 then [] else [Varint (scast (get m))])),
     fd_get = (\<lambda>w m. Some (case w of Varint v \<Rightarrow> upd (\<lambda>_. ucast v) m | _ \<Rightarrow> m))\<rparr>"

definition bool_field :: "nat \<Rightarrow> ('m \<Rightarrow> bool) \<Rightarrow> ((bool \<Rightarrow> bool) \<Rightarrow> 'm \<Rightarrow> 'm) \<Rightarrow> 'm field_desc" where
  "bool_field n get upd = \<lparr>fd_num = n,
     fd_put = (\<lambda>m. Some (if get m then [Varint 1] else [])),
     fd_get = (\<lambda>w m. Some (case w of Varint v \<Rightarrow> upd (\<lambda>_. v \<noteq> 0) m | _ \<Rightarrow> m))\<rparr>"

fun put_all :: "'m field_desc list \<Rightarrow> 'm \<Rightarrow> (nat \<times> wire) list option" where
  "put_all [] m = Some []"
| "put_all (f # fs) m = (case fd_put f m of
     None \<Rightarrow> None
   | Some ws \<Rightarrow> map_option (\<lambda>rest. map (Pair (fd_num f)) ws @ rest) (put_all fs m))"

fun merge_fields :: "'m field_desc list \<Rightarrow> (nat \<times> wire) list \<Rightarrow> 'm \<Rightarrow> 'm option" where
  "merge_fields sch [] m = Some m"
| "merge_fields sch ((n, w) # fs) m = (case List.find (\<lambda>f. fd_num f = n) sch of
     None \<Rightarrow> merge_fields sch fs m
   | Some f \<Rightarrow> Option.bind (fd_get f w m) (merge_fields sch fs))"

definition marshal :: "'m field_desc list \<Rightarrow> 'm \<Rightarrow> string option" where
  "marshal sch m = map_option (\<lambda>fs. concat (map put_field fs)) (put_all sch m)"

definition unmarshal :: "'m field_desc list \<Rightarrow> 'm \<Rightarrow> string \<Rightarrow> 'm option" where
  "unmarshal sch zero bs = Option.bind (get_fields bs) (\<lambda>fs. merge_fields sch fs zero)"

text \<open>A repeated message; a nil pointer is sent as an empty message.\<close>

definition repeated_field :: "nat \<Rightarrow> ('m \<Rightarrow> 'i option list) \<Rightarrow> (('i option list \<Rightarrow> 'i option list) \<Rightarrow> 'm \<Rightarrow> 'm) \<Rightarrow>
    'i field_desc list \<Rightarrow> 'i \<Rightarrow> 'm field_desc" where
  "repeated_field n get upd sch zero = \<lparr>fd_num = n,
     fd_put = (\<lambda>m. those (map (\<lambda>x. map_option Len (marshal sch (case x of None \<Rightarrow> zero | Some i \<Rightarrow> i))) (get m))),
     fd_get = (\<lambda>w m. case w of Len s \<Rightarrow> map_option (\<lambda>i. upd (\<lambda>xs. xs @ [Some i]) m) (unmarshal sch zero s) | _ \<Rightarrow> Some m)\<rparr>"

lemmas field_defs = string_field_def int64_field_def int32_field_def bool_field_def repeated_field_def

lemma field_nums [simp]:
  "fd_num (string_field n g u) = n" "fd_num (int64_field n g' u') = n" "fd_num (int32_field n g'' u'') = n"
  "fd_num (bool_field n g''' u''') = n" "fd_num (repeated_field n gi ui sch zero) = n"
  by (simp_all add: field_defs)

section \<open>The messages of the repository\<close>

definition ChargeRequest_fields :: "ChargeRequest field_desc list" where
  "ChargeRequest_fields =
    [string_field 1 charge_OrderId charge_OrderId_update, string_field 2 charge_CustomerId charge_CustomerId_update,
     int64_field 3 charge_AmountMinor charge_AmountMinor_update, string_field 4 charge_Currency charge_Currency_update]"

definition ChargeResponse_fields :: "ChargeResponse field_desc list" where
  "ChargeResponse_fields =
    [string_field 1 charge_PaymentId charge_PaymentId_update, int32_field 2 charge_Status charge_Status_update,
     string_field 3 charge_DeclineReason charge_DeclineReason_update]"

definition ChargeResponse_Reset :: ChargeResponse where
  "ChargeResponse_Reset = \<lparr>charge_PaymentId = '''', charge_Status = 0, charge_DeclineReason = ''''\<rparr>"

definition LineItem_fields :: "LineItem field_desc list" where
  "LineItem_fields = [string_field 1 item_Sku item_Sku_update, int32_field 2 item_Quantity item_Quantity_update]"

definition LineItem_Reset :: LineItem where
  "LineItem_Reset = \<lparr>item_Sku = '''', item_Quantity = 0\<rparr>"

definition ReserveRequest_fields :: "ReserveRequest field_desc list" where
  "ReserveRequest_fields =
    [string_field 1 reserve_OrderId reserve_OrderId_update,
     repeated_field 2 reserve_Items reserve_Items_update LineItem_fields LineItem_Reset]"

definition ReserveResponse_fields :: "ReserveResponse field_desc list" where
  "ReserveResponse_fields =
    [string_field 1 reserve_ReservationId reserve_ReservationId_update, int32_field 2 reserve_Status reserve_Status_update]"

definition ReserveResponse_Reset :: ReserveResponse where
  "ReserveResponse_Reset = \<lparr>reserve_ReservationId = '''', reserve_Status = 0\<rparr>"

definition ReleaseRequest_fields :: "ReleaseRequest field_desc list" where
  "ReleaseRequest_fields = [string_field 1 release_ReservationId release_ReservationId_update]"

definition ReleaseResponse_fields :: "ReleaseResponse field_desc list" where
  "ReleaseResponse_fields = [bool_field 1 release_Released release_Released_update]"

definition ReleaseResponse_Reset :: ReleaseResponse where
  "ReleaseResponse_Reset = \<lparr>release_Released = False\<rparr>"

section \<open>What a message becomes on its way\<close>

text \<open>gRPC's default limit on a received message.\<close>

definition max_message :: nat where
  "max_message = 4 * 1024 * 1024"

definition proto_codec :: "'m field_desc list \<Rightarrow> 'm \<Rightarrow> 'm \<Rightarrow> grpc_error + 'm" where
  "proto_codec sch zero m = (case marshal sch m of
     None \<Rightarrow> Inl (RpcError ''marshal: invalid UTF-8'')
   | Some bs \<Rightarrow>
      if max_message < length bs then Inl (RpcError ''received message larger than max'')
      else case unmarshal sch zero bs of None \<Rightarrow> Inl (RpcError ''unmarshal'') | Some m' \<Rightarrow> Inr m')"

text \<open>The contract of a message type: it is sent exactly when it is valid, and merging what was sent
  into an empty message gives what arrives of it, which is the message up to nil pointers.\<close>

locale wire_message =
  fixes sch :: "'m field_desc list" and zero :: 'm and valid :: "'m \<Rightarrow> bool" and arrives :: "'m \<Rightarrow> 'm"
  assumes numbers: "f \<in> set sch \<Longrightarrow> 1 \<le> fd_num f \<and> fd_num f < 2 ^ 29"
    and sent: "put_all sch m \<noteq> None \<longleftrightarrow> valid m"
    and merged: "put_all sch m = Some fs \<Longrightarrow> list_all field_ok fs \<Longrightarrow> merge_fields sch fs zero = Some (arrives m)"
begin

lemma put_all_numbers:
  assumes "put_all sch m = Some fs" "(n, w) \<in> set fs"
  shows "1 \<le> n \<and> n < 2 ^ 29"
proof -
  have "put_all fds m = Some fs \<Longrightarrow> (n, w) \<in> set fs \<Longrightarrow> n \<in> fd_num ` set fds" for fds fs
    by (induction fds arbitrary: fs) (fastforce split: option.splits)+
  from this [OF assms] show ?thesis using numbers by blast
qed

lemma marshal_iff: "marshal sch m = None \<longleftrightarrow> \<not> valid m"
  using sent [of m] by (auto simp: marshal_def)

lemma roundtrip:
  assumes "marshal sch m = Some bs" "length bs < 2 ^ 64"
  shows "unmarshal sch zero bs = Some (arrives m)"
proof -
  obtain fs where fs: "put_all sch m = Some fs" "bs = concat (map put_field fs)"
    using assms(1) by (auto simp: marshal_def)
  have "length s < 2 ^ 64" if "(n, Len s) \<in> set fs" for n s
  proof -
    have "length (put_field (n, Len s)) \<le> length bs"
      unfolding fs(2) length_concat by (rule member_le_sum_list) (use that in auto)
    then show ?thesis using assms(2) by (simp add: put_field_def)
  qed
  then have ok: "list_all field_ok fs"
    using put_all_numbers [OF fs(1)] by (auto simp: list_all_iff field_ok_def split: wire.splits)
  from get_fields_put [OF ok] merged [OF fs(1) ok] fs(2) show ?thesis by (simp add: unmarshal_def)
qed

lemma codec:
  "proto_codec sch zero m =
    (if \<not> valid m then Inl (RpcError ''marshal: invalid UTF-8'')
     else if max_message < length (the (marshal sch m)) then Inl (RpcError ''received message larger than max'')
     else Inr (arrives m))"
proof (cases "marshal sch m")
  case None
  then show ?thesis using marshal_iff [of m] by (simp add: proto_codec_def)
next
  case (Some bs)
  then show ?thesis
    using marshal_iff [of m] roundtrip [OF Some] by (auto simp: proto_codec_def max_message_def)
qed

end


section \<open>Fields one by one\<close>

lemma put_string:
  "fd_put (string_field n get upd) m = Some ws \<longleftrightarrow> ValidString (get m) \<and> ws = (if get m = '''' then [] else [Len (get m)])"
  by (auto simp: string_field_def)

lemma put_int64: "fd_put (int64_field n g64 upd) m = Some ws \<longleftrightarrow> ws = (if g64 m = 0 then [] else [Varint (g64 m)])"
  by (auto simp: int64_field_def)

lemma put_int32: "fd_put (int32_field n g32 upd) m = Some ws \<longleftrightarrow> ws = (if g32 m = 0 then [] else [Varint (scast (g32 m))])"
  by (auto simp: int32_field_def)

lemma put_bool: "fd_put (bool_field n gb upd) m = Some ws \<longleftrightarrow> ws = (if gb m then [Varint 1] else [])"
  by (auto simp: bool_field_def)

lemmas put_simps = put_string put_int64 put_int32 put_bool

lemma get_string: "ValidString s \<Longrightarrow> fd_get (string_field n get upd) (Len s) m = Some (upd (\<lambda>_. s) m)"
  by (simp add: string_field_def)

lemma get_int64: "fd_get (int64_field n g64 upd) (Varint v) m = Some (upd (\<lambda>_. v) m)"
  by (simp add: int64_field_def)

lemma ucast_scast: "ucast (scast (v :: int32) :: int64) = v"
  by (rule bit_word_eqI) (auto simp: bit_simps)

lemma get_int32: "fd_get (int32_field n g32 upd) (Varint (scast v)) m = Some (upd (\<lambda>_. v) m)"
  by (simp add: int32_field_def ucast_scast)

lemma get_bool: "fd_get (bool_field n gb upd) (Varint 1) m = Some (upd (\<lambda>_. True) m)"
  by (simp add: bool_field_def)

lemmas get_simps = get_string get_int64 get_int32 get_bool

lemma put_all_Cons: "put_all (f # fs) m = Some xs \<longleftrightarrow>
    (\<exists>ws rest. fd_put f m = Some ws \<and> put_all fs m = Some rest \<and> xs = map (Pair (fd_num f)) ws @ rest)"
  by (auto split: option.splits)

lemma put_all_None: "put_all (f # fs) m = None \<longleftrightarrow> fd_put f m = None \<or> put_all fs m = None"
  by (auto split: option.splits)

lemma put_None [simp]:
  "fd_put (string_field n g u) m = None \<longleftrightarrow> \<not> ValidString (g m)" "fd_put (int64_field n g64 u64) m \<noteq> None"
  "fd_put (int32_field n g32 u32) m \<noteq> None" "fd_put (bool_field n gb ub) m \<noteq> None"
  by (auto simp: field_defs)

section \<open>The contract, message by message\<close>

lemmas message_simps = put_all_Cons put_all_None put_simps get_simps
  ChargeRequest_fields_def ChargeRequest_Reset_def ChargeResponse_fields_def ChargeResponse_Reset_def
  LineItem_fields_def LineItem_Reset_def ReserveResponse_fields_def ReserveResponse_Reset_def
  ReleaseRequest_fields_def ReleaseRequest_Reset_def ReleaseResponse_fields_def ReleaseResponse_Reset_def

declare put_all.simps(2) [simp del]

interpretation charge_request: wire_message ChargeRequest_fields ChargeRequest_Reset
  "\<lambda>m. ValidString (charge_OrderId m) \<and> ValidString (charge_CustomerId m) \<and> ValidString (charge_Currency m)" "\<lambda>m. m"
  by unfold_locales (auto simp: message_simps simp del: not_None_eq split: if_splits)

interpretation charge_response: wire_message ChargeResponse_fields ChargeResponse_Reset
  "\<lambda>m. ValidString (charge_PaymentId m) \<and> ValidString (charge_DeclineReason m)" "\<lambda>m. m"
  by unfold_locales (auto simp: message_simps simp del: not_None_eq split: if_splits)

interpretation line_item: wire_message LineItem_fields LineItem_Reset "\<lambda>m. ValidString (item_Sku m)" "\<lambda>m. m"
  by unfold_locales (auto simp: message_simps simp del: not_None_eq split: if_splits)

interpretation reserve_response: wire_message ReserveResponse_fields ReserveResponse_Reset
  "\<lambda>m. ValidString (reserve_ReservationId m)" "\<lambda>m. m"
  by unfold_locales (auto simp: message_simps simp del: not_None_eq split: if_splits)

interpretation release_request: wire_message ReleaseRequest_fields ReleaseRequest_Reset
  "\<lambda>m. ValidString (release_ReservationId m)" "\<lambda>m. m"
  by unfold_locales (auto simp: message_simps simp del: not_None_eq split: if_splits)

interpretation release_response: wire_message ReleaseResponse_fields ReleaseResponse_Reset "\<lambda>m. True" "\<lambda>m. m"
  by unfold_locales (auto simp: message_simps simp del: not_None_eq split: if_splits)


section \<open>Repeated messages\<close>

text \<open>What a nil item stands for on the wire, and what a reservation request arrives as.\<close>

definition deref_item :: "LineItem option \<Rightarrow> LineItem" where
  "deref_item x = (case x of None \<Rightarrow> LineItem_Reset | Some i \<Rightarrow> i)"

definition valid_reserve :: "ReserveRequest \<Rightarrow> bool" where
  "valid_reserve m \<longleftrightarrow> ValidString (reserve_OrderId m) \<and> (\<forall>x \<in> set (reserve_Items m). ValidString (item_Sku (deref_item x)))"

definition arrived_reserve :: "ReserveRequest \<Rightarrow> ReserveRequest" where
  "arrived_reserve = reserve_Items_update (map (\<lambda>x. Some (deref_item x)))"

lemma those_None: "those xs = None \<longleftrightarrow> None \<in> set xs"
  by (induction xs) (auto split: option.splits)

lemma those_Some: "those xs = Some ys \<longleftrightarrow> xs = map Some ys"
  by (induction xs arbitrary: ys) (auto split: option.splits simp: Cons_eq_map_conv)

lemma put_repeated_None [simp]:
  "fd_put (repeated_field n get upd sch zero) m = None
    \<longleftrightarrow> (\<exists>x \<in> set (get m). marshal sch (case x of None \<Rightarrow> zero | Some i \<Rightarrow> i) = None)"
  by (auto simp: repeated_field_def those_None)

lemma merge_items:
  assumes "map (\<lambda>x. map_option Len (marshal LineItem_fields (deref_item x))) xs = map Some ws"
    and "list_all field_ok (map (Pair 2) ws)"
  shows "merge_fields ReserveRequest_fields (map (Pair 2) ws) m
    = Some (reserve_Items_update (\<lambda>ys. ys @ map (\<lambda>x. Some (deref_item x)) xs) m)"
  using assms
proof (induction xs arbitrary: ws m)
  case (Cons x xs)
  then obtain bs ws' where bs: "marshal LineItem_fields (deref_item x) = Some bs" "ws = Len bs # ws'"
    "map (\<lambda>x. map_option Len (marshal LineItem_fields (deref_item x))) xs = map Some ws'"
    by (auto simp: Cons_eq_map_conv map_eq_Cons_conv)
  then have "unmarshal LineItem_fields LineItem_Reset bs = Some (deref_item x)"
    using Cons.prems(2) by (intro line_item.roundtrip) (simp_all add: field_ok_def)
  with Cons.IH [OF bs(3)] Cons.prems(2) show ?case
    by (simp add: bs(2) ReserveRequest_fields_def repeated_field_def comp_def)
qed simp

interpretation reserve_request: wire_message ReserveRequest_fields ReserveRequest_Reset valid_reserve arrived_reserve
proof unfold_locales
  show "put_all ReserveRequest_fields m \<noteq> None \<longleftrightarrow> valid_reserve m" for m
    by (auto simp: ReserveRequest_fields_def put_all_None line_item.marshal_iff valid_reserve_def deref_item_def [symmetric]
        simp del: not_None_eq)
  fix m fs
  assume sent: "put_all ReserveRequest_fields m = Some fs" and ok: "list_all field_ok fs"
  then obtain ws where
    ws: "map (\<lambda>x. map_option Len (marshal LineItem_fields (deref_item x))) (reserve_Items m) = map Some ws"
      "fs = (if reserve_OrderId m = '''' then [] else [(1, Len (reserve_OrderId m))]) @ map (Pair 2) ws"
      "ValidString (reserve_OrderId m)"
    by (auto simp: ReserveRequest_fields_def put_all_Cons put_string repeated_field_def those_Some deref_item_def)
  have "list_all field_ok (map (Pair 2) ws)" using ok ws(2) by simp
  note items = merge_items [OF ws(1) this]
  define id where "id = reserve_OrderId_update (\<lambda>_. reserve_OrderId m) ReserveRequest_Reset"
  have "merge_fields ReserveRequest_fields fs ReserveRequest_Reset = merge_fields ReserveRequest_fields (map (Pair 2) ws) id"
    using ws(3) by (auto simp: ws(2) id_def ReserveRequest_fields_def get_string ReserveRequest_Reset_def)
  also have "\<dots> = Some (arrived_reserve m)"
    unfolding items by (simp add: id_def arrived_reserve_def ReserveRequest_Reset_def)
  finally show "merge_fields ReserveRequest_fields fs ReserveRequest_Reset = Some (arrived_reserve m)" .
qed (auto simp: ReserveRequest_fields_def)


text \<open>The bytes of a charge: tags 0x0A, 0x12, 0x18 and 0x22, the amount 4999 in two bytes; a negative
  amount takes ten.\<close>

lemma charge_bytes:
  "marshal ChargeRequest_fields \<lparr>charge_OrderId = ''o1'', charge_CustomerId = ''c'', charge_AmountMinor = 4999, charge_Currency = ''EUR''\<rparr>
    = Some (map char_of [0x0A, 2, 0x6F, 0x31, 0x12, 1, 0x63, 0x18, 0x87, 0x27, 0x22, 3, 0x45, 0x55, 0x52 :: nat])"
proof -
  have "concat (map put_field [(1, Len ''o1''), (2, Len ''c''), (3, Varint 4999), (4, Len ''EUR'')])
    = map char_of [0x0A, 2, 0x6F, 0x31, 0x12, 1, 0x63, 0x18, 0x87, 0x27, 0x22, 3, 0x45, 0x55, 0x52 :: nat]"
    by code_simp
  then show ?thesis
    by (simp add: marshal_def ChargeRequest_fields_def put_all.simps string_field_def int64_field_def del: concat.simps char_of_def)
qed

lemma charge_negative:
  "map_option length (marshal ChargeRequest_fields (ChargeRequest_Reset\<lparr>charge_AmountMinor := - 1\<rparr>)) = Some 11"
  by (simp add: marshal_def ChargeRequest_fields_def put_all.simps string_field_def int64_field_def ChargeRequest_Reset_def
      put_field_def varint.simps unsigned_minus_1_eq_mask mask_eq_exp_minus_1)

text \<open>What \<open>proto_codec\<close> makes of a message, given whether its strings are valid and what arrives of it.\<close>

definition carried :: "bool \<Rightarrow> 'm field_desc list \<Rightarrow> 'm \<Rightarrow> 'm \<Rightarrow> grpc_error + 'm" where
  "carried valid sch m arrived =
    (if \<not> valid then Inl (RpcError ''marshal: invalid UTF-8'')
     else if max_message < length (the (marshal sch m)) then Inl (RpcError ''received message larger than max'')
     else Inr arrived)"

section \<open>Property\<close>

text \<open>
  C28: every message of the generated code on the wire. With the field numbers and kinds of its struct
  tags, a message of any of the seven types is refused when one of its strings is not valid UTF-8 or its
  encoding is longer than the 4 MiB limit, and otherwise arrives as it was sent: every string, every
  signed number and enum value (negative ones included), zero values that are left out, the items of a
  reservation in their order, with a nil item as an empty one.
\<close>

theorem messages_survive_wire:
  "proto_codec ChargeRequest_fields ChargeRequest_Reset cq = carried
     (ValidString (charge_OrderId cq) \<and> ValidString (charge_CustomerId cq) \<and> ValidString (charge_Currency cq)) ChargeRequest_fields cq cq
   \<and> proto_codec ChargeResponse_fields ChargeResponse_Reset cr = carried
     (ValidString (charge_PaymentId cr) \<and> ValidString (charge_DeclineReason cr)) ChargeResponse_fields cr cr
   \<and> proto_codec LineItem_fields LineItem_Reset it = carried (ValidString (item_Sku it)) LineItem_fields it it
   \<and> proto_codec ReserveRequest_fields ReserveRequest_Reset rq = carried (valid_reserve rq) ReserveRequest_fields rq
     (reserve_Items_update (map (\<lambda>x. Some (deref_item x))) rq)
   \<and> proto_codec ReserveResponse_fields ReserveResponse_Reset rr = carried
     (ValidString (reserve_ReservationId rr)) ReserveResponse_fields rr rr
   \<and> proto_codec ReleaseRequest_fields ReleaseRequest_Reset lq = carried
     (ValidString (release_ReservationId lq)) ReleaseRequest_fields lq lq
   \<and> proto_codec ReleaseResponse_fields ReleaseResponse_Reset lr = carried True ReleaseResponse_fields lr lr"
  unfolding carried_def arrived_reserve_def [symmetric]
  by (intro conjI charge_request.codec charge_response.codec line_item.codec reserve_request.codec
      reserve_response.codec release_request.codec release_response.codec)

end
