(* ===== verification/Order_Wire.thy ===== *)
theory Order_Wire
  imports Orders_Svc Proto_Wire
begin

text \<open>
  An order from its HTTP body to the inventory, with the bytes in between: the decoder of the request
  leaves only valid UTF-8 in the strings, so the messages to the payments service and on to the
  inventory can always be marshalled, and only their size can keep them from arriving.
  \<open>proto_conn\<close> is a connection that behaves as gRPC documents, with the encoding of \<open>Proto_Wire\<close>.
\<close>

section \<open>A connection with the protobuf encoding\<close>

definition proto_conn :: "('q, 'r, 's) ServiceDesc \<Rightarrow> 'q field_desc list \<Rightarrow> 'q \<Rightarrow> 'r field_desc list \<Rightarrow> 'r \<Rightarrow>
    ('q, 'r, 's) transport" where
  "proto_conn desc sch_q zero_q sch_r zero_r path inp s =
    (case map_of (map (\<lambda>(name, h). (CHR ''/'' # ServiceName desc @ CHR ''/'' # name, h)) (Methods desc)) path of
       None \<Rightarrow> (Inl (Unimplemented ''unknown method''), s)
     | Some h \<Rightarrow>
        (case h (\<lambda>_. proto_codec sch_q zero_q (case inp of None \<Rightarrow> zero_q | Some m \<Rightarrow> m)) None s of
          ((Some out, None), s') \<Rightarrow> (proto_codec sch_r zero_r out, s')
        | ((_, Some e), s') \<Rightarrow> (Inl e, s')
        | ((None, None), s') \<Rightarrow> (Inl (RpcError ''grpc: nil reply''), s')))"

lemma delivers_proto:
  assumes "distinct (map fst (Methods desc))"
  shows "delivers desc (proto_codec sch_q zero_q) (proto_codec sch_r zero_r) zero_q (proto_conn desc sch_q zero_q sch_r zero_r)"
  using map_of_is_SomeI [OF assms] by (auto simp: delivers_def proto_conn_def map_of_paths)

lemma unary_wire_refused:
  assumes "delivers \<lparr>ServiceName = sn, Methods = [(name, unary_handler full zero srv)]\<rparr> codec_q codec_r zero invoke"
    and "full = CHR ''/'' # sn @ CHR ''/'' # name" "codec_q m = Inl e"
  shows "unary_call full invoke (Some m) s = ((None, Some e), s)"
  using assms(1) unfolding delivers_def assms(2) by (simp add: unary_call_def unary_handler_def assms(3))

section \<open>The messages of an order\<close>

text \<open>\<open>uuid.NewString\<close> gives 36 characters of ASCII.\<close>

definition is_uuid :: "string \<Rightarrow> bool" where
  "is_uuid s \<longleftrightarrow> length s = 36 \<and> list_all (\<lambda>c. byte c < 0x80) s"

lemma is_uuid_replicate [simp]: "byte c < 0x80 \<Longrightarrow> is_uuid (replicate 36 c)"
  by (simp add: is_uuid_def list_all_iff)

lemma ValidString_ascii: "list_all (\<lambda>c. byte c < 0x80) s \<Longrightarrow> ValidString s"
  by (induction s) simp_all

lemma is_uuid_valid [simp]: "is_uuid s \<Longrightarrow> ValidString s"
  by (simp add: is_uuid_def ValidString_ascii)

lemma decoded_order_valid:
  assumes "Decode dec_order zero_order req_body = Some req"
  shows "ValidString (CustomerID req) \<and> ValidString (Currency req)"
proof (rule Decode_keeps [OF _ _ assms])
  show "dec_keeps (\<lambda>r. ValidString (CustomerID r) \<and> ValidString (Currency r)) dec_order"
    unfolding dec_order_def
  proof (rule dec_keeps_struct)
    fix n d
    assume "(n, d) \<in> set [(''customer_id'', field CustomerID CustomerID_update dec_string),
     (''customer_email'', field CustomerEmail CustomerEmail_update dec_string),
     (''amount_minor'', field AmountMinor AmountMinor_update dec_int64),
     (''currency'', field Currency Currency_update dec_string),
     (''sku'', field SKU SKU_update dec_string),
     (''quantity'', field Quantity Quantity_update dec_int32)]"
    then show "dec_keeps (\<lambda>r. ValidString (CustomerID r) \<and> ValidString (Currency r)) d"
      using dec_keeps_string by (auto simp: dec_keeps_def field_def Let_def case_prod_unfold)
  qed
qed (simp add: zero_order_def)


lemma length_put_Len: "length s < 128 \<Longrightarrow> n < 16 \<Longrightarrow> length (put_field (n, Len s)) = 2 + length s"
  by (simp add: put_field_def varint.simps)

lemma item_bytes: "\<exists>bs. marshal LineItem_fields default_item = Some bs \<and> length bs = 11"
  by (simp add: marshal_def LineItem_fields_def put_all.simps string_field_def int32_field_def default_item_def
      put_field_def varint.simps)

lemma reserve_sent:
  assumes "is_uuid oid"
  shows "proto_codec ReserveRequest_fields ReserveRequest_Reset \<lparr>reserve_OrderId = oid, reserve_Items = [Some default_item]\<rparr>
    = Inr \<lparr>reserve_OrderId = oid, reserve_Items = [Some default_item]\<rparr>" (is "_ = Inr ?m")
proof -
  obtain bs where bs: "marshal LineItem_fields default_item = Some bs" "length bs = 11" using item_bytes by blast
  have oid: "length oid = 36" "oid \<noteq> []" using assms by (auto simp: is_uuid_def)
  have "put_all ReserveRequest_fields ?m = Some [(1, Len oid), (2, Len bs)]"
    using assms oid(2) bs by (simp add: ReserveRequest_fields_def put_all.simps string_field_def repeated_field_def)
  then have "length (the (marshal ReserveRequest_fields ?m)) \<le> max_message"
    using oid(1) bs(2) by (simp add: marshal_def length_put_Len max_message_def)
  moreover have "valid_reserve ?m"
    using assms by (simp add: valid_reserve_def deref_item_def default_item_def)
  ultimately show ?thesis
    unfolding reserve_request.codec by (simp add: arrived_reserve_def deref_item_def)
qed

lemma reserved_sent:
  assumes "is_uuid rid"
  shows "proto_codec ReserveResponse_fields ReserveResponse_Reset (reserved_reply rid) = Inr (reserved_reply rid)"
proof -
  have rid: "length rid = 36" "rid \<noteq> []" using assms by (auto simp: is_uuid_def)
  then have "length (the (marshal ReserveResponse_fields (reserved_reply rid))) \<le> max_message"
    using assms by (simp add: marshal_def ReserveResponse_fields_def put_all.simps string_field_def int32_field_def reserved_reply_def
        reserve_status_defs length_put_Len max_message_def) (simp add: put_field_def varint.simps)
  then show ?thesis
    unfolding reserve_response.codec using assms by (simp add: reserved_reply_def)
qed

lemma authorized_sent:
  assumes "is_uuid uuid"
  shows "proto_codec ChargeResponse_fields ChargeResponse_Reset (authorized_reply uuid) = Inr (authorized_reply uuid)"
proof -
  have uuid: "length uuid = 36" "uuid \<noteq> []" using assms by (auto simp: is_uuid_def)
  then have "length (the (marshal ChargeResponse_fields (authorized_reply uuid))) \<le> max_message"
    using assms by (simp add: marshal_def ChargeResponse_fields_def put_all.simps string_field_def int32_field_def authorized_reply_def
        charge_status_defs length_put_Len max_message_def) (simp add: put_field_def varint.simps)
  then show ?thesis
    unfolding charge_response.codec using assms by (simp add: authorized_reply_def)
qed


lemma charge_sent:
  assumes "is_uuid oid" "Decode dec_order zero_order req_body = Some req"
  obtains bs where "marshal ChargeRequest_fields (charge_request oid req) = Some bs"
    "proto_codec ChargeRequest_fields ChargeRequest_Reset (charge_request oid req) =
      (if length bs \<le> max_message then Inr (charge_request oid req) else Inl (RpcError ''received message larger than max''))"
proof -
  have valid: "ValidString oid" "ValidString (CustomerID req)" "ValidString (Currency req)"
    using assms(1) decoded_order_valid [OF assms(2)] by simp_all
  then obtain bs where "marshal ChargeRequest_fields (charge_request oid req) = Some bs"
    using charge_request.marshal_iff [of "charge_request oid req"] by (auto simp: charge_request_def)
  with that charge_request.codec [of "charge_request oid req"] valid show thesis
    by (auto simp: charge_request_def)
qed

section \<open>Property\<close>

text \<open>
  C11: an order through the three services, with the bytes on both connections. When the connections
  deliver with the protobuf encoding and the drawn identifiers are UUIDs, a body that does not decode is
  answered 400 and changes nothing. Any other body, whatever bytes stand in it, can be marshalled; if the
  charge fits into gRPC's 4 MiB the order is answered 200 with its own and the payment's identifier, exactly one
  reservation of one default item is made, and the event is published unless publishing is paused;
  if it does not fit, the client is answered 502 and neither the inventory nor the stream has changed.
\<close>

theorem order_over_wire:
  assumes "delivers (InventoryService_Reserve_Desc (Reserve rid)) (proto_codec ReserveRequest_fields ReserveRequest_Reset)
      (proto_codec ReserveResponse_fields ReserveResponse_Reset) ReserveRequest_Reset inv_conn"
    and "delivers (PaymentsService_ServiceDesc (Charge inv_conn rnd uuid)) (proto_codec ChargeRequest_fields ChargeRequest_Reset)
      (proto_codec ChargeResponse_fields ChargeResponse_Reset) ChargeRequest_Reset (pay env call_timeout)"
    and "is_uuid rid" "is_uuid uuid" "is_uuid (new_uuid env)"
  shows "case Decode dec_order zero_order req_body of
      None \<Rightarrow> handleCreate env a req_body ((s, spent), j) = (http_Error ''invalid json'' StatusBadRequest, (s, spent), j)
    | Some req \<Rightarrow> (\<exists>bs. marshal ChargeRequest_fields (charge_request (new_uuid env) req) = Some bs
        \<and> handleCreate env a req_body ((s, spent), j) =
          (if length bs \<le> max_message
           then ([SetHeader ''Content-Type'' ''application/json'', Write (created_reply (new_uuid env) uuid)],
             (s\<lparr>store := (store s)(rid \<mapsto> [Some default_item])\<rparr>, spent + bank_delay rnd),
             if publishingPaused a then j else snd (PublishMsg env (order_msg env a req) j))
           else (http_Error ''payments unavailable'' StatusBadGateway, (s, spent), j)))"
proof (cases "Decode dec_order zero_order req_body")
  case (Some req)
  let ?m = "charge_request (new_uuid env) req"
  obtain bs where bs: "marshal ChargeRequest_fields ?m = Some bs"
    "proto_codec ChargeRequest_fields ChargeRequest_Reset ?m =
      (if length bs \<le> max_message then Inr ?m else Inl (RpcError ''received message larger than max''))"
    using charge_sent [OF assms(5) Some] .
  show ?thesis
  proof (cases "length bs \<le> max_message")
    case True
    have "proto_codec ReserveRequest_fields ReserveRequest_Reset (sent_reserve (Some ?m)) = Inr (sent_reserve (Some ?m))"
      using reserve_sent [OF assms(5)] by (simp add: sent_reserve_def getter_defs charge_request_def)
    then have "paymentsServiceClient_Charge (pay env call_timeout) (Some ?m) (s, spent) = ((Some (authorized_reply uuid), None),
        (s\<lparr>store := (store s)(rid \<mapsto> [Some default_item])\<rparr>, spent + bank_delay rnd))"
      using charge_over_wire(1) [OF assms(1,2) _ reserved_sent [OF assms(3)] _ authorized_sent [OF assms(4)], of "Some ?m" s spent] bs(2) True
      by (simp add: received_charge_def)
    then show ?thesis
      using Some bs True by (simp add: handleCreate_def authorized_reply_def getter_defs)
  next
    case False
    have "paymentsServiceClient_Charge (pay env call_timeout) (Some ?m) (s, spent) = ((None, Some (RpcError ''received message larger than max'')), s, spent)"
      unfolding paymentsServiceClient_Charge_def
      by (rule unary_wire_refused [OF assms(2) [unfolded PaymentsService_ServiceDesc_def PaymentsService_Charge_Handler_def]
            full_method_names(1)]) (use bs(2) False in simp)
    with Some bs False show ?thesis by (simp add: handleCreate_def)
  qed
qed (simp add: handleCreate_def)

text \<open>The repository's services over such connections.\<close>

definition sample_inv :: "(ReserveRequest, ReserveResponse, inventory_server) transport" where
  "sample_inv = proto_conn (InventoryService_Reserve_Desc (Reserve (replicate 36 CHR ''r'')))
     ReserveRequest_fields ReserveRequest_Reset ReserveResponse_fields ReserveResponse_Reset"

definition sample_wire_env :: "(inventory_server \<times> duration, nats_msg list) order_env" where
  "sample_wire_env = \<lparr>pay = (\<lambda>_. proto_conn (PaymentsService_ServiceDesc (Charge sample_inv 3 (replicate 36 CHR ''p'')))
       ChargeRequest_fields ChargeRequest_Reset ChargeResponse_fields ChargeResponse_Reset),
     PublishMsg = (\<lambda>m ms. (None, ms @ [m])), trace_headers = [], new_uuid = replicate 36 CHR ''o'', now_utc = sample_time\<rparr>"

theorem order_over_wire_witness:
  "\<exists>ops s' j'. handleCreate sample_wire_env \<lparr>subject = ''orders'', publishingPaused = False\<rparr> [CHR 0x7B, CHR 0x7D] ((new_inventory, 0), [])
      = (ops, s', j') \<and> code ops = 200 \<and> store (fst s') (replicate 36 CHR ''r'') = Some [Some default_item] \<and> length j' = 1"
proof -
  define oid where "oid = replicate 36 CHR ''o''"
  have "oid \<noteq> []" "length oid = 36" "is_uuid oid" by (simp_all add: oid_def)
  then have size: "length (the (marshal ChargeRequest_fields (charge_request oid zero_order))) \<le> max_message"
    by (simp add: marshal_def ChargeRequest_fields_def put_all.simps string_field_def int64_field_def charge_request_def
        zero_order_def length_put_Len max_message_def)
  have inv: "delivers (InventoryService_Reserve_Desc (Reserve (replicate 36 CHR ''r''))) (proto_codec ReserveRequest_fields ReserveRequest_Reset)
      (proto_codec ReserveResponse_fields ReserveResponse_Reset) ReserveRequest_Reset sample_inv"
    unfolding sample_inv_def by (rule delivers_proto) (simp add: InventoryService_Reserve_Desc_def)
  have pay: "delivers (PaymentsService_ServiceDesc (Charge sample_inv 3 (replicate 36 CHR ''p''))) (proto_codec ChargeRequest_fields ChargeRequest_Reset)
      (proto_codec ChargeResponse_fields ChargeResponse_Reset) ChargeRequest_Reset (pay sample_wire_env call_timeout)"
    unfolding sample_wire_env_def order_env.simps by (rule delivers_proto) (simp add: PaymentsService_ServiceDesc_def)
  have id: "new_uuid sample_wire_env = oid" by (simp add: sample_wire_env_def oid_def)
  show ?thesis
    using order_over_wire [OF inv pay, where req_body = "[CHR 0x7B, CHR 0x7D]" and
        a = "\<lparr>subject = ''orders'', publishingPaused = False\<rparr>" and s = new_inventory and spent = 0 and j = "[]"]
      size \<open>is_uuid oid\<close> unfolding id empty_object_decodes
    by (auto simp: code_reply sample_wire_env_def)
qed

end
