(* ===== verification/Orders_Interleaving.thy ===== *)
theory Orders_Interleaving
  imports Orders_Svc
begin

text \<open>
  Concurrent orders. \<open>net/http\<close> runs every request of the orders service in its own goroutine, and the
  circuit-break watcher runs in another one; they share the connections and the flag
  \<open>publishingPaused\<close>, an \<open>atomic.Bool\<close>. The state machine below interleaves any number of calls of the
  create handler with the watcher: a request takes one step to decode its body, one for the
  call of the payments service, one to load the flag, one to publish, and one to answer, so the flag can
  change between its load and the publishing it guards. The lemmas show that the answers and the
  effect on the payments service are those of \<open>handleCreate\<close> in the order of the calls, and which
  events still reach the stream once the brake is on.
\<close>

section \<open>The machine\<close>

datatype order_pc =
  ODecode
| OCharge orderRequest
| OCheck orderRequest "ChargeResponse option"
| OPublish orderRequest "ChargeResponse option"
| OReply "ChargeResponse option"
| ODone "wcall list"

definition created :: "('s, 'j) order_env \<Rightarrow> ChargeResponse option \<Rightarrow> wcall list" where
  "created env resp = [SetHeader ''Content-Type'' ''application/json'',
     Write (created_reply (new_uuid env) (ChargeResponse_GetPaymentId resp))]"

text \<open>One step of a request, on the state of the payments connection and the stream.\<close>

fun order_next :: "('s, 'j) order_env \<Rightarrow> app \<Rightarrow> string \<Rightarrow> order_pc \<Rightarrow> 's \<times> 'j \<Rightarrow> order_pc \<times> 's \<times> 'j" where
  "order_next env a req_body ODecode st = (case Decode dec_order zero_order req_body of
     None \<Rightarrow> (ODone (http_Error ''invalid json'' StatusBadRequest), st)
   | Some req \<Rightarrow> (OCharge req, st))"
| "order_next env a req_body (OCharge req) (s, j) =
    (let ((resp, err), s1) = paymentsServiceClient_Charge (pay env call_timeout) (Some (charge_request (new_uuid env) req)) s
     in if err \<noteq> None then (ODone (http_Error ''payments unavailable'' StatusBadGateway), s1, j)
        else if ChargeResponse_GetStatus resp \<noteq> ChargeResponse_STATUS_AUTHORIZED then
          (ODone (http_Error (''declined: '' @ ChargeResponse_GetDeclineReason resp) StatusPaymentRequired), s1, j)
        else (OCheck req resp, s1, j))"
| "order_next env a req_body (OCheck req resp) st =
    (if publishingPaused a then OReply resp else OPublish req resp, st)"
| "order_next env a req_body (OPublish req resp) (s, j) = (OReply resp, s, snd (PublishMsg env (order_msg env a req) j))"
| "order_next env a req_body (OReply resp) st = (ODone (created env resp), st)"
| "order_next env a req_body (ODone ops) st = (ODone ops, st)"

text \<open>The requests with their environments and bodies are fixed; \<open>handed\<close> records, for the proofs, which of
  them have handed their event to the stream.\<close>

type_synonym ('s, 'j) order_calls = "(('s, 'j) order_env \<times> string) list"

record ('s, 'j) orders_state =
  os_pay :: 's
  os_stream :: 'j
  os_watch :: watch
  os_pcs :: "order_pc list"
  handed :: "nat list"

definition is_done :: "order_pc \<Rightarrow> bool" where
  "is_done pc = (case pc of ODone _ \<Rightarrow> True | _ \<Rightarrow> False)"

definition past_check :: "order_pc \<Rightarrow> bool" where
  "past_check pc = (case pc of OPublish _ _ \<Rightarrow> True | _ \<Rightarrow> False)"

definition request_move :: "string \<Rightarrow> ('s, 'j) order_calls \<Rightarrow> nat \<Rightarrow> ('s, 'j) orders_state \<Rightarrow> ('s, 'j) orders_state" where
  "request_move subj rs i s =
    (let (pc', s', j') = order_next (fst (rs ! i)) \<lparr>subject = subj, publishingPaused = paused (os_watch s)\<rparr> (snd (rs ! i))
           (os_pcs s ! i) (os_pay s, os_stream s)
     in s\<lparr>os_pay := s', os_stream := j', os_pcs := (os_pcs s)[i := pc'],
          handed := handed s @ (if past_check (os_pcs s ! i) then [i] else [])\<rparr>)"

datatype orders_event = Request nat | Watcher watch_event

inductive orders_step :: "string \<Rightarrow> ('s, 'j) order_calls \<Rightarrow> ('s, 'j) orders_state \<Rightarrow> orders_event \<Rightarrow> ('s, 'j) orders_state \<Rightarrow> bool"
  for subj rs where
  request: "i < length rs \<Longrightarrow> \<not> is_done (os_pcs s ! i) \<Longrightarrow> orders_step subj rs s (Request i) (request_move subj rs i s)"
| watcher: "watch_step (os_watch s) e w \<Longrightarrow> orders_step subj rs s (Watcher e) (s\<lparr>os_watch := w\<rparr>)"

inductive_cases orders_stepE: "orders_step subj rs s e t"
inductive_simps orders_step_request: "orders_step subj rs s (Request i) t"
inductive_simps orders_step_watcher: "orders_step subj rs s (Watcher e) t"

definition orders_init :: "('s, 'j) order_calls \<Rightarrow> 's \<Rightarrow> 'j \<Rightarrow> watch \<Rightarrow> ('s, 'j) orders_state" where
  "orders_init rs s0 j0 w = \<lparr>os_pay = s0, os_stream = j0, os_watch = w, os_pcs = map (\<lambda>_. ODecode) rs, handed = []\<rparr>"

interpretation orders: machine "\<lambda>s. s = orders_init rs s0 j0 w" "orders_step subj rs" for rs s0 j0 w subj .

section \<open>The answers in the order of the calls\<close>

text \<open>What a request that was charged or refused is going to answer.\<close>

fun settled :: "order_pc \<Rightarrow> bool" where
  "settled ODecode \<longleftrightarrow> False"
| "settled (OCharge req) \<longleftrightarrow> False"
| "settled _ \<longleftrightarrow> True"

fun answer :: "('s, 'j) order_env \<Rightarrow> order_pc \<Rightarrow> wcall list" where
  "answer env (OCheck req resp) = created env resp"
| "answer env (OPublish req resp) = created env resp"
| "answer env (OReply resp) = created env resp"
| "answer env (ODone ops) = ops"
| "answer env _ = []"

fun serve_serially :: "app \<Rightarrow> ('s, 'j) order_calls \<Rightarrow> 's \<times> 'j \<Rightarrow> wcall list list \<times> 's \<times> 'j" where
  "serve_serially a [] st = ([], st)"
| "serve_serially a ((env, req_body) # rs) st =
    (let (ops, st1) = handleCreate env a req_body st; (opss, st2) = serve_serially a rs st1 in (ops # opss, st2))"

lemma serve_serially_snoc:
  "serve_serially a rs st = (opss, st1) \<Longrightarrow> handleCreate env a req_body st1 = (ops, st2) \<Longrightarrow>
    serve_serially a (rs @ [(env, req_body)]) st = (opss @ [ops], st2)"
  by (induction rs arbitrary: st opss) (auto split: prod.splits)

text \<open>The decoded order a program point carries.\<close>

fun carries :: "string \<Rightarrow> order_pc \<Rightarrow> bool" where
  "carries req_body (OCharge req) \<longleftrightarrow> Decode dec_order zero_order req_body = Some req"
| "carries req_body (OCheck req resp) \<longleftrightarrow> Decode dec_order zero_order req_body = Some req"
| "carries req_body (OPublish req resp) \<longleftrightarrow> Decode dec_order zero_order req_body = Some req"
| "carries req_body _ \<longleftrightarrow> True"

lemma next_carries:
  "order_next env a req_body pc st = (pc', st') \<Longrightarrow> carries req_body pc \<Longrightarrow> carries req_body pc'"
  by (cases "(env, a, req_body, pc, st)" rule: order_next.cases) (auto split: option.splits if_splits prod.splits)

text \<open>A step that settles a request does what the paused handler does; a later one changes neither its answer nor
  the payments side.\<close>

lemma next_settles:
  assumes "order_next env a req_body pc (s, j) = (pc', s', j')" "carries req_body pc" "\<not> settled pc"
  shows "if settled pc' then handleCreate env \<lparr>subject = subj, publishingPaused = True\<rparr> req_body (s, k) = (answer env pc', s', k) \<and> j' = j
    else s' = s \<and> j' = j"
  using assms by (cases pc) (auto simp: handleCreate_def created_def Let_def split: option.splits if_splits prod.splits)

lemma next_settled:
  assumes "order_next env a req_body pc (s, j) = (pc', s', j')" "settled pc" "\<not> is_done pc"
  shows "settled pc' \<and> answer env pc' = answer env pc \<and> s' = s \<and> (\<not> past_check pc \<longrightarrow> j' = j)"
  using assms by (cases pc) (auto simp: is_done_def past_check_def split: if_splits)

text \<open>A request that is answered 200, from the moment it is past its publishing.\<close>

definition replying :: "order_pc \<Rightarrow> bool" where
  "replying pc = (case pc of OReply _ \<Rightarrow> True | ODone ops \<Rightarrow> code ops = StatusOK | _ \<Rightarrow> False)"

lemma code_created [simp]: "code (created env resp) = StatusOK"
  by (simp add: created_def code_reply)

lemma code_replying: "replying pc \<Longrightarrow> code (answer env pc) = StatusOK"
  by (cases pc) (simp_all add: replying_def)

lemma next_replying:
  assumes "order_next env a req_body pc (s, j) = (pc', s', j')" "\<not> is_done pc"
  shows "replying pc' \<longleftrightarrow> replying pc \<or> past_check pc \<or> (\<exists>req resp. pc = OCheck req resp \<and> publishingPaused a)"
    and "past_check pc' \<longleftrightarrow> (\<exists>req resp. pc = OCheck req resp \<and> \<not> publishingPaused a)"
  using assms
  by (cases pc; auto simp: is_done_def replying_def past_check_def informational_def Let_def split: if_splits option.splits prod.splits)+

text \<open>What handing over the event of a request does to the stream.\<close>

definition hand_over :: "string \<Rightarrow> ('s, 'j) order_calls \<Rightarrow> nat \<Rightarrow> 'j \<Rightarrow> 'j" where
  "hand_over subj rs i j = (case Decode dec_order zero_order (snd (rs ! i)) of
     None \<Rightarrow> j
   | Some req \<Rightarrow> snd (PublishMsg (fst (rs ! i)) (order_msg (fst (rs ! i)) \<lparr>subject = subj, publishingPaused = False\<rparr> req) j))"

lemma next_hands_over:
  assumes "order_next (fst (rs ! i)) \<lparr>subject = subj, publishingPaused = p\<rparr> (snd (rs ! i)) pc (s, j) = (pc', s', j')"
    and "past_check pc" "carries (snd (rs ! i)) pc"
  shows "j' = hand_over subj rs i j"
  using assms by (cases pc) (auto simp: past_check_def hand_over_def order_msg_def)

section \<open>The invariant\<close>

definition handed_inv :: "string \<Rightarrow> ('s, 'j) order_calls \<Rightarrow> 'j \<Rightarrow> ('s, 'j) orders_state \<Rightarrow> bool" where
  "handed_inv subj rs j0 s \<longleftrightarrow>
    length (os_pcs s) = length rs \<and> (\<forall>i < length rs. carries (snd (rs ! i)) (os_pcs s ! i))
    \<and> distinct (handed s) \<and> (\<forall>i \<in> set (handed s). i < length rs \<and> replying (os_pcs s ! i))
    \<and> os_stream s = fold (hand_over subj rs) (handed s) j0"

definition serial_inv :: "string \<Rightarrow> ('s, 'j) order_calls \<Rightarrow> 's \<Rightarrow> 'j \<Rightarrow> nat list \<Rightarrow> ('s, 'j) orders_state \<Rightarrow> bool" where
  "serial_inv subj rs s0 j0 cs s \<longleftrightarrow>
    distinct cs \<and> set cs = {i. i < length rs \<and> settled (os_pcs s ! i)}
    \<and> serve_serially \<lparr>subject = subj, publishingPaused = True\<rparr> (map ((!) rs) cs) (s0, j0) =
        (map (\<lambda>i. answer (fst (rs ! i)) (os_pcs s ! i)) cs, os_pay s, j0)"

lemma inv_watch [simp]:
  "handed_inv subj rs j0 (s\<lparr>os_watch := w\<rparr>) \<longleftrightarrow> handed_inv subj rs j0 s"
  "serial_inv subj rs s0 j0 cs (s\<lparr>os_watch := w\<rparr>) \<longleftrightarrow> serial_inv subj rs s0 j0 cs s"
  by (simp_all add: handed_inv_def serial_inv_def)

lemma inv_init:
  "handed_inv subj rs j0 (orders_init rs s0 j0 w)" "serial_inv subj rs s0 j0 [] (orders_init rs s0 j0 w)"
  by (auto simp: handed_inv_def serial_inv_def orders_init_def)

lemma replying_settled: "replying pc \<Longrightarrow> settled pc" "past_check pc \<Longrightarrow> settled pc" "past_check pc \<Longrightarrow> \<not> replying pc"
  by (cases pc; simp add: replying_def past_check_def)+

text \<open>What a move changes, in terms of the step of its request.\<close>

lemma request_move_next:
  assumes "handed_inv subj rs j0 s" "i < length rs"
  obtains pc' s' j' where
    "order_next (fst (rs ! i)) \<lparr>subject = subj, publishingPaused = paused (os_watch s)\<rparr> (snd (rs ! i)) (os_pcs s ! i)
       (os_pay s, os_stream s) = (pc', s', j')"
    "os_pay (request_move subj rs i s) = s'" "os_stream (request_move subj rs i s) = j'"
    "\<And>k. os_pcs (request_move subj rs i s) ! k = (if k = i then pc' else os_pcs s ! k)"
    "length (os_pcs (request_move subj rs i s)) = length rs"
    "handed (request_move subj rs i s) = handed s @ (if past_check (os_pcs s ! i) then [i] else [])"
    "os_watch (request_move subj rs i s) = os_watch s"
proof -
  obtain pc' s' j' where "order_next (fst (rs ! i)) \<lparr>subject = subj, publishingPaused = paused (os_watch s)\<rparr> (snd (rs ! i))
      (os_pcs s ! i) (os_pay s, os_stream s) = (pc', s', j')" by (metis surj_pair)
  with that [of pc' s' j'] assms show thesis by (simp add: request_move_def handed_inv_def)
qed

lemma request_move_handed:
  assumes inv: "handed_inv subj rs j0 s" and i: "i < length rs" "\<not> is_done (os_pcs s ! i)"
  shows "handed_inv subj rs j0 (request_move subj rs i s)"
proof -
  let ?t = "request_move subj rs i s" and ?pc = "os_pcs s ! i"
  obtain pc' s' j' where nx: "order_next (fst (rs ! i)) \<lparr>subject = subj, publishingPaused = paused (os_watch s)\<rparr> (snd (rs ! i)) ?pc
      (os_pay s, os_stream s) = (pc', s', j')"
    and t: "os_stream ?t = j'" "\<And>k. os_pcs ?t ! k = (if k = i then pc' else os_pcs s ! k)" "length (os_pcs ?t) = length rs"
      "handed ?t = handed s @ (if past_check ?pc then [i] else [])"
    using request_move_next [OF inv i(1), of thesis] by blast
  have car: "carries (snd (rs ! k)) (os_pcs s ! k)" if "k < length rs" for k using inv that by (simp add: handed_inv_def)
  have hd: "distinct (handed s)" "\<forall>k \<in> set (handed s). k < length rs \<and> replying (os_pcs s ! k)"
    and str: "os_stream s = fold (hand_over subj rs) (handed s) j0" using inv by (simp_all add: handed_inv_def)
  have "replying (os_pcs ?t ! k)" if "k \<in> set (handed ?t)" for k
    using that hd(2) next_replying(1) [OF nx i(2)] unfolding t(2,4) by (cases "k = i") (auto split: if_splits)
  moreover have "distinct (handed ?t)" using hd replying_settled(3) by (fastforce simp: t(4) split: if_splits)
  moreover have "os_stream ?t = fold (hand_over subj rs) (handed ?t) j0"
  proof (cases "past_check ?pc")
    case True
    with next_hands_over [OF nx True car [OF i(1)]] show ?thesis by (simp add: t str)
  next
    case False
    then have "j' = os_stream s"
      using next_settled [OF nx _ i(2)] next_settles [OF nx car [OF i(1)], of subj j0] by (metis (full_types))
    with False show ?thesis by (simp add: t str)
  qed
  moreover have "carries (snd (rs ! k)) (os_pcs ?t ! k)" if "k < length rs" for k
    using next_carries [OF nx car [OF i(1)]] car [OF that] by (simp add: t(2))
  ultimately show ?thesis using hd(2) i(1) by (auto simp: handed_inv_def t(3,4) split: if_splits)
qed

lemma request_move_serial:
  assumes inv: "handed_inv subj rs j0 s" "serial_inv subj rs s0 j0 cs s" and i: "i < length rs" "\<not> is_done (os_pcs s ! i)"
  shows "\<exists>cs'. serial_inv subj rs s0 j0 cs' (request_move subj rs i s)"
proof -
  let ?env = "fst (rs ! i)" and ?body = "snd (rs ! i)" and ?t = "request_move subj rs i s" and ?pc = "os_pcs s ! i"
  let ?answers = "\<lambda>s. map (\<lambda>k. answer (fst (rs ! k)) (os_pcs s ! k))"
  obtain pc' s' j' where nx: "order_next ?env \<lparr>subject = subj, publishingPaused = paused (os_watch s)\<rparr> ?body ?pc
      (os_pay s, os_stream s) = (pc', s', j')"
    and t: "os_pay ?t = s'" "\<And>k. os_pcs ?t ! k = (if k = i then pc' else os_pcs s ! k)"
    using request_move_next [OF inv(1) i(1), of thesis] by blast
  have car: "carries ?body ?pc" using inv(1) i(1) by (simp add: handed_inv_def)
  have cs: "distinct cs" "set cs = {i. i < length rs \<and> settled (os_pcs s ! i)}"
    and ser: "serve_serially \<lparr>subject = subj, publishingPaused = True\<rparr> (map ((!) rs) cs) (s0, j0) = (?answers s cs, os_pay s, j0)"
    using inv(2) by (simp_all add: serial_inv_def)
  show ?thesis
  proof (cases "settled ?pc")
    case True
    note ns = next_settled [OF nx True i(2)]
    have "set cs = {k. k < length rs \<and> settled (os_pcs ?t ! k)}" using cs(2) ns True by (auto simp: t(2))
    moreover have "?answers ?t cs = ?answers s cs" using ns by (simp add: t(2))
    ultimately have "serial_inv subj rs s0 j0 cs ?t" unfolding serial_inv_def using cs(1) ns ser by (simp add: t(1))
    then show ?thesis by blast
  next
    case False
    then have ni: "i \<notin> set cs" using cs(2) by simp
    then have ans: "?answers ?t cs = ?answers s cs" by (auto simp: t(2))
    note nx' = next_settles [OF nx car False, of subj j0]
    show ?thesis
    proof (cases "settled pc'")
      case True
      have "set (cs @ [i]) = {k. k < length rs \<and> settled (os_pcs ?t ! k)}" using cs(2) True i(1) by (auto simp: t(2))
      moreover have "serve_serially \<lparr>subject = subj, publishingPaused = True\<rparr> (map ((!) rs) (cs @ [i])) (s0, j0) =
          (?answers ?t (cs @ [i]), s', j0)"
        using serve_serially_snoc [OF ser, of ?env ?body] nx' True ans by (simp add: t(2))
      ultimately have "serial_inv subj rs s0 j0 (cs @ [i]) ?t" unfolding serial_inv_def using cs(1) ni by (simp add: t(1))
      then show ?thesis by blast
    next
      case unsettled: False
      have "set cs = {k. k < length rs \<and> settled (os_pcs ?t ! k)}" using cs(2) unsettled False by (auto simp: t(2))
      then have "serial_inv subj rs s0 j0 cs ?t" unfolding serial_inv_def using cs(1) nx' unsettled ser ans by (simp add: t(1))
      then show ?thesis by blast
    qed
  qed
qed

lemma orders_run_inv:
  assumes "orders.run subj rs (orders_init rs s0 j0 w) es t"
  shows "handed_inv subj rs j0 t \<and> (\<exists>cs. serial_inv subj rs s0 j0 cs t)"
  using assms
proof (rule orders.run_invariant)
  show "handed_inv subj rs j0 (orders_init rs s0 j0 w) \<and> (\<exists>cs. serial_inv subj rs s0 j0 cs (orders_init rs s0 j0 w))"
    by (intro conjI exI) (rule inv_init)+
next
  fix s e t
  assume st: "orders_step subj rs s e t" and IH: "handed_inv subj rs j0 s \<and> (\<exists>cs. serial_inv subj rs s0 j0 cs s)"
  then obtain cs where inv: "handed_inv subj rs j0 s" "serial_inv subj rs s0 j0 cs s" by blast
  from st show "handed_inv subj rs j0 t \<and> (\<exists>cs. serial_inv subj rs s0 j0 cs t)"
  proof (cases rule: orders_step.cases)
    case (request i)
    show ?thesis
      unfolding request(2) by (intro conjI request_move_handed [OF inv(1)] request_move_serial [OF inv]) (use request in simp_all)
  next
    case (watcher e' w)
    show ?thesis unfolding watcher(2) inv_watch by (rule IH)
  qed
qed

section \<open>The flag during a run\<close>

fun watch_events :: "orders_event list \<Rightarrow> watch_event list" where
  "watch_events [] = []"
| "watch_events (Request i # es) = watch_events es"
| "watch_events (Watcher e # es) = e # watch_events es"

lemma watch_events_append [simp]: "watch_events (es @ es') = watch_events es @ watch_events es'"
  by (induction es rule: watch_events.induct) simp_all

lemma request_move_watch [simp]: "os_watch (request_move subj rs i s) = os_watch s"
  by (simp add: request_move_def split: prod.splits)

lemma orders_run_watch: "orders.run subj rs s es t \<Longrightarrow> watch.run (os_watch s) (watch_events es) (os_watch t)"
proof (induction rule: orders.run.induct)
  case (run_snoc s es t e u)
  from run_snoc(2) show ?case
    by (cases rule: orders_step.cases) (use run_snoc.IH in auto)
qed simp

text \<open>A file that does not change, and a flag that agrees with it.\<close>

definition steady :: "watch \<Rightarrow> orders_event list \<Rightarrow> bool" where
  "steady w es \<longleftrightarrow> no_change (watch_events es) \<and> paused w = paused_of (flag_file w)"

lemma steady_snoc: "steady w (es @ [e]) \<Longrightarrow> steady w es"
  by (simp add: steady_def no_change_def)

lemma steady_flag: "orders.run subj rs s es t \<Longrightarrow> steady (os_watch s) es \<Longrightarrow> paused (os_watch t) = paused (os_watch s)"
  using agreement_kept [OF orders_run_watch] by (fastforce simp: steady_def)

lemma handed_inv_run: "orders.run subj rs s es t \<Longrightarrow> handed_inv subj rs j0 s \<Longrightarrow> handed_inv subj rs j0 t"
  by (erule orders.run_invariant) (auto elim!: orders_stepE intro: request_move_handed)

text \<open>While the brake is on only requests that are past the check hand their event over.\<close>

lemma braked_run:
  assumes "orders.run subj rs s es t" "handed_inv subj rs j0 s" "steady (os_watch s) es" "paused (os_watch s)"
  shows "\<exists>ms. handed t = handed s @ ms \<and> (\<forall>i \<in> set ms. past_check (os_pcs s ! i))
    \<and> (\<forall>i < length rs. past_check (os_pcs t ! i) \<longrightarrow> past_check (os_pcs s ! i))"
  using assms
proof (induction rule: orders.run.induct)
  case (run_snoc s es u e t)
  note st = steady_snoc [OF run_snoc.prems(2)]
  obtain ms where ms: "handed u = handed s @ ms" "\<forall>i \<in> set ms. past_check (os_pcs s ! i)"
    "\<forall>i < length rs. past_check (os_pcs u ! i) \<longrightarrow> past_check (os_pcs s ! i)"
    using run_snoc.IH [OF run_snoc.prems(1) st run_snoc.prems(3)] by blast
  from run_snoc(2) show ?case
  proof (cases rule: orders_step.cases)
    case (request i)
    have inv: "handed_inv subj rs j0 u" using handed_inv_run [OF run_snoc(1,4)] .
    have p: "paused (os_watch u)" using steady_flag [OF run_snoc(1) st] run_snoc.prems(3) by simp
    obtain pc' s' j' where nx: "order_next (fst (rs ! i)) \<lparr>subject = subj, publishingPaused = paused (os_watch u)\<rparr> (snd (rs ! i))
        (os_pcs u ! i) (os_pay u, os_stream u) = (pc', s', j')"
      and t: "\<And>k. os_pcs t ! k = (if k = i then pc' else os_pcs u ! k)"
        "handed t = handed u @ (if past_check (os_pcs u ! i) then [i] else [])"
      using request_move_next [OF inv request(3), of thesis] request(2) by blast
    have "\<not> past_check pc'" using next_replying(2) [OF nx request(4)] p by simp
    with ms request(3) show ?thesis by (auto simp: t)
  next
    case (watcher e' w)
    with ms show ?thesis by simp
  qed
qed simp

text \<open>While it is off no authorized request is answered without its event.\<close>

lemma open_run:
  assumes "orders.run subj rs s es t" "handed_inv subj rs j0 s" "steady (os_watch s) es" "\<not> paused (os_watch s)"
  shows "\<forall>i < length rs. replying (os_pcs t ! i) \<longrightarrow> replying (os_pcs s ! i) \<or> i \<in> set (handed t)"
  using assms
proof (induction rule: orders.run.induct)
  case (run_snoc s es u e t)
  note st = steady_snoc [OF run_snoc.prems(2)]
  note IH = run_snoc.IH [OF run_snoc.prems(1) st run_snoc.prems(3)]
  from run_snoc(2) show ?case
  proof (cases rule: orders_step.cases)
    case (request i)
    have inv: "handed_inv subj rs j0 u" using handed_inv_run [OF run_snoc(1,4)] .
    have p: "\<not> paused (os_watch u)" using steady_flag [OF run_snoc(1) st] run_snoc.prems(3) by simp
    obtain pc' s' j' where nx: "order_next (fst (rs ! i)) \<lparr>subject = subj, publishingPaused = paused (os_watch u)\<rparr> (snd (rs ! i))
        (os_pcs u ! i) (os_pay u, os_stream u) = (pc', s', j')"
      and t: "\<And>k. os_pcs t ! k = (if k = i then pc' else os_pcs u ! k)"
        "handed t = handed u @ (if past_check (os_pcs u ! i) then [i] else [])"
      using request_move_next [OF inv request(3), of thesis] request(2) by blast
    have "replying pc' \<longrightarrow> replying (os_pcs u ! i) \<or> past_check (os_pcs u ! i)"
      using next_replying(1) [OF nx request(4)] p by simp
    with IH request(3) show ?thesis by (auto simp: t)
  next
    case (watcher e' w)
    with IH show ?thesis by simp
  qed
qed simp

text \<open>The steps a request still has to take; no other goroutine can keep it from taking them.\<close>

fun steps_left :: "order_pc \<Rightarrow> nat" where
  "steps_left ODecode = 5"
| "steps_left (OCharge req) = 4"
| "steps_left (OCheck req resp) = 3"
| "steps_left (OPublish req resp) = 2"
| "steps_left (OReply resp) = 1"
| "steps_left (ODone ops) = 0"

lemma next_rank:
  "order_next env a req_body pc st = (pc', st') \<Longrightarrow> \<not> is_done pc \<Longrightarrow> steps_left pc' < steps_left pc"
  by (cases "(env, a, req_body, pc, st)" rule: order_next.cases)
    (auto simp: is_done_def split: option.splits if_splits prod.splits)

lemma is_done_rank: "is_done pc \<longleftrightarrow> steps_left pc = 0"
  by (cases pc) (simp_all add: is_done_def)

lemma request_finishes:
  assumes "handed_inv subj rs j0 s" "i < length rs"
  shows "\<exists>n \<le> steps_left (os_pcs s ! i). \<exists>t. orders.run subj rs s (replicate n (Request i)) t \<and> is_done (os_pcs t ! i)"
  using assms
proof (induction "steps_left (os_pcs s ! i)" arbitrary: s rule: less_induct)
  case less
  show ?case
  proof (cases "is_done (os_pcs s ! i)")
    case False
    let ?u = "request_move subj rs i s"
    obtain pc' s' j' where "order_next (fst (rs ! i)) \<lparr>subject = subj, publishingPaused = paused (os_watch s)\<rparr> (snd (rs ! i))
        (os_pcs s ! i) (os_pay s, os_stream s) = (pc', s', j')" "os_pcs ?u ! i = pc'"
      using request_move_next [OF less.prems, of thesis] by metis
    then have lt: "steps_left (os_pcs ?u ! i) < steps_left (os_pcs s ! i)" using next_rank False by metis
    obtain n t where n: "n \<le> steps_left (os_pcs ?u ! i)" "orders.run subj rs ?u (replicate n (Request i)) t" "is_done (os_pcs t ! i)"
      using less.hyps [OF lt request_move_handed [OF less.prems(1,2) False] less.prems(2)] by blast
    have "orders.run subj rs s (replicate (Suc n) (Request i)) t"
      using n(2) less.prems(2) False by (auto simp: orders.run_Cons_iff orders_step_request)
    with lt n show ?thesis by (meson Suc_leI le_less_trans)
  qed (intro exI [of _ 0] conjI exI [of _ s]; simp)
qed


section \<open>Properties\<close>

text \<open>
  C16: concurrent orders. In every interleaving of any number of requests with each other and with the
  circuit-break watcher, the requests that were charged or refused, taken in the order in which that
  happened, are given exactly the answers of serving them one after the other with \<open>handleCreate\<close>, and leave
  the payments side as that does; the flag, whatever it did, changes none of these. The stream has been
  handed the events of authorized orders only, each at most once, in the order of their publishing.
\<close>

theorem concurrent_orders_serial:
  assumes "orders.run subj rs (orders_init rs s0 j0 w) es t"
  shows "\<exists>cs. distinct cs \<and> set cs = {i. i < length rs \<and> settled (os_pcs t ! i)}
    \<and> serve_serially \<lparr>subject = subj, publishingPaused = True\<rparr> (map ((!) rs) cs) (s0, j0) =
        (map (\<lambda>i. answer (fst (rs ! i)) (os_pcs t ! i)) cs, os_pay t, j0)
    \<and> distinct (handed t) \<and> (\<forall>i \<in> set (handed t). i \<in> set cs \<and> code (answer (fst (rs ! i)) (os_pcs t ! i)) = StatusOK)
    \<and> os_stream t = fold (hand_over subj rs) (handed t) j0"
proof -
  obtain cs where "handed_inv subj rs j0 t" "serial_inv subj rs s0 j0 cs t" using orders_run_inv [OF assms] by blast
  then show ?thesis
    by (intro exI [of _ cs]) (auto simp: handed_inv_def serial_inv_def replying_settled(1) code_replying)
qed

text \<open>
  C12: the brake and the orders in flight. In every run that goes on from any moment while the flag file does not
  change and the flag is what the file asks for: if the brake is on, the only
  events that still reach the stream are those of requests that had loaded the flag
  before and were about to publish, one event each; if it is off, every order that comes to be answered 200 has
  handed its event over. Whatever the other requests and the watcher do, each request
  can finish with at most five steps of its own.
\<close>

theorem brake_in_flight:
  assumes "orders.run subj rs (orders_init rs s0 j0 w) es s" "orders.run subj rs s es' t" "steady (os_watch s) es'"
  shows "(paused (os_watch s) \<longrightarrow> (\<exists>ms. handed t = handed s @ ms \<and> distinct ms
        \<and> set ms \<subseteq> {i. i < length rs \<and> past_check (os_pcs s ! i)} \<and> os_stream t = fold (hand_over subj rs) ms (os_stream s)))
    \<and> (\<not> paused (os_watch s) \<longrightarrow> (\<forall>i < length rs. replying (os_pcs t ! i) \<longrightarrow> replying (os_pcs s ! i) \<or> i \<in> set (handed t)))
    \<and> (\<forall>i < length rs. \<exists>n \<le> 5. \<exists>u. orders.run subj rs t (replicate n (Request i)) u \<and> is_done (os_pcs u ! i))"
proof (intro conjI impI allI)
  have inv: "handed_inv subj rs j0 s" using orders_run_inv [OF assms(1)] by blast
  have inv': "handed_inv subj rs j0 t" using handed_inv_run [OF assms(2) inv] .
  show "\<exists>ms. handed t = handed s @ ms \<and> distinct ms \<and> set ms \<subseteq> {i. i < length rs \<and> past_check (os_pcs s ! i)}
      \<and> os_stream t = fold (hand_over subj rs) ms (os_stream s)" if "paused (os_watch s)"
    using braked_run [OF assms(2) inv assms(3) that] inv inv' by (fastforce simp: handed_inv_def)
  show "replying (os_pcs s ! i) \<or> i \<in> set (handed t)"
    if "\<not> paused (os_watch s)" "i < length rs" "replying (os_pcs t ! i)" for i
    using open_run [OF assms(2) inv assms(3) that(1)] that(2,3) by blast
  show "\<exists>n \<le> 5. \<exists>u. orders.run subj rs t (replicate n (Request i)) u \<and> is_done (os_pcs u ! i)" if "i < length rs" for i
  proof -
    have "steps_left (os_pcs t ! i) \<le> 5" by (cases "os_pcs t ! i") simp_all
    then show ?thesis using request_finishes [OF inv' that] by (meson le_trans)
  qed
qed

text \<open>Two orders, the first of which has loaded the flag when the brake comes on.\<close>

definition sample_call_env :: "(inventory_server \<times> duration, string list) order_env" where
  "sample_call_env = \<lparr>pay = (\<lambda>_. local_transport (Charge (local_transport (Reserve ''r1'')) 3 ''p1'')),
     PublishMsg = (\<lambda>m ms. (None, ms @ [msg_Data m])), trace_headers = [], new_uuid = ''o1'', now_utc = sample_time\<rparr>"

definition sample_calls :: "(inventory_server \<times> duration, string list) order_calls" where
  "sample_calls = replicate 2 (sample_call_env, [CHR 0x7B, CHR 0x7D])"

definition sample_events :: "orders_event list" where
  "sample_events = [Request 0, Request 0, Request 0, Request 1, Request 1, Watcher (FileChange (Some ''false'')), Watcher TickEv]"

lemma sample_charge:
  "paymentsServiceClient_Charge (pay sample_call_env call_timeout) m st =
    ((Some (authorized_reply ''p1''), None), (fst st)\<lparr>store := (store (fst st))(''r1'' \<mapsto> [Some default_item])\<rparr>, snd st + bank_delay 3)"
  by (cases st) (simp add: paymentsServiceClient_Charge_def unary_call_def local_transport_def Charge_def
      inventoryServiceClient_Reserve_def Reserve_def authorized_reply_def getter_defs sample_call_env_def)

lemma sample_calls_nth: "i < 2 \<Longrightarrow> sample_calls ! i = (sample_call_env, [CHR 0x7B, CHR 0x7D])" "length sample_calls = 2"
  by (simp_all add: sample_calls_def)

lemma sample_moves:
  assumes "i < 2"
  shows "os_pcs s ! i = ODecode \<Longrightarrow> request_move subj sample_calls i s = s\<lparr>os_pcs := (os_pcs s)[i := OCharge zero_order]\<rparr>"
    and "os_pcs s ! i = OCharge req \<Longrightarrow> request_move subj sample_calls i s = s\<lparr>os_pcs := (os_pcs s)[i := OCheck req (Some (authorized_reply ''p1''))],
      os_pay := ((fst (os_pay s))\<lparr>store := (store (fst (os_pay s)))(''r1'' \<mapsto> [Some default_item])\<rparr>, snd (os_pay s) + bank_delay 3)\<rparr>"
    and "os_pcs s ! i = OCheck req resp \<Longrightarrow> request_move subj sample_calls i s =
      s\<lparr>os_pcs := (os_pcs s)[i := if paused (os_watch s) then OReply resp else OPublish req resp]\<rparr>"
  using assms
  by (simp_all add: request_move_def sample_calls_nth empty_object_decodes sample_charge past_check_def authorized_reply_def getter_defs)

lemma sample_run:
  "\<exists>s. orders.run ''orders'' sample_calls (orders_init sample_calls (new_inventory, 0) [] (watch_start None None None False)) sample_events s
    \<and> os_pcs s = [OPublish zero_order (Some (authorized_reply ''p1'')), OCheck zero_order (Some (authorized_reply ''p1''))]
    \<and> paused (os_watch s) \<and> flag_file (os_watch s) = Some ''false'' \<and> handed s = []"
proof -
  have w: "wstate (watch_start None None None False) = Watching" "\<not> paused (watch_start None None None False)"
    using TrimSpace_flag_values(3) by (simp_all add: watch_start_def Let_def)
  have init: "os_pcs (orders_init sample_calls (new_inventory, 0) [] w0) = [ODecode, ODecode]"
    "os_watch (orders_init sample_calls (new_inventory, 0) [] w0) = w0" "handed (orders_init sample_calls (new_inventory, 0) [] w0) = []" for w0
    by (simp_all add: orders_init_def sample_calls_def numeral_2_eq_2)
  show ?thesis
    unfolding sample_events_def
    by (simp add: orders.run_Cons_iff orders_step_request orders_step_watcher watch_step_tick watch_step_change
        sample_calls_nth sample_moves is_done_def w init TrimSpace_flag_values)
qed


lemma sample_publish:
  assumes "i < 2" "os_pcs s ! i = OPublish req resp"
  shows "os_pcs (request_move subj sample_calls i s) = (os_pcs s)[i := OReply resp]"
    "handed (request_move subj sample_calls i s) = handed s @ [i]"
  using assms by (simp_all add: request_move_def sample_calls_nth past_check_def)

theorem concurrent_orders_serial_witness:
  "\<exists>s cs. orders.run ''orders'' sample_calls (orders_init sample_calls (new_inventory, 0) [] (watch_start None None None False)) sample_events s
    \<and> set cs = {0, 1} \<and> fst (snd (serve_serially \<lparr>subject = ''orders'', publishingPaused = True\<rparr> (map ((!) sample_calls) cs)
      ((new_inventory, 0), []))) = os_pay s"
proof -
  obtain s where s: "orders.run ''orders'' sample_calls (orders_init sample_calls (new_inventory, 0) [] (watch_start None None None False)) sample_events s"
    "os_pcs s = [OPublish zero_order (Some (authorized_reply ''p1'')), OCheck zero_order (Some (authorized_reply ''p1''))]"
    using sample_run by blast
  obtain cs where cs: "set cs = {i. i < length sample_calls \<and> settled (os_pcs s ! i)}"
    "serve_serially \<lparr>subject = ''orders'', publishingPaused = True\<rparr> (map ((!) sample_calls) cs) ((new_inventory, 0), []) =
      (map (\<lambda>i. answer (fst (sample_calls ! i)) (os_pcs s ! i)) cs, os_pay s, [])"
    using concurrent_orders_serial [OF s(1)] by (elim exE conjE) (rule that)
  have "set cs = {0, 1}"
    unfolding cs(1) by (auto simp: s(2) sample_calls_nth less_2_cases_iff)
  then show ?thesis using s(1) cs(2) by (intro exI [of _ s] exI [of _ cs]) simp
qed

theorem brake_in_flight_witness:
  "\<exists>s t. orders.run ''orders'' sample_calls (orders_init sample_calls (new_inventory, 0) [] (watch_start None None None False)) sample_events s
    \<and> paused (os_watch s) \<and> orders.run ''orders'' sample_calls s [Request 0, Request 1] t
    \<and> replying (os_pcs t ! 0) \<and> replying (os_pcs t ! 1) \<and> handed t = [0]"
proof -
  obtain s where s: "orders.run ''orders'' sample_calls (orders_init sample_calls (new_inventory, 0) [] (watch_start None None None False)) sample_events s"
    "os_pcs s = [OPublish zero_order (Some (authorized_reply ''p1'')), OCheck zero_order (Some (authorized_reply ''p1''))]"
    "paused (os_watch s)" "flag_file (os_watch s) = Some ''false''" "handed s = []"
    using sample_run by blast
  let ?u = "request_move ''orders'' sample_calls 0 s"
  let ?t = "request_move ''orders'' sample_calls 1 ?u"
  have u: "os_pcs ?u = [OReply (Some (authorized_reply ''p1'')), OCheck zero_order (Some (authorized_reply ''p1''))]" "handed ?u = [0]"
    using sample_publish [of 0 s] s(2,5) by simp_all
  have t: "os_pcs ?t = [OReply (Some (authorized_reply ''p1'')), OReply (Some (authorized_reply ''p1''))]" "handed ?t = [0]"
    using sample_moves(3) [of 1 ?u] u s(3) by simp_all
  have run: "orders.run ''orders'' sample_calls s [Request 0, Request 1] ?t"
    by (simp add: orders.run_Cons_iff orders_step_request sample_calls_nth s(2) u(1) is_done_def)
  have "steady (os_watch s) [Request 0, Request 1]"
    using s(3,4) TrimSpace_flag_values(1) by (simp add: steady_def no_change_def)
  from brake_in_flight [OF s(1) run this] s(3,5) have "set (handed ?t) \<subseteq> {i. i < 2 \<and> past_check (os_pcs s ! i)}"
    by (auto simp: sample_calls_nth)
  moreover have "replying (os_pcs ?t ! 0)" "replying (os_pcs ?t ! 1)" unfolding t(1) by (simp_all add: replying_def)
  ultimately show ?thesis using s(1,3) run t(2) by blast
qed

end
