(* ===== verification/Spec2Isabelle.thy ===== *)
theory Spec2Isabelle
  imports Dedupe_Reference Alert_Wire Operator_Interleaving Dedupe_Locking Inventory_Locking Deployment Orders_SLO
    Email_Retention Order_Wire Orders_Interleaving
begin

text \<open>
  \<^bold>\<open>Verification of reliability-lab.\<close>

  \<^bold>\<open>The program.\<close> An order path of three Go services (\<open>services/orders-svc\<close>, HTTP, calls
  \<open>services/payments-svc\<close> over gRPC, which calls \<open>services/inventory-svc\<close> over gRPC), an
  \<open>services/email-worker\<close> that consumes the events the orders service publishes to NATS, and a
  remediation operator (\<open>operator\<close>) to which AlertManager posts alerts: it deduplicates them by
  fingerprint, classifies them by label and applies one of three remedies to the cluster
  (abort a rollout, raise an autoscaler's minimum, write the circuit-break flag into a
  ConfigMap). The orders service watches the projected flag file and stops publishing while
  the brake is on, which closes the loop. \<open>pkg/obs\<close> is shared by the services and \<open>gen/go\<close> is
  generated from the \<open>.proto\<close> files.

  \<^bold>\<open>The theories.\<close>
  \<^item> \<open>Lab_Prelude\<close>: machine integers with wrap-around, instants and saturating durations, Go map
    reads, log levels, and the locales \<open>machine\<close> (transition systems with runs, reachability and
    invariants) and \<open>bounded_machine\<close> (a rank that every step decreases), interpreted by the
    state machines below. \<open>Mutex\<close>: threads that run critical sections in small steps under one
    \<open>sync.Mutex\<close>, and the locale \<open>guarded\<close>, in which the calls that returned are proved to be a sequence of
    whole calls.
  \<^item> The Go standard library as far as it is used: \<open>Go_Strings\<close> (UTF-8, quoting, trimming, case
    folding, decimal numbers), \<open>Go_JSON\<close> (byte scanner, decoding, string encoding) and
    \<open>Go_JSON_Text\<close> (objects and arrays, the round trip of encoded text), \<open>Go_Time\<close> (RFC 3339
    timestamps, parsed and formatted), \<open>Go_UTF8\<close> (valid UTF-8; what the JSON decoder leaves in a string is valid), \<open>Go_Flag\<close> (command lines), \<open>Go_HTTP\<close> (response writers),
    \<open>Go_Mux\<close> (patterns, conflicts, routing; the comparison of patterns is proved to be the
    comparison of the sets of requests they match), \<open>Serve_Machine\<close> (a server with its goroutine,
    its channel and the select that waits for it, as both \<open>obs.Serve\<close> and \<open>Server.Start\<close> have it).
  \<^item> The operator: \<open>Classifier\<close> (\<open>classifier.go\<close>), \<open>Kube_Client\<close> (the API client as a record of
    functions, with the documented behaviour of the manager's cached client as the predicate
    \<open>kube_cache\<close>, and \<open>kube_api\<close> where its cache has caught up),
    \<open>Remedy\<close> (\<open>remedy.go\<close>, with the remedy contract as the locales \<open>remedy_effect\<close> and
    \<open>idempotent_remedy\<close>), \<open>Remedy_CircuitBreak\<close>, \<open>Remedy_Rollback\<close>, \<open>Remedy_Scale\<close> (the three
    remedies, each interpreting the locale its behaviour allows), \<open>Dedupe\<close> (\<open>dedupe.go\<close>, with
    the locale \<open>alert_gate\<close> that the server relies on), \<open>Dedupe_Reference\<close> (a gate that never
    forgets, and when the two agree), \<open>Dedupe_Locking\<close> (the gate's map operations under its mutex),
    \<open>Operator_Server\<close> (\<open>server.go\<close>, \<open>payload.go\<close>), \<open>Alert_Wire\<close>
    (the payload as its sender encodes it), \<open>Operator_Interleaving\<close> (any number of concurrent
    requests as a state machine), \<open>Operator_Manager\<close> (\<open>cmd/manager/main.go\<close>), \<open>Operator_Spec\<close> (what
    the operator promises as a function on the stored objects, and that the webhook refines it),
    \<open>Operator_Access\<close> (the Role of \<open>k8s/operator/rbac.yaml\<close>, the requests behind the remedies' calls, the
    list and watch of the manager's cache among them, and an API server that enforces the Role),
    \<open>Deployment\<close> (the objects of \<open>k8s/base\<close> that the remedies write, AlertManager's repeated
    notifications, and the other controllers of these objects: Argo CD and the kubelet).
  \<^item> The services: \<open>Obs\<close> (\<open>pkg/obs\<close>), \<open>Proto\<close> (\<open>gen/go\<close>), \<open>Proto_Wire\<close> (its messages in the proto3 encoding, with the
    contract of a message type as the locale \<open>wire_message\<close>, interpreted for all seven), \<open>Service_Lifecycle\<close> (the goroutines of
    the gRPC services' \<open>main\<close> as a state machine), \<open>Inventory_Svc\<close> (with the locale
    \<open>reservation_store\<close>), \<open>Inventory_Locking\<close> (its calls under its mutex), \<open>Payments_Svc\<close>, \<open>Orders_Watch\<close> (\<open>cbwatch.go\<close> as a state machine),
    \<open>Email_Worker\<close>, \<open>Email_Delivery\<close> (the worker behind its JetStream consumer, with deliveries,
    redeliveries and the passing of time, as a state machine), \<open>Email_Retention\<close> (the same behind a stream
    that discards old messages), \<open>Orders_Svc\<close>, \<open>Orders_Interleaving\<close> (concurrent requests of the orders service and the
    watcher as a state machine), \<open>Order_Wire\<close> (an order from its HTTP body to the inventory, with the bytes on
    both connections), \<open>Orders_SLO\<close> (the availability expressions of
    \<open>k8s/prometheus/rules/orders-slo.yaml\<close> over the counters of the middleware).
  \<^item> This theory: the properties that span the operator, the watcher and the services.

  \<^bold>\<open>How code is rendered.\<close> Structs are records with the source's field names (prefixed where
  two structs share a name), enums are datatypes or 32-bit words where they are open, maps
  are partial functions, a nil map or pointer is \<open>None\<close>, integers are words of their width.
  An operation is a function that returns its result and the changed state; errors are values
  of sum and option types, one constructor per error the code makes. A handler's effect on its
  \<open>ResponseWriter\<close> is the list of its calls, from which \<open>respond\<close> computes what the client gets.
  Identifiers of uuids, the clock, random numbers, environment variables and the results of
  calls into other systems are arguments. Log records keep their level and message; their
  key-value pairs are not read back by anything and are left out.

  \<^bold>\<open>Parameters for code outside the repository.\<close> The Kubernetes client (\<open>kube_cache\<close> states
  that reads show what the informer cache holds, which may lag behind the API server, and what
  creation, merge patches and status patches do, where a write that returns an error may have been
  applied; \<open>kube_api\<close> adds that the cache has caught up, \<open>serving_api\<close> that no call fails without a
  reason, \<open>rbac_enforced\<close> that calls the Role does not allow are refused; \<open>mem_client\<close> and \<open>rbac_client\<close>
  are instances), the gRPC transport (\<open>at_most_once\<close>, and \<open>call_takes\<close> for a call that takes a given time
  under the deadline it is given; \<open>local_transport\<close>, \<open>down_transport\<close> and \<open>timed_conn\<close> are instances), the kubelet's projection
  of a ConfigMap (\<open>projects_flag\<close>; \<open>kubelet_project\<close> is an instance), a connection with its message
  codec (\<open>delivers\<close>; \<open>wire_transport\<close>, and \<open>proto_conn\<close> with the documented proto3 encoding, are instances), Argo CD's synchronisation (\<open>heals\<close>; \<open>argo_sync\<close> is
  an instance), the headers that the OpenTelemetry propagator injects into a message, JetStream's publish
  call and its stream and consumer (the steps of \<open>flow_step\<close> and \<open>keep_step\<close>), the gRPC server (\<open>Serve\<close> and
  \<open>GracefulStop\<close> may return at any time in \<open>life_step\<close>), the
  API server's discovery (\<open>plural\<close>), the flags zap adds, the controller-runtime manager,
  \<open>fmt.Sscanf\<close> on floats, which code points are printable (\<open>wide\<close>).

  \<^bold>\<open>What is shown.\<close> For the operator: the decision table and the classification of every
  installed alert rule; what each remedy does to the cluster, on success and on failure, with fresh and with
  stale reads, which API calls it makes, that the first two are idempotent and the third is not but converges
  within its bounds under 32-bit arithmetic; that grants of a fingerprint stay a cooldown
  apart, sequentially and under any interleaving of requests, that they are given again after
  it, and that the map of stamps stays small; that a webhook dispatches exactly the accepted
  firing alerts, answers 202 or 400 by whether the payload parses, and touches the cluster only
  for page-severity alerts; that it refines an abstract run over the accepted alerts however the
  API fails, each remedy being applied as a whole or not at all, implements it when the API serves, and keeps the stored objects well formed; that the
  gate is equivalent to one that never forgets as long as clock readings do not go back, and an
  alert sent again within the cooldown is quiet; that an encoded payload is decoded to itself; that
  the command line is obeyed; that the gate's calls are linearizable under its mutex; that every write
  it issues is allowed by its Role and no read is, so that as deployed no scale-up and no circuit break
  ever takes effect, and that they would be with a cache restricted to the namespace. For the services: the answers of the order path on every branch,
  that published events are accepted by the worker for every content of their strings, that
  the paused flag follows the flag file, that reservations are conserved in every interleaving of
  concurrent calls, that every email is sent once and in order below a handling time, and exactly
  from which time on it may be sent twice, that the stream's maximal age loses none up to a backlog of 288000,
  that a charge through the generated code is a charge by direct
  calls, that every message survives its encoding or is refused, that concurrent orders are answered
  as if served one after the other, which orders in flight still publish when the brake comes on,
  that whatever a client posts can be marshalled and only its size keeps an order from the payments
  service, what the probes and the request metrics report.
  For the state machines: that serving ends, within a bound on the steps and without a schedule that
  gets stuck, and with which result; what the probes report in every interleaving of start and shutdown.
  Across components: an email-worker page sheds publishing and nothing else, reservations
  accumulate along the order path, the burn rate of the orders service is the share of failed
  calls to the payments service, a webhook request with an installed alert has its effect on the deployed
  objects and no request misses its target there,
  a page that keeps firing scales its target to the maximum, the operator never lifts its brake. Some
  properties record defects: a sync of Argo CD lifts the brake during the incident, the orders service's routes
  conflict, an inventory outage is invisible to the availability alerts unless calls hang past their
  deadline, the Role refuses the reads of two remedies, readiness can outlive the
  start of shutdown, a late header is mislabelled, scaling is not idempotent.

  \<^bold>\<open>Bounds and termination.\<close> All functions are total; recursion that is not structural (string
  loops, paths, digits) has a measure, and no fuel is used. The loops that run until the
  process ends (the watcher, the serving goroutines, concurrent requests and orders) are step relations; for
  serving and for a critical section a rank bounds the number of further steps. The JSON scanner's nesting limit is the library's.

  \<^bold>\<open>Not modelled.\<close> Protobuf reflection and the unknown fields a message keeps, the Prometheus registry and text
  format (\<open>obs.Registry\<close> only calls that library), spans and their propagation, zap,
  the redirects of \<open>ServeMux\<close> for paths that are not in canonical form and its \<open>Allow\<close> header,
  timeouts other than through the errors they cause and the deadline of the payments call, crashes of the
  email worker, and everything under \<open>k8s\<close>, \<open>chaos\<close>, \<open>gitops\<close>,
  \<open>terraform\<close>, \<open>loadgen\<close> and \<open>scripts\<close> except the labels of the alert rules, the availability
  expressions of the orders service, the operator's Role, the autoscalers and the flags ConfigMap, and the
  repeat interval of AlertManager. What the map of the sources leaves out of the Go
  files is comments, imports, declarations of empty structs and service names, the copies of
  \<open>envOr\<close> and calls that only hand over to a library (\<open>obs.Registry\<close>, \<open>obs.Tracer\<close>).
\<close>

section \<open>Definitions that span components\<close>

text \<open>
  The order path: one order through the three services, with their connections in one process.
  An order carries the identifiers the services draw for it, the bank's random number, the
  current time and the request body.
\<close>

record order =
  o_reservation :: string
  o_payment :: string
  o_order :: string
  o_rnd :: nat
  o_time :: civil
  o_body :: string

definition path_env :: "(nats_msg \<Rightarrow> 'j \<Rightarrow> string option \<times> 'j) \<Rightarrow> order \<Rightarrow>
    (inventory_server \<times> duration, 'j) order_env" where
  "path_env publish od = \<lparr>
     pay = (\<lambda>_. local_transport (Charge (local_transport (Reserve (o_reservation od))) (o_rnd od) (o_payment od))),
     PublishMsg = publish, trace_headers = [], new_uuid = o_order od, now_utc = o_time od\<rparr>"

fun place_orders :: "(nats_msg \<Rightarrow> 'j \<Rightarrow> string option \<times> 'j) \<Rightarrow> app \<Rightarrow> order list \<Rightarrow>
    (inventory_server \<times> duration) \<times> 'j \<Rightarrow> int list \<times> (inventory_server \<times> duration) \<times> 'j" where
  "place_orders publish a [] st = ([], st)"
| "place_orders publish a (od # ods) st =
    (let (ops, st1) = handleCreate (path_env publish od) a (o_body od) st;
         (cs, st2) = place_orders publish a ods st1
     in (code ops # cs, st2))"

text \<open>A JetStream that keeps the data of every message it is given.\<close>

definition keep_publish :: "nats_msg \<Rightarrow> string list \<Rightarrow> string option \<times> string list" where
  "keep_publish m j = (None, j @ [msg_Data m])"

definition sample_order :: order where
  "sample_order = \<lparr>o_reservation = ''r1'', o_payment = ''p1'', o_order = ''o1'', o_rnd = 3,
     o_time = sample_time, o_body = [CHR 0x7B, CHR 0x7D]\<rparr>"

section \<open>Lemmas\<close>

lemma dispatch_email_page:
  assumes "go_get (labels_of a) ''severity'' = ''page''" "go_get (labels_of a) ''service'' = ''email-worker''"
    and "CircuitBreak_Apply (main_input wide cl a) w = (None, w')"
  shows "dispatch wide (cfg (main_server fl cl)) a w = w'"
  using assms(3) Classify_email_worker [OF assms(1,2), of wide]
  by (simp add: dispatch_main Let_def remedy_for_def)

text \<open>Pausing changes nothing but the publishing.\<close>

lemma handleCreate_paused:
  "fst (handleCreate env (a\<lparr>publishingPaused := p\<rparr>) req_body st) = fst (handleCreate env a req_body st)"
  "fst (snd (handleCreate env (a\<lparr>publishingPaused := p\<rparr>) req_body st)) =
     fst (snd (handleCreate env a req_body st))"
  "publishingPaused a \<Longrightarrow> snd (snd (handleCreate env a req_body (s, j))) = j"
  by (auto simp: handleCreate_def Let_def split: prod.splits option.splits)

lemma order_step:
  assumes "Decode dec_order zero_order (o_body od) = Some req"
  shows "handleCreate (path_env publish od) a (o_body od) ((s, t), j) =
    ([SetHeader ''Content-Type'' ''application/json'', Write (created_reply (o_order od) (o_payment od))],
     (s\<lparr>store := (store s)(o_reservation od \<mapsto> [Some default_item])\<rparr>, t + bank_delay (o_rnd od)),
     if publishingPaused a then j else snd (publish (order_msg (path_env publish od) a req) j))"
  using assms
  by (simp add: handleCreate_def path_env_def paymentsServiceClient_Charge_def
      inventoryServiceClient_Reserve_def unary_call_def local_transport_def Charge_def Reserve_def
      getter_defs Let_def reserve_status_defs charge_status_defs)

lemma place_orders_store:
  assumes "\<forall>od \<in> set ods. Decode dec_order zero_order (o_body od) \<noteq> None"
  shows "\<exists>s' t' j'. place_orders publish a ods ((s, t), j) = (map (\<lambda>_. 200) ods, (s', t'), j')
    \<and> dom (store s') = dom (store s) \<union> o_reservation ` set ods"
  using assms
proof (induction ods arbitrary: s t j)
  case (Cons od ods)
  then obtain req where "Decode dec_order zero_order (o_body od) = Some req" by auto
  note step = order_step [OF this, of publish a s t j]
  let ?s = "s\<lparr>store := (store s)(o_reservation od \<mapsto> [Some default_item])\<rparr>"
  let ?j = "if publishingPaused a then j else snd (publish (order_msg (path_env publish od) a req) j)"
  have "\<forall>od \<in> set ods. Decode dec_order zero_order (o_body od) \<noteq> None" using Cons.prems by simp
  from Cons.IH [OF this, of ?s "t + bank_delay (o_rnd od)" ?j] obtain s' t' j' where
    "place_orders publish a ods ((?s, t + bank_delay (o_rnd od)), ?j) = (map (\<lambda>_. 200) ods, (s', t'), j')"
    "dom (store s') = dom (store ?s) \<union> o_reservation ` set ods" by blast
  then show ?case by (auto simp: step code_reply)
qed simp

section \<open>Properties\<close>

text \<open>
  C1: the circuit-break control loop, end to end. When the operator that \<open>main\<close> builds
  dispatches a page-severity email-worker alert and the remedy succeeds, then the flags
  ConfigMap exists; every watcher of the orders service that handles a tick while its file
  shows that ConfigMap becomes paused; and an orders service with that flag hands nothing to
  JetStream, while every response and every call to the payments service stays as it was. Once
  the key is deleted, a tick that finds the file gone lifts the brake.
\<close>

theorem circuit_break_sheds_publishing:
  assumes "kube_api cl view" "view_keys (view (cluster w))" "projects_flag project"
    and "go_get (labels_of al) ''severity'' = ''page''" "go_get (labels_of al) ''service'' = ''email-worker''"
    and "CircuitBreak_Apply (main_input wide cl al) w = (None, w1)"
    and "w' = dispatch wide (cfg (main_server fl cl)) al w"
    and "flag_file u = project (v_cms (view (cluster w')) flags_key)" "watch_step u TickEv v"
    and "publishingPaused a = paused v"
    and "watch_step (v\<lparr>flag_file := None\<rparr>) TickEv v'"
  shows "v_cms (view (cluster w')) flags_key \<noteq> None \<and> paused v
    \<and> snd (snd (handleCreate env a req_body (s, j))) = j
    \<and> fst (handleCreate env a req_body (s, j)) =
        fst (handleCreate env (a\<lparr>publishingPaused := False\<rparr>) req_body (s, j))
    \<and> fst (snd (handleCreate env a req_body (s, j))) =
        fst (snd (handleCreate env (a\<lparr>publishingPaused := False\<rparr>) req_body (s, j)))
    \<and> \<not> paused v'"
proof -
  have w': "w' = w1" using dispatch_email_page [OF assms(4,5,6)] assms(7) by simp
  have key: "in_key (main_input wide cl al) = flags_key"
    using Classify_email_worker [OF assms(4,5), of wide] by (simp add: main_input_def)
  have "kube_api (Client (main_input wide cl al)) view" using assms(1) by (simp add: main_input_def)
  from cb.success [OF this assms(2,6)] obtain cm where
    cm: "v_cms (view (cluster w')) flags_key = Some cm" "data_of cm flagKey = Some flagValuePaused"
    unfolding w' brake_upd_def key by auto
  then have "flag_file u = Some ''false''"
    using assms(3,8) by (simp add: projects_flag_def flagValuePaused_def)
  then have p: "paused v"
    using assms(9) TrimSpace_flag_values(1) by (auto simp: watch_step_tick)
  moreover have "\<not> paused v'"
    using assms(11) TrimSpace_flag_values(3) by (auto simp: watch_step_tick)
  ultimately show ?thesis
    using cm(1) assms(10) by (simp add: handleCreate_paused)
qed

theorem circuit_break_sheds_publishing_witness:
  "\<exists>w1 v. CircuitBreak_Apply (main_input (\<lambda>_. True) mem_client sample_alert) (mem_world empty_view) = (None, w1)
    \<and> watch_step (watch_start None None (Some ''false'') False) TickEv v \<and> paused v
    \<and> snd (snd (handleCreate (path_env keep_publish sample_order)
        \<lparr>subject = ''orders.events.created'', publishingPaused = True\<rparr> '''' ((new_inventory, 0), []))) = []"
proof -
  let ?in = "main_input (\<lambda>_. True) mem_client sample_alert"
  let ?w = "mem_world empty_view"
  have page: "go_get (labels_of sample_alert) ''severity'' = ''page''"
    "go_get (labels_of sample_alert) ''service'' = ''email-worker''"
    by (simp_all add: sample_alert_def labels_of_def)
  have "fst (CircuitBreak_Apply ?in ?w) = None"
    by (simp add: main_input_def CircuitBreak_Apply_def do_defs issue_def mem_defs mem_world_def
        empty_view_def IsNotFound_def view_defs Let_def)
  then obtain w1 where run: "CircuitBreak_Apply ?in ?w = (None, w1)" by (metis prod.collapse)
  have key: "in_key ?in = flags_key"
    using Classify_email_worker [OF page, of "\<lambda>_. True"] by (simp add: main_input_def)
  have api: "kube_api mem_client id" by (rule kube_api_mem_client)
  have "cluster w1 = brake_upd ?in empty_view"
    using cb.success [of ?in id ?w w1] run api by (simp add: main_input_def)
  then have content: "kubelet_project (v_cms (id (cluster (dispatch (\<lambda>_. True)
      (cfg (main_server default_flags mem_client)) sample_alert ?w))) flags_key) = Some ''false''"
    unfolding dispatch_email_page [OF page run] brake_upd_def key
    by (simp add: kubelet_project_def flagValuePaused_def)
  let ?u = "watch_start None None (Some ''false'') False"
  have st: "watch_step ?u TickEv (do_read ?u)" "watch_step ((do_read ?u)\<lparr>flag_file := None\<rparr>) TickEv
      (do_read ((do_read ?u)\<lparr>flag_file := None\<rparr>))"
    by (simp_all add: watch_step_tick watch_start_def Let_def)
  have u: "flag_file ?u = kubelet_project (v_cms (id (cluster (dispatch (\<lambda>_. True)
      (cfg (main_server default_flags mem_client)) sample_alert ?w))) flags_key)"
    using content by simp
  have p: "publishingPaused \<lparr>subject = ''orders.events.created'', publishingPaused = True\<rparr> = paused (do_read ?u)"
    using TrimSpace_flag_values(1) by simp
  have "view_keys (id (cluster ?w))" by simp
  from circuit_break_sheds_publishing [OF api this projects_flag_kubelet page run refl u st(1) p st(2),
      of "path_env keep_publish sample_order" "''''" "(new_inventory, 0)" "[]"]
  show ?thesis using run st(1) by blast
qed

text \<open>
  C37: reservations accumulate along the order path. When orders flow through the three
  services, every decodable order is answered 200 and leaves one reservation in the
  inventory, and nothing on the path ever releases one: after any number of orders the store
  holds as many reservations as orders were placed.
\<close>

theorem orders_accumulate_reservations:
  assumes "\<forall>od \<in> set ods. Decode dec_order zero_order (o_body od) \<noteq> None"
    and "distinct (map o_reservation ods)"
  shows "\<exists>s' t' j'. place_orders publish a ods ((new_inventory, 0), j) = (map (\<lambda>_. StatusOK) ods, (s', t'), j')
    \<and> card (dom (store s')) = length ods"
proof -
  obtain s' t' j' where
    p: "place_orders publish a ods ((new_inventory, 0), j) = (map (\<lambda>_. 200) ods, (s', t'), j')"
    "dom (store s') = o_reservation ` set ods"
    using place_orders_store [OF assms(1), of publish a new_inventory 0 j]
    by (auto simp: new_inventory_def)
  have "card (o_reservation ` set ods) = length ods"
    using assms(2) distinct_card [of "map o_reservation ods"] by simp
  with p show ?thesis by auto
qed

theorem orders_accumulate_reservations_witness:
  "\<exists>s' t' j'. place_orders keep_publish \<lparr>subject = ''orders.events.created'', publishingPaused = False\<rparr>
      [sample_order, sample_order\<lparr>o_reservation := ''r2''\<rparr>] ((new_inventory, 0), []) =
        ([StatusOK, StatusOK], (s', t'), j')
    \<and> card (dom (store s')) = 2"
  using orders_accumulate_reservations [of "[sample_order, sample_order\<lparr>o_reservation := ''r2''\<rparr>]"
      keep_publish "\<lparr>subject = ''orders.events.created'', publishingPaused = False\<rparr>" "[]"]
  by (simp add: sample_order_def empty_object_decodes numeral_2_eq_2)

end
